(* ===== verification/Prelude.thy ===== *)
theory Prelude
  imports Main "HOL-Library.AList" "HOL-Library.Word" "HOL-Library.Multiset"
    "HOL-Library.Char_ord" "HOL-Library.List_Lexorder"
begin

text \<open>
  Shared vocabulary of the development. Go strings and byte slices of text are
  \<^typ>\<open>string\<close> (an Isabelle \<^typ>\<open>char\<close> is exactly one byte), raw protocol bytes are
  \<open>8 word\<close>. A Go map is an association list with distinct keys, \<open>gput\<close>, \<open>gdel\<close> and
  \<^const>\<open>map_of\<close> being its store, delete and lookup; the order of the list is the
  order in which one particular \<open>range\<close> loop would visit it, so a definition whose result
  depends on it is stated for every order. Go's \<open>int\<close> and \<open>int64\<close> are \<^typ>\<open>int\<close>, with
  \<open>wrap64\<close> written wherever an addition or a product can leave the 64-bit range.
\<close>

named_theorems map_simps \<open>lookups and counts after a store or a delete\<close>

named_theorems wf_intros \<open>operations keep a map's keys distinct\<close>

section \<open>Go maps\<close>

type_synonym ('k, 'v) gomap = "('k \<times> 'v) list"

abbreviation gput :: "'k \<Rightarrow> 'v \<Rightarrow> ('k, 'v) gomap \<Rightarrow> ('k, 'v) gomap" where
  "gput \<equiv> AList.update"

abbreviation gdel :: "'k \<Rightarrow> ('k, 'v) gomap \<Rightarrow> ('k, 'v) gomap" where
  "gdel \<equiv> AList.delete"

definition gwf :: "('k, 'v) gomap \<Rightarrow> bool" where
  "gwf m \<longleftrightarrow> distinct (map fst m)"

definition gcount :: "('v \<Rightarrow> bool) \<Rightarrow> ('k, 'v) gomap \<Rightarrow> nat" where
  "gcount P m = length (filter (\<lambda>kv. P (snd kv)) m)"

lemma gwf_Nil [simp, wf_intros]: "gwf []"
  by (simp add: gwf_def)

lemma gwf_Cons [simp]: "gwf ((k, v) # m) \<longleftrightarrow> k \<notin> fst ` set m \<and> gwf m"
  by (auto simp: gwf_def)

lemma gwf_gput [simp, wf_intros]: "gwf m \<Longrightarrow> gwf (gput k v m)"
  by (simp add: gwf_def distinct_update)

lemma gwf_gdel [simp, wf_intros]: "gwf m \<Longrightarrow> gwf (gdel k m)"
  by (simp add: gwf_def distinct_delete)

lemma gwf_filter: "gwf m \<Longrightarrow> gwf (filter P m)"
  by (simp add: gwf_def distinct_map_filter)

lemma map_of_gput [map_simps]: "map_of (gput k v m) k' = (if k' = k then Some v else map_of m k')"
  by (simp add: update_conv')

lemma map_of_gdel [map_simps]: "map_of (gdel k m) k' = (if k' = k then None else map_of m k')"
  by (simp add: delete_conv')

lemma gwf_set_iff: "gwf m \<Longrightarrow> (k, v) \<in> set m \<longleftrightarrow> map_of m k = Some v"
  by (auto simp: gwf_def)

lemma gcount_Nil [simp]: "gcount P [] = 0"
  by (simp add: gcount_def)

lemma gcount_Cons [simp]: "gcount P ((k, v) # m) = of_bool (P v) + gcount P m"
  by (simp add: gcount_def)

lemma gcount_cong: "(\<And>k v. (k, v) \<in> set m \<Longrightarrow> P v = Q v) \<Longrightarrow> gcount P m = gcount Q m"
  unfolding gcount_def by (rule arg_cong [where f = length], rule filter_cong) auto

lemma gcount_le_length: "gcount P m \<le> length m"
  by (simp add: gcount_def)

lemma gcount_mono: "(\<And>k v. (k, v) \<in> set m \<Longrightarrow> P v \<Longrightarrow> Q v) \<Longrightarrow> gcount P m \<le> gcount Q m"
proof (induction m)
  case (Cons kv m)
  obtain k v where kv: "kv = (k, v)" by (cases kv)
  have "gcount P m \<le> gcount Q m" by (rule Cons.IH) (use Cons.prems in auto)
  with Cons.prems [of k v] show ?case by (auto simp: kv)
qed simp

lemma gcount_gput_new [map_simps]:
  "map_of m k = None \<Longrightarrow> gcount P (gput k v m) = gcount P m + of_bool (P v)"
  by (induction m) (auto split: if_splits simp del: of_bool_eq_1_iff)

lemma gcount_gput_old:
  "map_of m k = Some v \<Longrightarrow>
    gcount P (gput k v' m) + of_bool (P v) = gcount P m + of_bool (P v')"
  by (induction m) (auto split: if_splits)

lemma gcount_gdel_absent: "k \<notin> fst ` set m \<Longrightarrow> gdel k m = m"
  by (induction m) auto

lemma gcount_gdel:
  "gwf m \<Longrightarrow> map_of m k = Some v \<Longrightarrow> gcount P (gdel k m) + of_bool (P v) = gcount P m"
  by (induction m) (auto simp: gcount_gdel_absent split: if_splits)

lemma gcount_gdel_le: "gcount P (gdel k m) \<le> gcount P m"
  by (induction m) (auto simp: trans_le_add2 split: if_splits)

lemma length_gput:
  "length (gput k v m) = (if map_of m k = None then Suc (length m) else length m)"
  by (induction m) auto

lemma length_gdel_le: "length (gdel k m) \<le> length m"
  by (rule length_delete_le)

lemma gput_absent: "map_of m k = None \<Longrightarrow> gput k v m = m @ [(k, v)]"
  by (induction m) (auto split: if_splits)

section \<open>Go's fixed-width integers\<close>

definition wrap64 :: "int \<Rightarrow> int" where
  "wrap64 x = (x + 2 ^ 63) mod 2 ^ 64 - 2 ^ 63"

definition in64 :: "int \<Rightarrow> bool" where
  "in64 x \<longleftrightarrow> - (2 ^ 63) \<le> x \<and> x < 2 ^ 63"

definition go_div :: "int \<Rightarrow> int \<Rightarrow> int" where
  \<comment> \<open>Go's \<open>/\<close> truncates towards zero; only called with a non-zero divisor.\<close>
  "go_div a b = (if (a < 0) = (b < 0) then \<bar>a\<bar> div \<bar>b\<bar> else - (\<bar>a\<bar> div \<bar>b\<bar>))"

lemma wrap64_id [simp]: "in64 x \<Longrightarrow> wrap64 x = x"
  by (simp add: wrap64_def in64_def)

lemma wrap64_in64 [simp]: "in64 (wrap64 x)"
proof -
  have "0 \<le> (x + 2 ^ 63) mod 2 ^ 64 \<and> (x + 2 ^ 63) mod 2 ^ 64 < 2 ^ 64"
    by simp
  then show ?thesis by (simp add: wrap64_def in64_def)
qed

lemma go_div_nonneg [simp]: "0 \<le> a \<Longrightarrow> 0 < b \<Longrightarrow> go_div a b = a div b"
  by (simp add: go_div_def)

section \<open>Results\<close>

definition is_ok :: "'e + 'a \<Rightarrow> bool" where
  "is_ok r = (case r of Inl _ \<Rightarrow> False | Inr _ \<Rightarrow> True)"

lemma is_ok_simps [simp]: "\<not> is_ok (Inl e)" "is_ok (Inr x)"
  by (simp_all add: is_ok_def)

end
