(* ===== verification/TransferState.thy ===== *)
theory TransferState
  imports Prelude
begin

text \<open>
  The life cycle of one outgoing transfer: \<open>core/transfer/state.go\<close> and the \<open>Status\<close>
  constants of \<open>core/transfer/manager.go\<close>. The transition table is the source's nested
  map; \<open>StateMachine\<close> is its struct, and \<open>Transition\<close> either moves or returns
  \<open>ErrInvalidTransition\<close> with the machine unchanged. The locale \<open>lifecycle\<close> is the
  contract of a status machine (an allowed-step test and a set of final states), shared with the
  incoming side in theory \<open>ReceiveManager\<close>.
\<close>

section \<open>Status values and the transition table\<close>

datatype Status =
    StatusPending
  | StatusConnecting
  | StatusTransferring
  | StatusCompleted
  | StatusFailed
  | StatusCancelled
  | StatusAwaitingResume

fun Status_text :: "Status \<Rightarrow> string" where
  "Status_text StatusPending = ''pending''"
| "Status_text StatusConnecting = ''connecting''"
| "Status_text StatusTransferring = ''transferring''"
| "Status_text StatusCompleted = ''completed''"
| "Status_text StatusFailed = ''failed''"
| "Status_text StatusCancelled = ''cancelled''"
| "Status_text StatusAwaitingResume = ''awaiting_resume''"

lemma Status_text_inj [simp]: "Status_text a = Status_text b \<longleftrightarrow> a = b"
  by (cases a; cases b) simp_all

text \<open>A Go \<open>Status\<close> is a string and is compared as one.\<close>

instantiation Status :: linorder
begin

definition less_eq_Status :: "Status \<Rightarrow> Status \<Rightarrow> bool" where
  "less_eq_Status a b \<longleftrightarrow> Status_text a \<le> Status_text b"

definition less_Status :: "Status \<Rightarrow> Status \<Rightarrow> bool" where
  "less_Status a b \<longleftrightarrow> Status_text a < Status_text b"

instance
  by standard (auto simp: less_eq_Status_def less_Status_def order_less_le)

end

definition defaultTransitions :: "(Status, Status list) gomap" where
  "defaultTransitions =
    [(StatusPending, [StatusConnecting, StatusCancelled, StatusFailed]),
     (StatusConnecting,
       [StatusTransferring, StatusFailed, StatusCancelled, StatusAwaitingResume]),
     (StatusTransferring,
       [StatusCompleted, StatusFailed, StatusCancelled, StatusAwaitingResume]),
     (StatusAwaitingResume, [StatusConnecting, StatusCancelled, StatusFailed]),
     (StatusFailed, [StatusConnecting]),
     (StatusCompleted, []),
     (StatusCancelled, [])]"

section \<open>The state machine\<close>

record StateMachine =
  sm_current :: Status
  sm_table :: "(Status, Status list) gomap"

datatype TransitionError = ErrInvalidTransition Status Status

definition NewStateMachine :: "Status \<Rightarrow> StateMachine" where
  "NewStateMachine initial = \<lparr>sm_current = initial, sm_table = defaultTransitions\<rparr>"

definition State :: "StateMachine \<Rightarrow> Status" where
  "State sm = sm_current sm"

definition IsTerminal :: "StateMachine \<Rightarrow> bool" where
  "IsTerminal sm = (case map_of (sm_table sm) (sm_current sm) of
      None \<Rightarrow> False
    | Some next_states \<Rightarrow> length next_states = 0)"

definition CanTransition :: "StateMachine \<Rightarrow> Status \<Rightarrow> bool" where
  "CanTransition sm next = (case map_of (sm_table sm) (sm_current sm) of
      None \<Rightarrow> False
    | Some allowed \<Rightarrow> next \<in> set allowed)"

definition Transition :: "StateMachine \<Rightarrow> Status \<Rightarrow> TransitionError + StateMachine" where
  "Transition sm next =
    (if \<not> CanTransition sm next then Inl (ErrInvalidTransition (sm_current sm) next)
     else Inr (sm\<lparr>sm_current := next\<rparr>))"

definition ValidTransitions :: "StateMachine \<Rightarrow> Status list" where
  "ValidTransitions sm = (case map_of (sm_table sm) (sm_current sm) of
      None \<Rightarrow> []
    | Some allowed \<Rightarrow> sort allowed)"

text \<open>Driving the machine through a list of requested states; a refused request changes nothing.\<close>

fun drive :: "StateMachine \<Rightarrow> Status list \<Rightarrow> StateMachine" where
  "drive sm [] = sm"
| "drive sm (s # ss) =
    (case Transition sm s of Inl _ \<Rightarrow> drive sm ss | Inr sm' \<Rightarrow> drive sm' ss)"

text \<open>The visited states, the initial one first.\<close>

fun visited :: "StateMachine \<Rightarrow> Status list \<Rightarrow> Status list" where
  "visited sm [] = [sm_current sm]"
| "visited sm (s # ss) =
    (case Transition sm s of
       Inl _ \<Rightarrow> visited sm ss
     | Inr sm' \<Rightarrow> sm_current sm # visited sm' ss)"

definition default_table :: "StateMachine \<Rightarrow> bool" where
  "default_table sm \<longleftrightarrow> sm_table sm = defaultTransitions"

definition allowed_step :: "Status \<Rightarrow> Status \<Rightarrow> bool" where
  "allowed_step a b = CanTransition (NewStateMachine a) b"

section \<open>The contract of a status machine\<close>

locale lifecycle =
  fixes step_ok :: "'s \<Rightarrow> 's \<Rightarrow> bool"
    and final :: "'s \<Rightarrow> bool"
  assumes final_stuck: "final s \<Longrightarrow> \<not> step_ok s t"
    and step_irrefl: "\<not> step_ok s s"
begin

lemma final_reach: "step_ok\<^sup>*\<^sup>* s t \<Longrightarrow> final s \<Longrightarrow> t = s"
  by (induction rule: converse_rtranclp_induct) (auto simp: final_stuck)

lemma final_path:
  assumes "successively step_ok (s # ss)" and "final s"
  shows "ss = []"
  using assms by (cases ss) (auto simp: final_stuck)

lemma path_final_last:
  assumes "successively step_ok xs" and "i < length xs" and "final (xs ! i)"
  shows "i = length xs - 1"
proof (rule ccontr)
  assume "i \<noteq> length xs - 1"
  with assms(2) have "Suc i < length xs" by simp
  with assms(1) have "step_ok (xs ! i) (xs ! Suc i)"
    by (simp add: successively_conv_nth)
  with assms(3) show False by (simp add: final_stuck)
qed

lemma path_no_repeat:
  assumes "successively step_ok xs" and "Suc i < length xs"
  shows "xs ! i \<noteq> xs ! Suc i"
  using assms step_irrefl by (metis successively_conv_nth)

end

lemma allowed_step_iff:
  "allowed_step a b \<longleftrightarrow> (case a of
      StatusPending \<Rightarrow> b \<in> {StatusConnecting, StatusCancelled, StatusFailed}
    | StatusConnecting \<Rightarrow>
        b \<in> {StatusTransferring, StatusFailed, StatusCancelled, StatusAwaitingResume}
    | StatusTransferring \<Rightarrow>
        b \<in> {StatusCompleted, StatusFailed, StatusCancelled, StatusAwaitingResume}
    | StatusAwaitingResume \<Rightarrow> b \<in> {StatusConnecting, StatusCancelled, StatusFailed}
    | StatusFailed \<Rightarrow> b = StatusConnecting
    | StatusCompleted \<Rightarrow> False
    | StatusCancelled \<Rightarrow> False)"
  by (cases a) (auto simp: allowed_step_def CanTransition_def NewStateMachine_def
      defaultTransitions_def)

interpretation tsm: lifecycle allowed_step "\<lambda>s. IsTerminal (NewStateMachine s)"
proof unfold_locales
  show "\<not> allowed_step s t" if "IsTerminal (NewStateMachine s)" for s t
    using that by (cases s)
      (auto simp: IsTerminal_def NewStateMachine_def defaultTransitions_def allowed_step_iff)
  show "\<not> allowed_step s s" for s
    by (cases s) (auto simp: allowed_step_iff)
qed

section \<open>Lemmas\<close>

lemma default_table_New [simp]: "default_table (NewStateMachine s)"
  by (simp add: default_table_def NewStateMachine_def)

lemma default_table_New_iff: "default_table sm \<longleftrightarrow> sm = NewStateMachine (sm_current sm)"
  by (cases sm) (auto simp: default_table_def NewStateMachine_def)

lemma New_current [simp]: "sm_current (NewStateMachine s) = s"
  by (simp add: NewStateMachine_def)

lemma New_update [simp]: "(NewStateMachine s)\<lparr>sm_current := t\<rparr> = NewStateMachine t"
  by (simp add: NewStateMachine_def)

lemma Transition_New:
  "Transition (NewStateMachine s) t =
    (if allowed_step s t then Inr (NewStateMachine t) else Inl (ErrInvalidTransition s t))"
  by (simp add: Transition_def allowed_step_def)

lemma IsTerminal_New: "IsTerminal (NewStateMachine s) \<longleftrightarrow> s \<in> {StatusCompleted, StatusCancelled}"
  by (cases s) (auto simp: IsTerminal_def NewStateMachine_def defaultTransitions_def)

lemma visited_path:
  "successively allowed_step (visited (NewStateMachine s) ss) \<and>
    visited (NewStateMachine s) ss \<noteq> [] \<and> hd (visited (NewStateMachine s) ss) = s"
proof (induction ss arbitrary: s)
  case (Cons t ss)
  show ?case
  proof (cases "allowed_step s t")
    case True
    with Cons.IH [of t] show ?thesis
      by (cases "visited (NewStateMachine t) ss") (auto simp: Transition_New)
  next
    case False
    with Cons.IH [of s] show ?thesis by (simp add: Transition_New)
  qed
qed simp

lemma visited_last: "last (visited (NewStateMachine s) ss) = sm_current (drive (NewStateMachine s) ss)"
proof (induction ss arbitrary: s)
  case (Cons t ss)
  then show ?case using visited_path [of t ss] by (auto simp: Transition_New)
qed simp

lemma sort_eq_Nil: "sort xs = [] \<longleftrightarrow> xs = []"
  by (metis length_0_conv length_sort)

lemma into_completed: "allowed_step a StatusCompleted \<longleftrightarrow> a = StatusTransferring"
  by (cases a) (auto simp: allowed_step_iff)

lemma into_transferring: "allowed_step a StatusTransferring \<longleftrightarrow> a = StatusConnecting"
  by (cases a) (auto simp: allowed_step_iff)


lemma visited_snocD:
  assumes "successively allowed_step xs" and "xs \<noteq> []" and "hd xs = StatusPending"
    and "last xs = t" and "t \<noteq> StatusPending"
  shows "\<exists>ys. xs = ys @ [t] \<and> ys \<noteq> [] \<and> successively allowed_step ys \<and>
    hd ys = StatusPending \<and> allowed_step (last ys) t"
proof -
  from assms(2,4) obtain ys where xs: "xs = ys @ [t]"
    by (metis append_butlast_last_id)
  with assms(3,5) have "ys \<noteq> []" by (cases ys) auto
  with xs assms show ?thesis by (auto simp: successively_append_iff)
qed

section \<open>Properties\<close>

text \<open>C1: whatever status changes are requested of a new transfer, in whatever order and however
  often, it is completed only after a history that starts at pending and ends connecting,
  transferring, completed: no sequence of requests skips the connection or the data phase.\<close>

theorem completed_only_after_transferring:
  assumes "sm_current (drive (NewStateMachine StatusPending) ss) = StatusCompleted"
  shows "\<exists>pre. visited (NewStateMachine StatusPending) ss =
      pre @ [StatusConnecting, StatusTransferring, StatusCompleted] \<and>
    pre \<noteq> [] \<and> hd pre = StatusPending"
proof -
  let ?v = "visited (NewStateMachine StatusPending) ss"
  have "last ?v = StatusCompleted" using assms by (simp add: visited_last)
  then obtain a where a: "?v = a @ [StatusCompleted]" "a \<noteq> []" "successively allowed_step a"
      "hd a = StatusPending" "last a = StatusTransferring"
    using visited_snocD [of ?v StatusCompleted] visited_path [of StatusPending ss]
    by (auto simp: into_completed)
  then obtain b where b: "a = b @ [StatusTransferring]" "b \<noteq> []" "successively allowed_step b"
      "hd b = StatusPending" "last b = StatusConnecting"
    using visited_snocD [of a StatusTransferring] by (auto simp: into_transferring)
  then obtain c where "b = c @ [StatusConnecting]" "c \<noteq> []" "hd c = StatusPending"
    using visited_snocD [of b StatusConnecting] by auto
  with a b show ?thesis by auto
qed

theorem completed_only_after_transferring_witness:
  "\<exists>pre. visited (NewStateMachine StatusPending)
       [StatusTransferring, StatusConnecting, StatusTransferring, StatusCompleted] =
      pre @ [StatusConnecting, StatusTransferring, StatusCompleted] \<and>
    pre \<noteq> [] \<and> hd pre = StatusPending"
  by (rule completed_only_after_transferring)
    (simp add: Transition_New allowed_step_iff)

text \<open>the final states are exactly completed and cancelled, and a machine that has reached
  one stays there through any further requests; every other state can still move.\<close>

theorem terminal_states_absorb:
  "(IsTerminal (NewStateMachine s) \<longleftrightarrow> s = StatusCompleted \<or> s = StatusCancelled) \<and>
   (IsTerminal (NewStateMachine s) \<longrightarrow> drive (NewStateMachine s) ss = NewStateMachine s) \<and>
   (IsTerminal (NewStateMachine s) \<longleftrightarrow> ValidTransitions (NewStateMachine s) = [])"
proof (intro conjI impI)
  show "IsTerminal (NewStateMachine s) \<longleftrightarrow> s = StatusCompleted \<or> s = StatusCancelled"
    by (simp add: IsTerminal_New)
  show "drive (NewStateMachine s) ss = NewStateMachine s" if "IsTerminal (NewStateMachine s)"
    using that by (induction ss) (simp_all add: Transition_New tsm.final_stuck)
  show "IsTerminal (NewStateMachine s) \<longleftrightarrow> ValidTransitions (NewStateMachine s) = []"
    by (cases s) (simp_all add: IsTerminal_def ValidTransitions_def NewStateMachine_def
      defaultTransitions_def sort_eq_Nil del: sort_key_simps)
qed

theorem terminal_states_absorb_witness:
  "drive (NewStateMachine StatusCancelled) [StatusConnecting] = NewStateMachine StatusCancelled"
  using terminal_states_absorb [of StatusCancelled "[StatusConnecting]"] by simp

text \<open>the list of valid transitions is sorted by status name, free of duplicates, and holds
  exactly the states \<open>Transition\<close> accepts.\<close>

theorem ValidTransitions_correct:
  "sorted (ValidTransitions (NewStateMachine s)) \<and> distinct (ValidTransitions (NewStateMachine s)) \<and>
    (t \<in> set (ValidTransitions (NewStateMachine s)) \<longleftrightarrow>
      Transition (NewStateMachine s) t = Inr (NewStateMachine t))"
proof -
  have "sorted (ValidTransitions (NewStateMachine s)) \<and>
      distinct (ValidTransitions (NewStateMachine s))"
    by (cases s) (simp_all add: ValidTransitions_def NewStateMachine_def defaultTransitions_def
      del: sort_key_simps)
  moreover have "t \<in> set (ValidTransitions (NewStateMachine s)) \<longleftrightarrow> allowed_step s t"
    by (cases s) (auto simp: ValidTransitions_def allowed_step_iff NewStateMachine_def
      defaultTransitions_def)
  ultimately show ?thesis by (simp add: Transition_New)
qed

end
