(* ===== verification/CancelReg.thy ===== *)
theory CancelReg
  imports Prelude
begin

text \<open>
  The cancellation registry of \<open>core/transfer/cancel.go\<close>. A \<open>context.CancelFunc\<close> and a
  cleanup closure are opaque to the registry, which only stores and calls them: they are
  numbered handles here (\<open>None\<close> is Go's nil), and a call is an element of the effect trace an
  operation returns. Each operation is one critical section followed by calls outside the lock;
  the entry it took out of the map is no longer reachable by any other operation, so the
  operation is atomic for every other.
\<close>

section \<open>Entries and the registry\<close>

datatype Effect = CallCancel nat | CallCleanup nat

record cancelEntry =
  ce_cancel :: "nat option"
  ce_cleanup :: "nat option"
  ce_cleanupRan :: bool

type_synonym CancelRegistry = "(string, cancelEntry) gomap"

datatype CancelError = ErrCancelNotRegistered

definition NewCancelRegistry :: CancelRegistry where
  "NewCancelRegistry = []"

text \<open>A panic of the closure is recovered by the deferred function, so the call always returns.\<close>

definition runCleanup :: "cancelEntry \<Rightarrow> cancelEntry \<times> Effect list" where
  "runCleanup e =
    (if ce_cleanupRan e then (e, [])
     else (e\<lparr>ce_cleanupRan := True\<rparr>,
       (case ce_cleanup e of None \<Rightarrow> [] | Some h \<Rightarrow> [CallCleanup h])))"

definition callCancel :: "cancelEntry \<Rightarrow> Effect list" where
  "callCancel e = (case ce_cancel e of None \<Rightarrow> [] | Some h \<Rightarrow> [CallCancel h])"

section \<open>Operations\<close>

definition Reg_Register ::
  "string \<Rightarrow> nat option \<Rightarrow> nat option \<Rightarrow> CancelRegistry \<Rightarrow> CancelRegistry \<times> Effect list" where
  "Reg_Register tid cancel cleanup r =
    (let old = map_of r tid;
         r' = gput tid \<lparr>ce_cancel = cancel, ce_cleanup = cleanup, ce_cleanupRan = False\<rparr> r
     in (r', case old of None \<Rightarrow> [] | Some e \<Rightarrow> snd (runCleanup e)))"

definition Reg_Cancel ::
  "string \<Rightarrow> CancelRegistry \<Rightarrow> CancelRegistry \<times> Effect list \<times> CancelError option" where
  "Reg_Cancel tid r = (case map_of r tid of
      None \<Rightarrow> (r, [], Some ErrCancelNotRegistered)
    | Some e \<Rightarrow> (gdel tid r, callCancel e @ snd (runCleanup e), None))"

definition Reg_Cleanup ::
  "string \<Rightarrow> CancelRegistry \<Rightarrow> CancelRegistry \<times> Effect list \<times> CancelError option" where
  "Reg_Cleanup tid r = (case map_of r tid of
      None \<Rightarrow> (r, [], Some ErrCancelNotRegistered)
    | Some e \<Rightarrow> (gdel tid r, snd (runCleanup e), None))"

definition Reg_Complete :: "string \<Rightarrow> CancelRegistry \<Rightarrow> CancelRegistry" where
  "Reg_Complete tid r = gdel tid r"

definition Reg_IsRegistered :: "string \<Rightarrow> CancelRegistry \<Rightarrow> bool" where
  "Reg_IsRegistered tid r \<longleftrightarrow> map_of r tid \<noteq> None"

definition Reg_ActiveCount :: "CancelRegistry \<Rightarrow> nat" where
  "Reg_ActiveCount r = length r"

definition Reg_CancelAll :: "CancelRegistry \<Rightarrow> CancelRegistry \<times> Effect list" where
  "Reg_CancelAll r = ([], concat (map (\<lambda>(tid, e). callCancel e @ snd (runCleanup e)) r))"

section \<open>Runs\<close>

datatype RegOp =
    DoRegister string "nat option" "nat option"
  | DoCancel string
  | DoCleanup string
  | DoComplete string
  | DoCancelAll

fun reg_step :: "RegOp \<Rightarrow> CancelRegistry \<Rightarrow> CancelRegistry \<times> Effect list" where
  "reg_step (DoRegister tid c u) r = Reg_Register tid c u r"
| "reg_step (DoCancel tid) r = (let (r', fx, _) = Reg_Cancel tid r in (r', fx))"
| "reg_step (DoCleanup tid) r = (let (r', fx, _) = Reg_Cleanup tid r in (r', fx))"
| "reg_step (DoComplete tid) r = (Reg_Complete tid r, [])"
| "reg_step DoCancelAll r = Reg_CancelAll r"

fun reg_run :: "RegOp list \<Rightarrow> CancelRegistry \<Rightarrow> CancelRegistry \<times> Effect list" where
  "reg_run [] r = (r, [])"
| "reg_run (x # xs) r =
    (let (r', fx) = reg_step x r; (r'', gx) = reg_run xs r' in (r'', fx @ gx))"

text \<open>Cleanup handles: those a run registers, those called, those still held, those dropped by
  \<open>Complete\<close>.\<close>

definition opt_mset :: "'a option \<Rightarrow> 'a multiset" where
  "opt_mset x = (case x of None \<Rightarrow> {#} | Some h \<Rightarrow> {#h#})"

fun cleanups_called :: "Effect list \<Rightarrow> nat multiset" where
  "cleanups_called [] = {#}"
| "cleanups_called (CallCleanup h # fx) = add_mset h (cleanups_called fx)"
| "cleanups_called (CallCancel h # fx) = cleanups_called fx"

definition cleanups_held :: "CancelRegistry \<Rightarrow> nat multiset" where
  "cleanups_held r = (\<Sum>kv\<leftarrow>r. opt_mset (ce_cleanup (snd kv)))"

fun op_registers :: "RegOp \<Rightarrow> nat multiset" where
  "op_registers (DoRegister tid c u) = opt_mset u"
| "op_registers _ = {#}"

fun op_completes :: "RegOp \<Rightarrow> CancelRegistry \<Rightarrow> nat multiset" where
  "op_completes (DoComplete tid) r =
    (case map_of r tid of None \<Rightarrow> {#} | Some e \<Rightarrow> opt_mset (ce_cleanup e))"
| "op_completes _ r = {#}"

fun run_registers :: "RegOp list \<Rightarrow> nat multiset" where
  "run_registers [] = {#}"
| "run_registers (x # xs) = op_registers x + run_registers xs"

fun run_completes :: "RegOp list \<Rightarrow> CancelRegistry \<Rightarrow> nat multiset" where
  "run_completes [] r = {#}"
| "run_completes (x # xs) r = op_completes x r + run_completes xs (fst (reg_step x r))"

text \<open>Well-formed registries: distinct ids, and no cleanup has run for an entry in the map.\<close>

definition reg_wf :: "CancelRegistry \<Rightarrow> bool" where
  "reg_wf r \<longleftrightarrow> gwf r \<and> (\<forall>(tid, e) \<in> set r. \<not> ce_cleanupRan e)"

section \<open>Lemmas\<close>

lemma cleanups_called_append [simp]:
  "cleanups_called (fx @ gx) = cleanups_called fx + cleanups_called gx"
  by (induction fx rule: cleanups_called.induct) auto

lemma cleanups_callCancel [simp]: "cleanups_called (callCancel e) = {#}"
  by (simp add: callCancel_def split: option.split)

lemma cleanups_runCleanup:
  "\<not> ce_cleanupRan e \<Longrightarrow> cleanups_called (snd (runCleanup e)) = opt_mset (ce_cleanup e)"
  by (simp add: runCleanup_def opt_mset_def split: option.split)

lemma cleanups_held_Nil [simp]: "cleanups_held [] = {#}"
  by (simp add: cleanups_held_def)

lemma cleanups_held_Cons [simp]:
  "cleanups_held ((k, e) # r) = opt_mset (ce_cleanup e) + cleanups_held r"
  by (simp add: cleanups_held_def)

lemma cleanups_held_gput:
  "cleanups_held (gput tid e r) +
    (case map_of r tid of None \<Rightarrow> {#} | Some old \<Rightarrow> opt_mset (ce_cleanup old)) =
    cleanups_held r + opt_mset (ce_cleanup e)"
  by (induction r) (auto simp: algebra_simps split: option.splits if_splits)

lemma cleanups_held_gdel:
  "gwf r \<Longrightarrow> cleanups_held (gdel tid r) +
    (case map_of r tid of None \<Rightarrow> {#} | Some old \<Rightarrow> opt_mset (ce_cleanup old)) =
    cleanups_held r"
  by (induction r)
    (auto simp: gcount_gdel_absent algebra_simps split: option.splits if_splits)

lemma reg_wf_lookup: "reg_wf r \<Longrightarrow> map_of r tid = Some e \<Longrightarrow> \<not> ce_cleanupRan e"
  by (auto simp: reg_wf_def dest: map_of_SomeD)

lemma set_gput_subset: "set (gput k v m) \<subseteq> insert (k, v) (set m)"
  by (induction m) auto

lemma set_gdel_subset: "set (gdel k m) \<subseteq> set m"
  by (induction m) auto

lemma reg_wf_Nil [simp]: "reg_wf []"
  by (simp add: reg_wf_def)

lemma reg_wf_gput: "reg_wf r \<Longrightarrow> \<not> ce_cleanupRan e \<Longrightarrow> reg_wf (gput tid e r)"
  using set_gput_subset [of tid e r] by (auto simp: reg_wf_def)

lemma reg_wf_gdel: "reg_wf r \<Longrightarrow> reg_wf (gdel tid r)"
  using set_gdel_subset [of tid r] by (auto simp: reg_wf_def)

lemma reg_step_wf: "reg_wf r \<Longrightarrow> reg_wf (fst (reg_step x r))"
  by (cases x) (auto simp: Reg_Register_def Reg_Cancel_def Reg_Cleanup_def Reg_Complete_def Reg_CancelAll_def Let_def
      intro: reg_wf_gput reg_wf_gdel split: option.splits)

lemma reg_run_wf: "reg_wf r \<Longrightarrow> reg_wf (fst (reg_run xs r))"
  by (induction xs arbitrary: r) (auto simp: Let_def split_def intro: reg_step_wf)

lemma Reg_CancelAll_cleanups:
  "reg_wf r \<Longrightarrow> cleanups_called (snd (Reg_CancelAll r)) = cleanups_held r"
  by (induction r) (auto simp: Reg_CancelAll_def cleanups_runCleanup reg_wf_def)

lemma reg_step_balance:
  assumes "reg_wf r"
  shows "cleanups_held r + op_registers x =
    cleanups_called (snd (reg_step x r)) + cleanups_held (fst (reg_step x r)) + op_completes x r"
proof (cases x)
  case (DoRegister tid c u)
  then show ?thesis
    using cleanups_held_gput [of tid "\<lparr>ce_cancel = c, ce_cleanup = u, ce_cleanupRan = False\<rparr>" r]
      reg_wf_lookup [OF assms, of tid]
    by (auto simp: Reg_Register_def Let_def cleanups_runCleanup algebra_simps split: option.splits)
next
  case (DoCancel tid)
  then show ?thesis
    using cleanups_held_gdel [of r tid] assms reg_wf_lookup [OF assms, of tid]
    by (auto simp: Reg_Cancel_def reg_wf_def cleanups_runCleanup algebra_simps split: option.splits)
next
  case (DoCleanup tid)
  then show ?thesis
    using cleanups_held_gdel [of r tid] assms reg_wf_lookup [OF assms, of tid]
    by (auto simp: Reg_Cleanup_def reg_wf_def cleanups_runCleanup algebra_simps split: option.splits)
next
  case (DoComplete tid)
  then show ?thesis
    using cleanups_held_gdel [of r tid] assms
    by (auto simp: Reg_Complete_def reg_wf_def split: option.splits)
next
  case DoCancelAll
  then show ?thesis using Reg_CancelAll_cleanups [OF assms] by (simp add: Reg_CancelAll_def)
qed

lemma balance_chain:
  fixes a :: "'a multiset"
  assumes "a + b = c + d + e" and "d + f = g + h + i"
  shows "a + (b + f) = c + g + h + (e + i)"
proof -
  have "a + (b + f) = c + e + (d + f)" using assms(1) by (simp add: add_ac)
  then show ?thesis using assms(2) by (simp add: add_ac)
qed

lemma reg_run_balance:
  "reg_wf r \<Longrightarrow> cleanups_held r + run_registers xs =
    cleanups_called (snd (reg_run xs r)) + cleanups_held (fst (reg_run xs r)) + run_completes xs r"
proof (induction xs arbitrary: r)
  case (Cons x xs)
  from balance_chain [OF reg_step_balance [OF Cons.prems, of x]
      Cons.IH [OF reg_step_wf [OF Cons.prems], of x]]
  show ?case by (simp add: Let_def split_def)
qed simp

section \<open>Properties\<close>

text \<open>C5: over any sequence of registrations, cancels, cleanups, completions and a shutdown, every
  registered cleanup callback is accounted for exactly once: it has been called once, or is still
  registered, or was dropped by \<open>Complete\<close>. None is called twice and none is lost.\<close>

theorem cleanup_exactly_once:
  "run_registers xs =
    cleanups_called (snd (reg_run xs NewCancelRegistry)) +
    cleanups_held (fst (reg_run xs NewCancelRegistry)) +
    run_completes xs NewCancelRegistry"
  using reg_run_balance [of "[]" xs] by (simp add: NewCancelRegistry_def)

end
