(* ===== verification/Slots.thy ===== *)
theory Slots
  imports Prelude
begin

text \<open>
  The contract shared by the three managers that admit work under a limit: outgoing transfers
  (\<open>core/transfer/manager.go\<close>), incoming transfers (\<open>core/receive/manager.go\<close>) and web
  shares (\<open>core/share/manager.go\<close>). Each counts the entries of a map that occupy a slot, refuses
  when the count has reached the limit, and stores one entry otherwise.
\<close>

lemma gcount_gput_le: "gcount P (gput k v m) \<le> Suc (gcount P m)"
proof (cases "map_of m k")
  case None
  then show ?thesis by (simp add: gcount_gput_new of_bool_def)
next
  case (Some v')
  from gcount_gput_old [OF this, of P v] show ?thesis by (simp add: of_bool_def split: if_splits)
qed

lemma gcount_gput_same: "map_of m k = Some v \<Longrightarrow> P v = P v' \<Longrightarrow> gcount P (gput k v' m) = gcount P m"
  using gcount_gput_old [of m k v P v'] by simp

lemma gcount_gput_drop: "map_of m k = Some v \<Longrightarrow> \<not> P v' \<Longrightarrow> gcount P (gput k v' m) \<le> gcount P m"
  using gcount_gput_old [of m k v P v'] by simp

locale slot_table =
  fixes occupied :: "'m \<Rightarrow> nat"
    and limit :: "'m \<Rightarrow> int"
    and admit :: "'a \<Rightarrow> 'm \<Rightarrow> 'e + 'm"
  assumes admit_below: "admit a m = Inr m' \<Longrightarrow> int (occupied m) < limit m"
    and admit_one: "admit a m = Inr m' \<Longrightarrow> occupied m' \<le> Suc (occupied m)"
    and admit_limit: "admit a m = Inr m' \<Longrightarrow> limit m' = limit m"
begin

lemma admit_bound: "admit a m = Inr m' \<Longrightarrow> int (occupied m') \<le> limit m'"
  using admit_below [of a m m'] admit_one [of a m m'] admit_limit [of a m m'] by linarith

lemma admit_full: "limit m \<le> int (occupied m) \<Longrightarrow> \<exists>e. admit a m = Inl e"
  using admit_below [of a m] by (cases "admit a m") force+

definition within :: "'m \<Rightarrow> bool" where
  "within m \<longleftrightarrow> int (occupied m) \<le> limit m"

lemma within_admit: "admit a m = Inr m' \<Longrightarrow> within m'"
  unfolding within_def by (rule admit_bound)

lemma within_shrink: "within m \<Longrightarrow> occupied m' \<le> occupied m \<Longrightarrow> limit m' = limit m \<Longrightarrow> within m'"
  unfolding within_def by linarith

end

end
