(* ===== verification/TransferManager.thy ===== *)
theory TransferManager
  imports TransferState CancelReg Slots
begin

text \<open>
  The table of outgoing transfers: \<open>core/transfer/manager.go\<close>. Every method is one critical
  section of the manager's mutex, so it is a function on the manager's state; the clock reading
  and the fresh id of \<open>newTransfer\<close> (package \<open>google/uuid\<close>) are arguments. \<open>Manager_Cancel\<close>
  ends with the call of the registry's \<open>Cancel\<close>, whose effects it returns.
\<close>

section \<open>State\<close>

record Transfer =
  tr_ID :: string
  tr_PeerID :: string
  tr_PeerName :: string
  tr_FileName :: string
  tr_FilePath :: string
  tr_FileSize :: int
  tr_SentBytes :: int
  tr_Status :: Status
  tr_Error :: string
  tr_CreatedAt :: int
  tr_UpdatedAt :: int
  tr_sm :: StateMachine

record Manager =
  mg_transfers :: "(string, Transfer) gomap"
  mg_maxActive :: int
  mg_CancelReg :: CancelRegistry

datatype ManagerError =
    ErrNotFound
  | ErrLimitReached
  | ErrTransition TransitionError

definition newTransfer ::
  "string \<Rightarrow> int \<Rightarrow> string \<Rightarrow> string \<Rightarrow> string \<Rightarrow> string \<Rightarrow> int \<Rightarrow> Transfer" where
  "newTransfer uid now peerID peerName filePath fileName fileSize =
    \<lparr>tr_ID = uid, tr_PeerID = peerID, tr_PeerName = peerName, tr_FileName = fileName,
     tr_FilePath = filePath, tr_FileSize = fileSize, tr_SentBytes = 0,
     tr_Status = StatusPending, tr_Error = '''', tr_CreatedAt = now, tr_UpdatedAt = now,
     tr_sm = NewStateMachine StatusPending\<rparr>"

definition DefaultMaxConcurrent :: int where
  "DefaultMaxConcurrent = 3"

definition NewManager :: "int \<Rightarrow> Manager" where
  "NewManager maxActive =
    \<lparr>mg_transfers = [],
     mg_maxActive = (if maxActive \<le> 0 then DefaultMaxConcurrent else maxActive),
     mg_CancelReg = NewCancelRegistry\<rparr>"

section \<open>Operations\<close>

definition holds_slot :: "Transfer \<Rightarrow> bool" where
  "holds_slot t \<longleftrightarrow> tr_Status t = StatusPending \<or> tr_Status t = StatusConnecting \<or>
    tr_Status t = StatusTransferring"

definition Manager_Create ::
  "string \<Rightarrow> int \<Rightarrow> string \<Rightarrow> string \<Rightarrow> string \<Rightarrow> string \<Rightarrow> int \<Rightarrow> Manager
    \<Rightarrow> ManagerError + (Transfer \<times> Manager)" where
  "Manager_Create uid now peerID peerName filePath fileName fileSize m =
    (let active = gcount holds_slot (mg_transfers m) in
     if int active \<ge> mg_maxActive m then Inl ErrLimitReached
     else let t = newTransfer uid now peerID peerName filePath fileName fileSize
       in Inr (t, m\<lparr>mg_transfers := gput (tr_ID t) t (mg_transfers m)\<rparr>))"

definition Manager_Get :: "string \<Rightarrow> Manager \<Rightarrow> ManagerError + Transfer" where
  "Manager_Get tid m = (case map_of (mg_transfers m) tid of
      None \<Rightarrow> Inl ErrNotFound
    | Some t \<Rightarrow> Inr t)"

definition Manager_List :: "Manager \<Rightarrow> Transfer list" where
  "Manager_List m = map snd (mg_transfers m)"

definition Manager_UpdateStatus ::
  "string \<Rightarrow> Status \<Rightarrow> string \<Rightarrow> int \<Rightarrow> Manager \<Rightarrow> ManagerError + (Transfer \<times> Manager)" where
  "Manager_UpdateStatus tid status errMsg now m = (case map_of (mg_transfers m) tid of
      None \<Rightarrow> Inl ErrNotFound
    | Some t \<Rightarrow>
        (case (if status \<noteq> tr_Status t
               then (case Transition (tr_sm t) status of
                   Inl e \<Rightarrow> Inl (ErrTransition e)
                 | Inr sm' \<Rightarrow> Inr (t\<lparr>tr_sm := sm', tr_Status := status\<rparr>))
               else Inr t) of
           Inl e \<Rightarrow> Inl e
         | Inr t1 \<Rightarrow>
             let t2 = t1\<lparr>tr_UpdatedAt := now\<rparr>;
                 t3 = (if errMsg \<noteq> '''' then t2\<lparr>tr_Error := errMsg\<rparr> else t2)
             in Inr (t3, m\<lparr>mg_transfers := gput tid t3 (mg_transfers m)\<rparr>)))"

definition Manager_UpdateProgress ::
  "string \<Rightarrow> int \<Rightarrow> int \<Rightarrow> Manager \<Rightarrow> ManagerError + (Transfer \<times> Manager)" where
  "Manager_UpdateProgress tid sentBytes now m = (case map_of (mg_transfers m) tid of
      None \<Rightarrow> Inl ErrNotFound
    | Some t \<Rightarrow>
        let t' = t\<lparr>tr_SentBytes := sentBytes, tr_UpdatedAt := now\<rparr>
        in Inr (t', m\<lparr>mg_transfers := gput tid t' (mg_transfers m)\<rparr>))"

definition Manager_Remove :: "string \<Rightarrow> Manager \<Rightarrow> bool \<times> Manager" where
  "Manager_Remove tid m = (case map_of (mg_transfers m) tid of
      Some _ \<Rightarrow> (True, m\<lparr>mg_transfers := gdel tid (mg_transfers m)\<rparr>)
    | None \<Rightarrow> (False, m))"

definition Manager_ActiveCount :: "Manager \<Rightarrow> nat" where
  "Manager_ActiveCount m = gcount (\<lambda>t. case tr_Status t of
      StatusPending \<Rightarrow> True
    | StatusConnecting \<Rightarrow> True
    | StatusTransferring \<Rightarrow> True
    | _ \<Rightarrow> False) (mg_transfers m)"

definition Manager_Cancel ::
  "string \<Rightarrow> int \<Rightarrow> Manager \<Rightarrow> ManagerError + (Transfer \<times> Manager \<times> Effect list)" where
  "Manager_Cancel tid now m = (case map_of (mg_transfers m) tid of
      None \<Rightarrow> Inl ErrNotFound
    | Some t \<Rightarrow>
        (case Transition (tr_sm t) StatusCancelled of
           Inl e \<Rightarrow> Inl (ErrTransition e)
         | Inr sm' \<Rightarrow>
             let t' = t\<lparr>tr_sm := sm', tr_Status := StatusCancelled, tr_UpdatedAt := now\<rparr>;
                 (reg, fx, _) = Reg_Cancel tid (mg_CancelReg m)
             in Inr (t', m\<lparr>mg_transfers := gput tid t' (mg_transfers m), mg_CancelReg := reg\<rparr>,
                     fx)))"

section \<open>Runs\<close>

datatype MgrOp =
    OpCreate string int string string string string int
  | OpUpdateStatus string Status string int
  | OpUpdateProgress string int int
  | OpRemove string
  | OpCancel string int
  | OpRegister string "nat option" "nat option"
  | OpComplete string

text \<open>One operation; an error leaves the manager as it was.\<close>

fun mgr_step :: "MgrOp \<Rightarrow> Manager \<Rightarrow> Manager" where
  "mgr_step (OpCreate uid now p pn fp fn sz) m =
    (case Manager_Create uid now p pn fp fn sz m of Inl _ \<Rightarrow> m | Inr (_, m') \<Rightarrow> m')"
| "mgr_step (OpUpdateStatus tid s e now) m =
    (case Manager_UpdateStatus tid s e now m of Inl _ \<Rightarrow> m | Inr (_, m') \<Rightarrow> m')"
| "mgr_step (OpUpdateProgress tid n now) m =
    (case Manager_UpdateProgress tid n now m of Inl _ \<Rightarrow> m | Inr (_, m') \<Rightarrow> m')"
| "mgr_step (OpRemove tid) m = snd (Manager_Remove tid m)"
| "mgr_step (OpCancel tid now) m =
    (case Manager_Cancel tid now m of Inl _ \<Rightarrow> m | Inr (_, m', _) \<Rightarrow> m')"
| "mgr_step (OpRegister tid c u) m =
    m\<lparr>mg_CancelReg := fst (Reg_Register tid c u (mg_CancelReg m))\<rparr>"
| "mgr_step (OpComplete tid) m = m\<lparr>mg_CancelReg := Reg_Complete tid (mg_CancelReg m)\<rparr>"

definition mgr_run :: "MgrOp list \<Rightarrow> Manager \<Rightarrow> Manager" where
  "mgr_run xs m = fold mgr_step xs m"

text \<open>Well-formed managers: distinct ids, each transfer under its own id, its published status in
  step with its state machine, and that machine on the default table.\<close>

definition transfer_ok :: "string \<Rightarrow> Transfer \<Rightarrow> bool" where
  "transfer_ok tid t \<longleftrightarrow> tr_ID t = tid \<and> tr_sm t = NewStateMachine (tr_Status t)"

definition mgr_wf :: "Manager \<Rightarrow> bool" where
  "mgr_wf m \<longleftrightarrow> gwf (mg_transfers m) \<and>
    (\<forall>tid t. map_of (mg_transfers m) tid = Some t \<longrightarrow> transfer_ok tid t) \<and>
    0 < mg_maxActive m"

section \<open>Lemmas\<close>

lemma holds_slot_iff: "holds_slot t \<longleftrightarrow> (case tr_Status t of
      StatusPending \<Rightarrow> True | StatusConnecting \<Rightarrow> True | StatusTransferring \<Rightarrow> True | _ \<Rightarrow> False)"
  by (cases "tr_Status t") (auto simp: holds_slot_def)

lemma ActiveCount_eq: "Manager_ActiveCount m = gcount holds_slot (mg_transfers m)"
  by (simp add: Manager_ActiveCount_def holds_slot_iff [abs_def])

lemma mgr_wf_lookup: "mgr_wf m \<Longrightarrow> map_of (mg_transfers m) tid = Some t \<Longrightarrow> transfer_ok tid t"
  by (simp add: mgr_wf_def)

lemma mgr_wf_store:
  "mgr_wf m \<Longrightarrow> transfer_ok tid t \<Longrightarrow> mgr_wf (m\<lparr>mg_transfers := gput tid t (mg_transfers m)\<rparr>)"
  by (auto simp: mgr_wf_def map_of_gput)

lemma mgr_wf_New [simp]: "mgr_wf (NewManager n)"
  by (simp add: mgr_wf_def NewManager_def DefaultMaxConcurrent_def)

lemma mgr_wf_reg [simp]: "mgr_wf (m\<lparr>mg_CancelReg := r\<rparr>) = mgr_wf m"
  by (simp add: mgr_wf_def)

lemma newTransfer_ok [simp]: "transfer_ok uid (newTransfer uid now p pn fp fn sz)"
  by (simp add: transfer_ok_def newTransfer_def)

lemma newTransfer_simps [simp]:
  "tr_ID (newTransfer uid now p pn fp fn sz) = uid"
  "tr_Status (newTransfer uid now p pn fp fn sz) = StatusPending"
  by (simp_all add: newTransfer_def)

lemma UpdateStatus_ok:
  assumes "mgr_wf m" and "Manager_UpdateStatus tid s e now m = Inr (t', m')"
  obtains t where "map_of (mg_transfers m) tid = Some t" "s = tr_Status t \<or> allowed_step (tr_Status t) s"
    "tr_Status t' = s" "transfer_ok tid t'" "m' = m\<lparr>mg_transfers := gput tid t' (mg_transfers m)\<rparr>"
proof -
  from assms(2) obtain t where t: "map_of (mg_transfers m) tid = Some t"
    by (auto simp: Manager_UpdateStatus_def split: option.splits)
  with mgr_wf_lookup [OF assms(1)] have "transfer_ok tid t" by blast
  with assms(2) t show ?thesis
    by (intro that [OF t]) (auto simp: Manager_UpdateStatus_def Let_def transfer_ok_def
        Transition_New split: if_splits)
qed

lemma Cancel_ok:
  assumes "mgr_wf m" and "Manager_Cancel tid now m = Inr (t', m', fx)"
  obtains t where "map_of (mg_transfers m) tid = Some t" "allowed_step (tr_Status t) StatusCancelled"
    "tr_Status t' = StatusCancelled" "transfer_ok tid t'"
    "m' = m\<lparr>mg_transfers := gput tid t' (mg_transfers m),
       mg_CancelReg := fst (Reg_Cancel tid (mg_CancelReg m))\<rparr>"
    "fx = fst (snd (Reg_Cancel tid (mg_CancelReg m)))"
proof -
  from assms(2) obtain t where t: "map_of (mg_transfers m) tid = Some t"
    by (auto simp: Manager_Cancel_def split: option.splits)
  with mgr_wf_lookup [OF assms(1)] have "transfer_ok tid t" by blast
  with assms(2) t show ?thesis
    by (intro that [OF t]) (auto simp: Manager_Cancel_def Let_def transfer_ok_def
        Transition_New split_def split: if_splits)
qed

lemma mgr_step_wf: "mgr_wf m \<Longrightarrow> mgr_wf (mgr_step x m)"
proof (cases x)
  case (OpUpdateStatus tid s e now)
  assume wf: "mgr_wf m"
  with OpUpdateStatus show ?thesis
    by (auto split: sum.split elim!: UpdateStatus_ok [OF wf] intro: mgr_wf_store [OF wf])
next
  case (OpCancel tid now)
  assume wf: "mgr_wf m"
  with OpCancel show ?thesis
    by (auto split: sum.split elim!: Cancel_ok [OF wf] intro: mgr_wf_store [OF wf])
next
  case (OpUpdateProgress tid n now)
  assume wf: "mgr_wf m"
  have "transfer_ok tid (t\<lparr>tr_SentBytes := n, tr_UpdatedAt := now\<rparr>)"
    if "map_of (mg_transfers m) tid = Some t" for t
    using mgr_wf_lookup [OF wf that] by (simp add: transfer_ok_def)
  with OpUpdateProgress wf show ?thesis
    by (auto simp: Manager_UpdateProgress_def Let_def intro: mgr_wf_store split: option.split)
next
  case (OpRemove tid)
  assume "mgr_wf m"
  with OpRemove show ?thesis
    by (auto simp: Manager_Remove_def mgr_wf_def map_of_gdel split: option.split)
qed (auto simp: Manager_Create_def Let_def intro: mgr_wf_store)

lemma mgr_run_wf: "mgr_wf m \<Longrightarrow> mgr_wf (mgr_run xs m)"
  by (induction xs arbitrary: m) (simp_all add: mgr_run_def mgr_step_wf)


text \<open>The manager is a slot table: \<open>Create\<close> is its admission.\<close>

definition admit_transfer ::
  "string \<times> int \<times> string \<times> string \<times> string \<times> string \<times> int \<Rightarrow> Manager \<Rightarrow> ManagerError + Manager" where
  "admit_transfer a m = (case a of (uid, now, p, pn, fp, fn, sz) \<Rightarrow>
    map_sum (\<lambda>e. e) snd (Manager_Create uid now p pn fp fn sz m))"

lemma Create_ok:
  assumes "Manager_Create uid now p pn fp fn sz m = Inr (t, m')"
  shows "t = newTransfer uid now p pn fp fn sz"
    "m' = m\<lparr>mg_transfers := gput uid t (mg_transfers m)\<rparr>"
    "int (Manager_ActiveCount m) < mg_maxActive m"
  using assms by (auto simp: Manager_Create_def Let_def ActiveCount_eq split: if_splits)

interpretation transfers: slot_table Manager_ActiveCount mg_maxActive admit_transfer
proof unfold_locales
  fix a :: "string \<times> int \<times> string \<times> string \<times> string \<times> string \<times> int" and m m'
  obtain uid now p pn fp fn sz where a: "a = (uid, now, p, pn, fp, fn, sz)" by (cases a) auto
  assume "admit_transfer a m = Inr m'"
  then obtain t where c: "Manager_Create uid now p pn fp fn sz m = Inr (t, m')"
    by (cases "Manager_Create uid now p pn fp fn sz m") (auto simp: admit_transfer_def a)
  show "int (Manager_ActiveCount m) < mg_maxActive m" by (rule Create_ok [OF c])
  show "Manager_ActiveCount m' \<le> Suc (Manager_ActiveCount m)"
    using Create_ok(2) [OF c] by (simp add: ActiveCount_eq gcount_gput_le)
  show "mg_maxActive m' = mg_maxActive m" using Create_ok(2) [OF c] by simp
qed

section \<open>Runs and the slot budget\<close>

text \<open>A resume is the step from failed or awaiting-resume back to connecting.\<close>

definition resumes :: "MgrOp \<Rightarrow> Manager \<Rightarrow> bool" where
  "resumes x m = (case x of
      OpUpdateStatus tid s e now \<Rightarrow> s = StatusConnecting \<and>
        (case map_of (mg_transfers m) tid of None \<Rightarrow> False | Some t \<Rightarrow> \<not> holds_slot t)
    | _ \<Rightarrow> False)"

fun no_resumes :: "MgrOp list \<Rightarrow> Manager \<Rightarrow> bool" where
  "no_resumes [] m = True"
| "no_resumes (x # xs) m = (\<not> resumes x m \<and> no_resumes xs (mgr_step x m))"

lemma step_maxActive [simp]: "mg_maxActive (mgr_step x m) = mg_maxActive m"
  by (cases x) (auto simp: Manager_Create_def Manager_UpdateStatus_def Manager_UpdateProgress_def
      Manager_Remove_def Manager_Cancel_def Let_def split_def split: option.splits sum.splits)

lemma allowed_step_slots:
  "allowed_step a b \<Longrightarrow> b \<in> {StatusPending, StatusConnecting, StatusTransferring} \<Longrightarrow>
    a \<in> {StatusPending, StatusConnecting, StatusTransferring} \<or> b = StatusConnecting"
  by (cases a) (auto simp: allowed_step_iff)

lemma step_no_resume_shrinks:
  assumes wf: "mgr_wf m" and nr: "\<not> resumes x m" and nc: "\<forall>a b c d e f g. x \<noteq> OpCreate a b c d e f g"
  shows "Manager_ActiveCount (mgr_step x m) \<le> Manager_ActiveCount m"
proof (cases x)
  case (OpUpdateStatus tid s e now)
  show ?thesis
  proof (cases "Manager_UpdateStatus tid s e now m")
    case (Inr r)
    obtain t' m' where r: "r = (t', m')" by (cases r)
    from UpdateStatus_ok [OF wf Inr [unfolded r]] obtain t where
      t: "map_of (mg_transfers m) tid = Some t" and st: "s = tr_Status t \<or> allowed_step (tr_Status t) s"
      and t': "tr_Status t' = s" and m': "m' = m\<lparr>mg_transfers := gput tid t' (mg_transfers m)\<rparr>" .
    have "holds_slot t' \<Longrightarrow> holds_slot t"
      using st t' nr t allowed_step_slots [of "tr_Status t" s]
      by (auto simp: resumes_def OpUpdateStatus holds_slot_def)
    then have "gcount holds_slot (gput tid t' (mg_transfers m)) \<le> gcount holds_slot (mg_transfers m)"
      using gcount_gput_same [OF t, of holds_slot t'] gcount_gput_drop [OF t, of holds_slot t']
      by (cases "holds_slot t'") auto
    then show ?thesis by (simp add: OpUpdateStatus Inr r m' ActiveCount_eq)
  qed (simp add: OpUpdateStatus)
next
  case (OpCancel tid now)
  show ?thesis
  proof (cases "Manager_Cancel tid now m")
    case (Inr r)
    obtain t' m' fx where r: "r = (t', m', fx)" by (cases r) auto
    from Cancel_ok [OF wf Inr [unfolded r]] obtain t where
      t: "map_of (mg_transfers m) tid = Some t" and t': "tr_Status t' = StatusCancelled"
      and m': "mg_transfers m' = gput tid t' (mg_transfers m)" by (metis Manager.select_convs(1)
        Manager.surjective Manager.update_convs(1,3))
    from t' have "\<not> holds_slot t'" by (simp add: holds_slot_def)
    with gcount_gput_drop [OF t, of holds_slot t'] show ?thesis
      by (simp add: OpCancel Inr r m' ActiveCount_eq)
  qed (simp add: OpCancel)
next
  case (OpUpdateProgress tid n now)
  have "gcount holds_slot (gput tid (t\<lparr>tr_SentBytes := n, tr_UpdatedAt := now\<rparr>) (mg_transfers m)) =
      gcount holds_slot (mg_transfers m)" if "map_of (mg_transfers m) tid = Some t" for t
    by (rule gcount_gput_same [OF that]) (simp add: holds_slot_def)
  then show ?thesis
    by (auto simp: OpUpdateProgress Manager_UpdateProgress_def Let_def ActiveCount_eq
        split: option.split)
next
  case (OpRemove tid)
  then show ?thesis
    by (auto simp: Manager_Remove_def ActiveCount_eq gcount_gdel_le split: option.split)
qed (use nc in \<open>auto simp: ActiveCount_eq\<close>)

lemma step_within:
  assumes "mgr_wf m" and "\<not> resumes x m" and "transfers.within m"
  shows "transfers.within (mgr_step x m)"
proof (cases "\<exists>a b c d e f g. x = OpCreate a b c d e f g")
  case True
  then obtain a b c d e f g where x: "x = OpCreate a b c d e f g" by blast
  show ?thesis
  proof (cases "Manager_Create a b c d e f g m")
    case (Inr r)
    then have "admit_transfer (a, b, c, d, e, f, g) m = Inr (snd r)"
      by (simp add: admit_transfer_def)
    with transfers.within_admit show ?thesis by (fastforce simp: x Inr split_def)
  qed (use assms in \<open>simp add: x\<close>)
next
  case False
  with step_no_resume_shrinks [OF assms(1,2)] assms(3) show ?thesis
    by (auto intro: transfers.within_shrink)
qed

lemma run_within:
  "mgr_wf m \<Longrightarrow> no_resumes xs m \<Longrightarrow> transfers.within m \<Longrightarrow> transfers.within (mgr_run xs m)"
  by (induction xs arbitrary: m) (simp_all add: mgr_run_def mgr_step_wf step_within)

lemma run_maxActive [simp]: "mg_maxActive (mgr_run xs m) = mg_maxActive m"
  by (induction xs arbitrary: m) (simp_all add: mgr_run_def)

text \<open>An operation that is not a creation of \<open>tid\<close> leaves a finished transfer's status alone.\<close>

fun creates :: "MgrOp \<Rightarrow> string option" where
  "creates (OpCreate uid now p pn fp fn sz) = Some uid"
| "creates _ = None"

lemma step_other_entry:
  assumes wf: "mgr_wf m" and t: "map_of (mg_transfers m) tid = Some t"
    and fin: "IsTerminal (NewStateMachine (tr_Status t))" and cr: "creates x \<noteq> Some tid"
  shows "map_of (mg_transfers (mgr_step x m)) tid = None \<or>
    (\<exists>t'. map_of (mg_transfers (mgr_step x m)) tid = Some t' \<and> tr_Status t' = tr_Status t)"
proof (cases x)
  case (OpUpdateStatus i s e now)
  show ?thesis
  proof (cases "Manager_UpdateStatus i s e now m")
    case (Inr r)
    obtain t' m' where r: "r = (t', m')" by (cases r)
    from UpdateStatus_ok [OF wf Inr [unfolded r]] obtain u where
      "map_of (mg_transfers m) i = Some u" "s = tr_Status u \<or> allowed_step (tr_Status u) s"
      "tr_Status t' = s" "m' = m\<lparr>mg_transfers := gput i t' (mg_transfers m)\<rparr>" .
    with t fin show ?thesis
      by (auto simp: OpUpdateStatus Inr r map_of_gput tsm.final_stuck)
  qed (use t in \<open>simp add: OpUpdateStatus\<close>)
next
  case (OpCancel i now)
  show ?thesis
  proof (cases "Manager_Cancel i now m")
    case (Inr r)
    obtain t' m' fx where r: "r = (t', m', fx)" by (cases r) auto
    from Cancel_ok [OF wf Inr [unfolded r]] obtain u where
      "map_of (mg_transfers m) i = Some u" "allowed_step (tr_Status u) StatusCancelled"
      "m' = m\<lparr>mg_transfers := gput i t' (mg_transfers m),
         mg_CancelReg := fst (Reg_Cancel i (mg_CancelReg m))\<rparr>" .
    with t fin show ?thesis
      by (auto simp: OpCancel Inr r map_of_gput tsm.final_stuck)
  qed (use t in \<open>simp add: OpCancel\<close>)
qed (use t cr in \<open>auto simp: Manager_Create_def Manager_UpdateProgress_def Manager_Remove_def Let_def
      map_of_gput map_of_gdel split: option.splits\<close>)

lemma step_absent_entry:
  assumes t: "map_of (mg_transfers m) tid = None" and cr: "creates x \<noteq> Some tid"
  shows "map_of (mg_transfers (mgr_step x m)) tid = None"
  using t cr
  by (cases x) (auto simp: Manager_Create_def Manager_UpdateProgress_def Manager_Remove_def Let_def
      Manager_UpdateStatus_def Manager_Cancel_def map_of_gput map_of_gdel split_def
      split: option.splits sum.splits)

lemma mgr_run_Cons: "mgr_run (x # xs) m = mgr_run xs (mgr_step x m)"
  by (simp add: mgr_run_def)

lemma run_absent_entry:
  "map_of (mg_transfers m) tid = None \<Longrightarrow> Some tid \<notin> creates ` set xs \<Longrightarrow>
    map_of (mg_transfers (mgr_run xs m)) tid = None"
proof (induction xs arbitrary: m)
  case (Cons x xs)
  from Cons.prems(2) have "creates x \<noteq> Some tid" "Some tid \<notin> creates ` set xs" by auto
  with Cons.IH step_absent_entry [OF Cons.prems(1)] show ?case by (simp add: mgr_run_Cons)
qed (simp add: mgr_run_def)

lemma run_finished_entry:
  assumes "mgr_wf m" and "map_of (mg_transfers m) tid = Some t"
    and "IsTerminal (NewStateMachine (tr_Status t))" and "Some tid \<notin> creates ` set xs"
  shows "map_of (mg_transfers (mgr_run xs m)) tid = None \<or>
    (\<exists>t'. map_of (mg_transfers (mgr_run xs m)) tid = Some t' \<and> tr_Status t' = tr_Status t)"
  using assms
proof (induction xs arbitrary: m t)
  case (Cons x xs)
  note wf = mgr_step_wf [OF Cons.prems(1), of x]
  from Cons.prems(4) have cr: "creates x \<noteq> Some tid" "Some tid \<notin> creates ` set xs" by auto
  show ?case
  proof (cases "map_of (mg_transfers (mgr_step x m)) tid")
    case None
    from run_absent_entry [OF this cr(2)] show ?thesis by (simp add: mgr_run_Cons)
  next
    case (Some t')
    with step_other_entry [OF Cons.prems(1-3) cr(1)] have "tr_Status t' = tr_Status t" by auto
    with Cons.IH [OF wf Some] Cons.prems(3) cr(2) show ?thesis by (simp add: mgr_run_Cons)
  qed
qed (auto simp: mgr_run_def)

text \<open>Unfolding an operation on a concrete manager.\<close>

lemmas mgr_eval = mgr_run_def Manager_Create_def Manager_UpdateStatus_def Manager_Cancel_def
  NewManager_def DefaultMaxConcurrent_def newTransfer_def NewCancelRegistry_def Let_def
  Transition_New allowed_step_iff Reg_Cancel_def Reg_Register_def

section \<open>Properties\<close>

text \<open>after any sequence of operations on a fresh manager, every transfer is stored under its
  own id, its published status equals the state of its state machine, that machine runs on the
  default table, and the ids are distinct.\<close>

theorem manager_invariant:
  assumes "map_of (mg_transfers (mgr_run xs (NewManager n))) tid = Some t"
  shows "tr_ID t = tid \<and> tr_Status t = State (tr_sm t) \<and> sm_table (tr_sm t) = defaultTransitions \<and>
    distinct (map fst (mg_transfers (mgr_run xs (NewManager n))))"
proof -
  have "mgr_wf (mgr_run xs (NewManager n))" by (simp add: mgr_run_wf)
  with assms show ?thesis
    by (auto simp: mgr_wf_def gwf_def transfer_ok_def State_def NewStateMachine_def)
qed

theorem manager_invariant_witness:
  "\<exists>t. map_of (mg_transfers (mgr_run [OpCreate ''id-1'' 7 ''p'' ''peer'' ''/tmp/a'' ''a'' 3,
      OpUpdateStatus ''id-1'' StatusConnecting '''' 8] (NewManager 0))) ''id-1'' = Some t \<and>
    tr_ID t = ''id-1'' \<and> tr_Status t = State (tr_sm t)"
proof -
  let ?m = "mgr_run [OpCreate ''id-1'' 7 ''p'' ''peer'' ''/tmp/a'' ''a'' 3,
      OpUpdateStatus ''id-1'' StatusConnecting '''' 8] (NewManager 0)"
  have "map_of (mg_transfers ?m) ''id-1'' \<noteq> None"
    by (simp add: mgr_eval)
  then obtain t where t: "map_of (mg_transfers ?m) ''id-1'' = Some t" by blast
  with manager_invariant [OF t] show ?thesis by blast
qed

text \<open>\<open>Create\<close> refuses with \<open>ErrLimitReached\<close> exactly when \<open>ActiveCount\<close> has reached the
  limit; otherwise the new transfer is pending, is found by \<open>Get\<close>, takes exactly one slot of the
  budget, and the budget is still respected.\<close>

theorem Create_slot_accounting:
  assumes "map_of (mg_transfers m) uid = None"
  shows "case Manager_Create uid now p pn fp fn sz m of
      Inl e \<Rightarrow> e = ErrLimitReached \<and> mg_maxActive m \<le> int (Manager_ActiveCount m)
    | Inr (t, m') \<Rightarrow> int (Manager_ActiveCount m) < mg_maxActive m \<and>
        Manager_ActiveCount m' = Suc (Manager_ActiveCount m) \<and>
        int (Manager_ActiveCount m') \<le> mg_maxActive m' \<and>
        Manager_Get uid m' = Inr t \<and> tr_Status t = StatusPending"
proof (cases "Manager_Create uid now p pn fp fn sz m")
  case (Inl e)
  then show ?thesis by (auto simp: Manager_Create_def Let_def ActiveCount_eq split: if_splits)
next
  case (Inr r)
  obtain t m' where r: "r = (t, m')" by (cases r)
  note c = Create_ok [OF Inr [unfolded r]]
  have "holds_slot t" by (simp add: c(1) holds_slot_def)
  with assms have "Manager_ActiveCount m' = Suc (Manager_ActiveCount m)"
    by (simp add: c(2) ActiveCount_eq gcount_gput_new)
  with c show ?thesis by (simp add: Inr r Manager_Get_def map_of_gput)
qed

theorem Create_slot_accounting_witness:
  "case Manager_Create ''id-1'' 7 ''p'' ''peer'' ''/tmp/a'' ''a'' 3 (NewManager 1) of
      Inl e \<Rightarrow> False
    | Inr (t, m') \<Rightarrow> Manager_ActiveCount m' = 1 \<and> Manager_Get ''id-1'' m' = Inr t"
proof -
  have "map_of (mg_transfers (NewManager 1)) ''id-1'' = None" by (simp add: NewManager_def)
  from Create_slot_accounting [OF this, of 7 "''p''" "''peer''" "''/tmp/a''" "''a''" 3]
  show ?thesis
    by (simp add: mgr_eval holds_slot_def Manager_ActiveCount_def Manager_Get_def)
qed

text \<open>C9: as long as no operation resumes a failed or paused transfer, the number of transfers that
  occupy a slot never exceeds the limit, whatever the sequence of operations.\<close>

theorem active_within_limit:
  assumes "no_resumes xs (NewManager n)"
  shows "int (Manager_ActiveCount (mgr_run xs (NewManager n))) \<le> mg_maxActive (NewManager n)"
proof -
  have "transfers.within (NewManager n)"
    by (simp add: transfers.within_def NewManager_def Manager_ActiveCount_def
        DefaultMaxConcurrent_def)
  with assms have "transfers.within (mgr_run xs (NewManager n))" by (simp add: run_within)
  then show ?thesis by (simp add: transfers.within_def)
qed

theorem active_within_limit_witness:
  "int (Manager_ActiveCount (mgr_run [OpCreate ''a'' 7 ''p'' ''peer'' ''/a'' ''a'' 3,
      OpCreate ''b'' 8 ''p'' ''peer'' ''/b'' ''b'' 3] (NewManager 1))) \<le> 1"
  using active_within_limit [of "[OpCreate ''a'' 7 ''p'' ''peer'' ''/a'' ''a'' 3,
      OpCreate ''b'' 8 ''p'' ''peer'' ''/b'' ''b'' 3]" 1]
  by (simp add: resumes_def NewManager_def)

text \<open>the retry edge bypasses the budget: with a limit of one, a failed transfer that is put
  back to connecting while another one is pending leaves two transfers in occupied slots.\<close>

theorem retry_bypasses_limit:
  "mg_maxActive (NewManager 1) = 1 \<and>
   Manager_ActiveCount (mgr_run
     [OpCreate ''a'' 1 ''p'' ''peer'' ''/a'' ''a'' 3,
      OpUpdateStatus ''a'' StatusFailed ''lost'' 2,
      OpCreate ''b'' 3 ''p'' ''peer'' ''/b'' ''b'' 3,
      OpUpdateStatus ''a'' StatusConnecting '''' 4] (NewManager 1)) = 2"
  by (simp add: mgr_eval holds_slot_def Manager_ActiveCount_def)

text \<open>a completed or cancelled transfer keeps its status through every later operation on the
  manager (it can only be removed), as long as its id is not handed out again.\<close>

theorem finished_transfer_frozen:
  assumes "mgr_wf m" and "map_of (mg_transfers m) tid = Some t"
    and "IsTerminal (NewStateMachine (tr_Status t))" and "Some tid \<notin> creates ` set xs"
  shows "map_of (mg_transfers (mgr_run xs m)) tid = None \<or>
    (\<exists>t'. map_of (mg_transfers (mgr_run xs m)) tid = Some t' \<and> tr_Status t' = tr_Status t)"
  using assms by (rule run_finished_entry)

theorem finished_transfer_frozen_witness:
  "let m = mgr_run [OpCreate ''a'' 1 ''p'' ''peer'' ''/a'' ''a'' 3, OpCancel ''a'' 2] (NewManager 1)
   in map_of (mg_transfers (mgr_run [OpUpdateStatus ''a'' StatusConnecting '''' 3] m)) ''a'' = None \<or>
    (\<exists>t'. map_of (mg_transfers (mgr_run [OpUpdateStatus ''a'' StatusConnecting '''' 3] m)) ''a'' =
      Some t' \<and> tr_Status t' = StatusCancelled)"
proof -
  define m where "m = mgr_run [OpCreate ''a'' 1 ''p'' ''peer'' ''/a'' ''a'' 3, OpCancel ''a'' 2]
    (NewManager 1)"
  have wf: "mgr_wf m" unfolding m_def by (rule mgr_run_wf) simp
  obtain t where t: "map_of (mg_transfers m) ''a'' = Some t" "tr_Status t = StatusCancelled"
    by (simp add: m_def mgr_eval)
  have fin: "IsTerminal (NewStateMachine (tr_Status t))" by (simp add: t IsTerminal_New)
  have "Some ''a'' \<notin> creates ` set [OpUpdateStatus ''a'' StatusConnecting '''' 3]" by simp
  from finished_transfer_frozen [OF wf t(1) fin this] show ?thesis by (simp add: t m_def Let_def)
qed

text \<open>cancelling a registered transfer that has not finished sets it to cancelled, calls its
  context's cancel function and then its cleanup, each once, and unregisters it; a second cancel is
  refused by the state machine and calls nothing.\<close>

theorem Cancel_effects:
  assumes "mgr_wf m" and "map_of (mg_transfers m) tid = Some t"
    and "\<not> IsTerminal (NewStateMachine (tr_Status t))" and "tr_Status t \<noteq> StatusFailed"
    and "map_of (mg_CancelReg m) tid =
      Some \<lparr>ce_cancel = Some c, ce_cleanup = Some u, ce_cleanupRan = False\<rparr>"
  shows "\<exists>t' m'. Manager_Cancel tid now m = Inr (t', m', [CallCancel c, CallCleanup u]) \<and>
    tr_Status t' = StatusCancelled \<and> \<not> Reg_IsRegistered tid (mg_CancelReg m') \<and>
    Manager_Cancel tid later m' =
      Inl (ErrTransition (ErrInvalidTransition StatusCancelled StatusCancelled))"
proof -
  have sm: "tr_sm t = NewStateMachine (tr_Status t)"
    using mgr_wf_lookup [OF assms(1,2)] by (simp add: transfer_ok_def)
  have "allowed_step (tr_Status t) StatusCancelled"
    using assms(3,4) by (cases "tr_Status t") (auto simp: IsTerminal_New allowed_step_iff)
  with assms(2,5) sm show ?thesis
    by (auto simp: Manager_Cancel_def Transition_New Reg_Cancel_def callCancel_def runCleanup_def
        Let_def map_of_gput map_of_gdel Reg_IsRegistered_def tsm.step_irrefl)
qed

theorem Cancel_effects_witness:
  "\<exists>m t' m'. Manager_Cancel ''a'' 5 m = Inr (t', m', [CallCancel 1, CallCleanup 2]) \<and>
    tr_Status t' = StatusCancelled"
proof -
  define m where "m = mgr_run [OpCreate ''a'' 1 ''p'' ''peer'' ''/a'' ''a'' 3,
    OpRegister ''a'' (Some 1) (Some 2)] (NewManager 1)"
  have wf: "mgr_wf m" unfolding m_def by (rule mgr_run_wf) simp
  obtain t where t: "map_of (mg_transfers m) ''a'' = Some t" "tr_Status t = StatusPending"
    and r: "map_of (mg_CancelReg m) ''a'' =
      Some \<lparr>ce_cancel = Some 1, ce_cleanup = Some 2, ce_cleanupRan = False\<rparr>"
    by (simp add: m_def mgr_eval)
  have "\<not> IsTerminal (NewStateMachine (tr_Status t))" "tr_Status t \<noteq> StatusFailed"
    by (simp_all add: t IsTerminal_New)
  from Cancel_effects [OF wf t(1) this r, of 5] show ?thesis by blast
qed

end
