(* ===== verification/Fifo.thy ===== *)
theory Fifo
  imports Prelude
begin

text \<open>
  The contract of a first-in-first-out buffer with several lanes, shared by the per-device task
  queue (\<open>core/transfer/queue.go\<close>, one lane per direction) and by a stream's inbound frame
  channel (\<open>core/transport/stream.go\<close>, one lane). An element belongs to the lane \<open>kind x\<close>;
  \<open>deq\<close> takes an argument (the state that decides which lane may move) and removes the front
  of the lane of the element it returns; \<open>upd\<close> stands for every other operation, which touches
  no lane.
\<close>

datatype ('a, 'c, 'u) fifo_op = Enq 'a | Deq 'c | Upd 'u

fun fifo_run ::
  "('a \<Rightarrow> 'q \<Rightarrow> 'q) \<Rightarrow> ('c \<Rightarrow> 'q \<Rightarrow> ('a \<times> 'q) option) \<Rightarrow> ('u \<Rightarrow> 'q \<Rightarrow> 'q)
    \<Rightarrow> ('a, 'c, 'u) fifo_op list \<Rightarrow> 'q \<Rightarrow> 'a list \<times> 'q" where
  "fifo_run enq deq upd [] q = ([], q)"
| "fifo_run enq deq upd (Enq x # xs) q = fifo_run enq deq upd xs (enq x q)"
| "fifo_run enq deq upd (Upd u # xs) q = fifo_run enq deq upd xs (upd u q)"
| "fifo_run enq deq upd (Deq c # xs) q = (case deq c q of
      None \<Rightarrow> fifo_run enq deq upd xs q
    | Some (x, q') \<Rightarrow> (let (ys, q'') = fifo_run enq deq upd xs q' in (x # ys, q'')))"

fun fifo_inputs :: "('a, 'c, 'u) fifo_op list \<Rightarrow> 'a list" where
  "fifo_inputs [] = []"
| "fifo_inputs (Enq x # xs) = x # fifo_inputs xs"
| "fifo_inputs (Upd u # xs) = fifo_inputs xs"
| "fifo_inputs (Deq c # xs) = fifo_inputs xs"

locale fifo =
  fixes view :: "'d \<Rightarrow> 'q \<Rightarrow> 'a list"
    and kind :: "'a \<Rightarrow> 'd"
    and enq :: "'a \<Rightarrow> 'q \<Rightarrow> 'q"
    and deq :: "'c \<Rightarrow> 'q \<Rightarrow> ('a \<times> 'q) option"
    and upd :: "'u \<Rightarrow> 'q \<Rightarrow> 'q"
  assumes view_enq: "view d (enq x q) = (if d = kind x then view d q @ [x] else view d q)"
    and view_deq: "deq c q = Some (x, q') \<Longrightarrow>
      view d q = (if d = kind x then x # view d q' else view d q')"
    and view_upd: "view d (upd u q) = view d q"
begin

lemma run_fifo:
  "fifo_run enq deq upd xs q = (ys, q') \<Longrightarrow>
    filter (\<lambda>x. kind x = d) ys @ view d q' =
      view d q @ filter (\<lambda>x. kind x = d) (fifo_inputs xs)"
proof (induction xs arbitrary: q ys q')
  case (Cons op xs)
  show ?case
  proof (cases op)
    case (Enq x)
    with Cons.IH [of "enq x q" ys q'] Cons.prems show ?thesis by (simp add: view_enq)
  next
    case (Deq c)
    show ?thesis
    proof (cases "deq c q")
      case None
      with Deq Cons.IH [of q ys q'] Cons.prems show ?thesis by simp
    next
      case (Some r)
      obtain x q1 where r: "r = (x, q1)" by (cases r)
      obtain zs q2 where z: "fifo_run enq deq upd xs q1 = (zs, q2)" by fastforce
      with Deq Some r Cons.prems have "ys = x # zs" "q' = q2" by simp_all
      with Cons.IH [OF z] view_deq [OF Some [unfolded r], of d] Deq show ?thesis by auto
    qed
  next
    case (Upd u)
    with Cons.IH [of "upd u q" ys q'] Cons.prems show ?thesis by (simp add: view_upd)
  qed
qed simp

end

end
