(* ===== verification/TransferQueue.thy ===== *)
theory TransferQueue
  imports Fifo
begin

text \<open>
  The per-device task queue of \<open>core/transfer/queue.go\<close>. A task's \<open>Execute\<close> closure is a
  numbered handle (\<open>None\<close> is nil). The Go map of devices is ranged over in an order the language
  does not fix: \<open>popRunnableLocked\<close> takes the order as an argument and the step relation allows
  every one. The goroutines the queue has started are part of the modelled state: \<open>q_running\<close>
  are the tasks between \<open>runTask\<close> and \<open>releaseSlot\<close>, \<open>q_finishing\<close> those between
  \<open>releaseSlot\<close> and \<open>wg.Done\<close> (the two deferred calls), and \<open>q_toRelease\<close> is the
  \<open>pendingCount\<close> of a \<open>Close\<close> that has left its critical section and not yet adjusted the
  wait group.
\<close>

section \<open>Tasks and device queues\<close>

datatype Direction = DirectionUpload | DirectionDownload

fun Direction_String :: "Direction \<Rightarrow> string" where
  "Direction_String d = (if d = DirectionUpload then ''upload'' else ''download'')"

record Task =
  tk_ID :: string
  tk_PeerID :: string
  tk_Direction :: Direction
  tk_Execute :: "nat option"

record deviceQueue =
  dq_pending :: "Task list"
  dq_activeUp :: int
  dq_activeDown :: int

definition emptyDeviceQueue :: deviceQueue where
  "emptyDeviceQueue = \<lparr>dq_pending = [], dq_activeUp = 0, dq_activeDown = 0\<rparr>"

definition activeFor :: "deviceQueue \<Rightarrow> Direction \<Rightarrow> int" where
  "activeFor dq d = (if d = DirectionUpload then dq_activeUp dq else dq_activeDown dq)"

definition incActive :: "Direction \<Rightarrow> deviceQueue \<Rightarrow> deviceQueue" where
  "incActive d dq = (if d = DirectionUpload then dq\<lparr>dq_activeUp := dq_activeUp dq + 1\<rparr>
    else dq\<lparr>dq_activeDown := dq_activeDown dq + 1\<rparr>)"

definition decActive :: "Direction \<Rightarrow> deviceQueue \<Rightarrow> deviceQueue" where
  "decActive d dq = (if d = DirectionUpload then dq\<lparr>dq_activeUp := dq_activeUp dq - 1\<rparr>
    else dq\<lparr>dq_activeDown := dq_activeDown dq - 1\<rparr>)"

section \<open>The queue\<close>

record Queue =
  q_maxUp :: int
  q_maxDown :: int
  q_devices :: "(string, deviceQueue) gomap"
  q_closed :: bool
  q_cancelled :: bool
  q_wg :: int
  q_running :: "Task list"
  q_finishing :: "Task list"
  q_toRelease :: int

datatype QueueError = ErrNilTask | ErrQueueClosed

definition DefaultMaxConcurrentUp :: int where
  "DefaultMaxConcurrentUp = 4"

definition DefaultMaxConcurrentDown :: int where
  "DefaultMaxConcurrentDown = 4"

definition NewQueue :: "int \<Rightarrow> int \<Rightarrow> Queue" where
  "NewQueue maxUp maxDown =
    \<lparr>q_maxUp = (if maxUp \<le> 0 then DefaultMaxConcurrentUp else maxUp),
     q_maxDown = (if maxDown \<le> 0 then DefaultMaxConcurrentDown else maxDown),
     q_devices = [], q_closed = False, q_cancelled = False, q_wg = 0,
     q_running = [], q_finishing = [], q_toRelease = 0\<rparr>"

definition capFor :: "int \<times> int \<Rightarrow> Direction \<Rightarrow> int" where
  "capFor caps d = (if d = DirectionDownload then snd caps else fst caps)"

definition caps :: "Queue \<Rightarrow> int \<times> int" where
  "caps q = (q_maxUp q, q_maxDown q)"

definition can_run :: "int \<times> int \<Rightarrow> deviceQueue \<Rightarrow> Task \<Rightarrow> bool" where
  "can_run cs dq t \<longleftrightarrow> activeFor dq (tk_Direction t) < capFor cs (tk_Direction t)"

definition runnableInLocked :: "Queue \<Rightarrow> deviceQueue \<Rightarrow> Task option" where
  "runnableInLocked q dq = find (can_run (caps q) dq) (dq_pending dq)"

definition hasRunnableLocked :: "Queue \<Rightarrow> bool" where
  "hasRunnableLocked q \<longleftrightarrow> list_ex (\<lambda>kv. runnableInLocked q (snd kv) \<noteq> None) (q_devices q)"

definition pushTask :: "Task \<Rightarrow> deviceQueue \<Rightarrow> deviceQueue" where
  "pushTask t dq = dq\<lparr>dq_pending := dq_pending dq @ [t]\<rparr>"

definition Enqueue :: "Task option \<Rightarrow> Queue \<Rightarrow> QueueError option \<times> Queue" where
  "Enqueue ot q = (case ot of
      None \<Rightarrow> (Some ErrNilTask, q)
    | Some t \<Rightarrow>
        if tk_Execute t = None then (Some ErrNilTask, q)
        else if q_closed q then (Some ErrQueueClosed, q)
        else let dq = (case map_of (q_devices q) (tk_PeerID t) of
                   None \<Rightarrow> emptyDeviceQueue | Some dq \<Rightarrow> dq)
          in (None, q\<lparr>q_devices := gput (tk_PeerID t) (pushTask t dq) (q_devices q),
                      q_wg := q_wg q + 1\<rparr>))"

text \<open>The inner loop of \<open>popRunnableLocked\<close> on one device: the first pending task with a free
  slot leaves the list and takes the slot.\<close>

fun split_first :: "('a \<Rightarrow> bool) \<Rightarrow> 'a list \<Rightarrow> ('a \<times> 'a list) option" where
  "split_first P [] = None"
| "split_first P (x # xs) = (if P x then Some (x, xs)
    else map_option (\<lambda>(y, ys). (y, x # ys)) (split_first P xs))"

definition popFrom :: "int \<times> int \<Rightarrow> deviceQueue \<Rightarrow> (Task \<times> deviceQueue) option" where
  "popFrom cs dq = map_option
    (\<lambda>(t, rest). (t, incActive (tk_Direction t) (dq\<lparr>dq_pending := rest\<rparr>)))
    (split_first (can_run cs dq) (dq_pending dq))"

text \<open>The outer loop over the devices, in the order \<open>ks\<close> of this range; the popped task is handed
  to \<open>runTask\<close>, which starts its goroutine.\<close>

fun popRunnableLocked :: "string list \<Rightarrow> Queue \<Rightarrow> (Task \<times> Queue) option" where
  "popRunnableLocked [] q = None"
| "popRunnableLocked (k # ks) q = (case map_of (q_devices q) k of
      None \<Rightarrow> popRunnableLocked ks q
    | Some dq \<Rightarrow>
        (case popFrom (caps q) dq of
           None \<Rightarrow> popRunnableLocked ks q
         | Some (t, dq') \<Rightarrow> Some (t, q\<lparr>q_devices := gput k dq' (q_devices q)\<rparr>)))"

definition runTask :: "Task \<Rightarrow> Queue \<Rightarrow> Queue" where
  "runTask t q = q\<lparr>q_running := t # q_running q\<rparr>"

text \<open>One turn of \<open>dispatchLoop\<close>: it waits (\<open>None\<close>) while the queue is open and nothing is
  runnable, and returns when the queue is closed.\<close>

datatype LoopTurn = LoopWait | LoopExit | LoopRun Task Queue

definition dispatchTurn :: "string list \<Rightarrow> Queue \<Rightarrow> LoopTurn" where
  "dispatchTurn ks q =
    (if q_closed q then LoopExit
     else if \<not> hasRunnableLocked q then LoopWait
     else (case popRunnableLocked ks q of
         None \<Rightarrow> LoopWait
       | Some (t, q') \<Rightarrow> LoopRun t (runTask t q')))"

definition releaseSlot :: "Task \<Rightarrow> Queue \<Rightarrow> Queue" where
  "releaseSlot t q = (case map_of (q_devices q) (tk_PeerID t) of
      None \<Rightarrow> q
    | Some dq \<Rightarrow>
        let dq' = decActive (tk_Direction t) dq in
        q\<lparr>q_devices :=
          (if dq_pending dq' = [] \<and> dq_activeUp dq' = 0 \<and> dq_activeDown dq' = 0
           then gdel (tk_PeerID t) (q_devices q)
           else gput (tk_PeerID t) dq' (q_devices q))\<rparr>)"

definition PendingFor :: "string \<Rightarrow> Queue \<Rightarrow> nat" where
  "PendingFor peerID q = (case map_of (q_devices q) peerID of
      None \<Rightarrow> 0 | Some dq \<Rightarrow> length (dq_pending dq))"

definition ActiveFor :: "string \<Rightarrow> Queue \<Rightarrow> int" where
  "ActiveFor peerID q = (case map_of (q_devices q) peerID of
      None \<Rightarrow> 0 | Some dq \<Rightarrow> dq_activeUp dq + dq_activeDown dq)"

definition DeviceCount :: "Queue \<Rightarrow> nat" where
  "DeviceCount q = length (q_devices q)"

definition pendingTotal :: "Queue \<Rightarrow> nat" where
  "pendingTotal q = (\<Sum>kv\<leftarrow>q_devices q. length (dq_pending (snd kv)))"

text \<open>\<open>Close\<close> in its two parts: the critical section, and what follows the unlock.\<close>

definition CloseLocked :: "Queue \<Rightarrow> Queue" where
  "CloseLocked q = (if q_closed q then q
    else q\<lparr>q_closed := True,
           q_toRelease := q_toRelease q + int (pendingTotal q),
           q_devices := map (\<lambda>(k, dq). (k, dq\<lparr>dq_pending := []\<rparr>)) (q_devices q)\<rparr>)"

definition CloseUnlocked :: "Queue \<Rightarrow> Queue" where
  "CloseUnlocked q =
    q\<lparr>q_cancelled := True, q_wg := q_wg q - q_toRelease q, q_toRelease := 0\<rparr>"

text \<open>\<open>Wait\<close> returns when the wait group's counter is zero.\<close>

definition WaitReturns :: "Queue \<Rightarrow> bool" where
  "WaitReturns q \<longleftrightarrow> q_wg q = 0"

section \<open>The step relation\<close>

inductive queue_step :: "Queue \<Rightarrow> Queue \<Rightarrow> bool" where
  enqueue: "queue_step q (snd (Enqueue ot q))"
| dispatch: "mset ks = mset (map fst (q_devices q)) \<Longrightarrow> dispatchTurn ks q = LoopRun t q' \<Longrightarrow>
    queue_step q q'"
| release: "t \<in> set (q_running q) \<Longrightarrow>
    queue_step q ((releaseSlot t q)\<lparr>q_running := remove1 t (q_running q),
      q_finishing := t # q_finishing q\<rparr>)"
| wg_done: "t \<in> set (q_finishing q) \<Longrightarrow>
    queue_step q (q\<lparr>q_finishing := remove1 t (q_finishing q), q_wg := q_wg q - 1\<rparr>)"
| close: "queue_step q (CloseLocked q)"
| close_rest: "q_closed q \<Longrightarrow> queue_step q (CloseUnlocked q)"

inductive_cases queue_stepE: "queue_step q q'"

inductive queue_reach :: "int \<Rightarrow> int \<Rightarrow> Queue \<Rightarrow> bool" for up down where
  init: "queue_reach up down (NewQueue up down)"
| step: "queue_reach up down q \<Longrightarrow> queue_step q q' \<Longrightarrow> queue_reach up down q'"

section \<open>The invariant\<close>

definition running_of :: "Queue \<Rightarrow> string \<Rightarrow> Direction \<Rightarrow> nat" where
  "running_of q p d =
    length (filter (\<lambda>t. tk_PeerID t = p \<and> tk_Direction t = d) (q_running q))"

definition dev_ok :: "Queue \<Rightarrow> string \<Rightarrow> deviceQueue \<Rightarrow> bool" where
  "dev_ok q p dq \<longleftrightarrow>
    (\<forall>d. activeFor dq d = int (running_of q p d)) \<and>
    (\<forall>d. int (running_of q p d) \<le> capFor (caps q) d) \<and>
    (\<forall>t \<in> set (dq_pending dq). tk_PeerID t = p \<and> tk_Execute t \<noteq> None)"

definition queue_inv :: "Queue \<Rightarrow> bool" where
  "queue_inv q \<longleftrightarrow> gwf (q_devices q) \<and>
    (\<forall>p dq. map_of (q_devices q) p = Some dq \<longrightarrow> dev_ok q p dq) \<and>
    (\<forall>t \<in> set (q_running q). map_of (q_devices q) (tk_PeerID t) \<noteq> None) \<and>
    (\<not> q_closed q \<longrightarrow> q_toRelease q = 0 \<and>
      (\<forall>p dq. map_of (q_devices q) p = Some dq \<longrightarrow> dq_pending dq \<noteq> [] \<or> (\<exists>d. activeFor dq d \<noteq> 0))) \<and>
    (q_closed q \<longrightarrow> pendingTotal q = 0) \<and>
    0 \<le> q_toRelease q \<and>
    q_wg q = int (pendingTotal q) + int (length (q_running q)) + int (length (q_finishing q))
      + q_toRelease q"

section \<open>Counting pending tasks\<close>

lemma capFor_pos: "0 < fst cs \<Longrightarrow> 0 < snd cs \<Longrightarrow> 0 < capFor cs d"
  by (simp add: capFor_def)

lemma activeFor_simps [simp]:
  "activeFor (incActive d dq) d' = activeFor dq d' + of_bool (d = d')"
  "activeFor (decActive d dq) d' = activeFor dq d' - of_bool (d = d')"
  "activeFor (dq\<lparr>dq_pending := ts\<rparr>) d' = activeFor dq d'"
  "activeFor emptyDeviceQueue d' = 0"
  by (cases d; cases d'; simp add: activeFor_def incActive_def decActive_def emptyDeviceQueue_def)+

lemma dq_pending_simps [simp]:
  "dq_pending (incActive d dq) = dq_pending dq"
  "dq_pending (decActive d dq) = dq_pending dq"
  "dq_pending emptyDeviceQueue = []"
  "dq_pending (pushTask t dq) = dq_pending dq @ [t]"
  "activeFor (pushTask t dq) d' = activeFor dq d'"
  by (simp_all add: incActive_def decActive_def emptyDeviceQueue_def pushTask_def)

lemma direction_all: "(\<forall>d. P d) \<longleftrightarrow> P DirectionUpload \<and> P DirectionDownload"
  by (metis Direction.exhaust)

lemma active_zero_iff: "dq_activeUp dq = 0 \<and> dq_activeDown dq = 0 \<longleftrightarrow> (\<forall>d. activeFor dq d = 0)"
  by (simp add: direction_all activeFor_def)

definition psum :: "(string, deviceQueue) gomap \<Rightarrow> nat" where
  "psum m = (\<Sum>kv\<leftarrow>m. length (dq_pending (snd kv)))"

lemma pendingTotal_psum: "pendingTotal q = psum (q_devices q)"
  by (simp add: pendingTotal_def psum_def)

lemma psum_gput_new: "map_of m k = None \<Longrightarrow> psum (gput k v m) = psum m + length (dq_pending v)"
  by (simp add: gput_absent psum_def)

lemma psum_gput_old: "map_of m k = Some v0 \<Longrightarrow>
    psum (gput k v m) + length (dq_pending v0) = psum m + length (dq_pending v)"
  unfolding psum_def by (induction m) (auto split: if_splits)

lemma psum_gdel: "gwf m \<Longrightarrow> map_of m k = Some v0 \<Longrightarrow>
    psum (gdel k m) + length (dq_pending v0) = psum m"
  unfolding psum_def by (induction m) (auto simp: gcount_gdel_absent split: if_splits)

lemma psum_cleared: "psum (map (\<lambda>(k, dq). (k, dq\<lparr>dq_pending := []\<rparr>)) m) = 0"
  unfolding psum_def by (induction m) auto

lemma map_of_cleared: "map_of (map (\<lambda>(k, dq). (k, dq\<lparr>dq_pending := []\<rparr>)) m) p =
    map_option (\<lambda>dq. dq\<lparr>dq_pending := []\<rparr>) (map_of m p)"
  by (induction m) auto

lemma gwf_cleared: "gwf (map (\<lambda>(k, dq). (k, dq\<lparr>dq_pending := []\<rparr>)) m) = gwf m"
  by (simp add: gwf_def comp_def case_prod_beta)

lemma psum_zeroD: "psum m = 0 \<Longrightarrow> map_of m p = Some dq \<Longrightarrow> dq_pending dq = []"
  unfolding psum_def by (induction m) (auto split: if_splits)

lemma psum_zero_iff:
  assumes "gwf m"
  shows "psum m = 0 \<longleftrightarrow> (\<forall>p dq. map_of m p = Some dq \<longrightarrow> dq_pending dq = [])"
proof -
  have "psum m = 0 \<longleftrightarrow> (\<forall>kv \<in> set m. dq_pending (snd kv) = [])"
    by (auto simp: psum_def sum_list_eq_0_iff)
  then show ?thesis by (auto simp: gwf_set_iff [OF assms, symmetric])
qed

lemma split_first_Some: "split_first P xs = Some (y, ys) \<Longrightarrow>
    \<exists>us vs. xs = us @ y # vs \<and> ys = us @ vs \<and> P y \<and> (\<forall>u \<in> set us. \<not> P u)"
proof (induction xs arbitrary: ys)
  case (Cons x xs)
  show ?case
  proof (cases "P x")
    case True
    with Cons.prems show ?thesis by (intro exI [of _ "[]"] exI [of _ xs]) auto
  next
    case False
    with Cons.prems obtain zs where z: "split_first P xs = Some (y, zs)" "ys = x # zs" by auto
    from Cons.IH [OF z(1)] obtain us vs where
      "xs = us @ y # vs" "zs = us @ vs" "P y" "\<forall>u \<in> set us. \<not> P u" by blast
    with False z(2) show ?thesis by (intro exI [of _ "x # us"] exI [of _ vs]) auto
  qed
qed simp

lemma split_first_None: "split_first P xs = None \<longleftrightarrow> (\<forall>x \<in> set xs. \<not> P x)"
  by (induction xs) auto

lemma find_split_first: "find P xs = map_option fst (split_first P xs)"
  by (induction xs) (auto simp: option.map_comp comp_def case_prod_beta)

lemma runnable_iff_pop: "runnableInLocked q dq = map_option fst (popFrom (caps q) dq)"
  by (simp add: runnableInLocked_def popFrom_def find_split_first option.map_comp comp_def
      case_prod_beta)

lemma popFrom_Some:
  assumes "popFrom cs dq = Some (t, dq')"
  shows "\<exists>us vs. dq_pending dq = us @ t # vs \<and> dq_pending dq' = us @ vs \<and>
      can_run cs dq t \<and> (\<forall>u \<in> set us. \<not> can_run cs dq u) \<and>
      dq' = incActive (tk_Direction t) (dq\<lparr>dq_pending := us @ vs\<rparr>)"
proof -
  from assms obtain rest where r: "split_first (can_run cs dq) (dq_pending dq) = Some (t, rest)"
      "dq' = incActive (tk_Direction t) (dq\<lparr>dq_pending := rest\<rparr>)"
    by (auto simp: popFrom_def)
  from split_first_Some [OF r(1)] obtain us vs where
    "dq_pending dq = us @ t # vs" "rest = us @ vs" "can_run cs dq t"
    "\<forall>u \<in> set us. \<not> can_run cs dq u" by blast
  with r(2) show ?thesis by auto
qed

lemma pop_Some:
  "popRunnableLocked ks q = Some (t, q') \<Longrightarrow> \<exists>k dq dq'. k \<in> set ks \<and>
     map_of (q_devices q) k = Some dq \<and> popFrom (caps q) dq = Some (t, dq') \<and>
     q' = q\<lparr>q_devices := gput k dq' (q_devices q)\<rparr>"
  by (induction ks) (fastforce split: option.splits)+

lemma pop_None:
  "popRunnableLocked ks q = None \<longleftrightarrow>
    (\<forall>k \<in> set ks. \<forall>dq. map_of (q_devices q) k = Some dq \<longrightarrow> popFrom (caps q) dq = None)"
  by (induction ks) (auto split: option.splits)

lemma hasRunnable_iff_pop:
  assumes wf: "gwf (q_devices q)" and ks: "set ks = fst ` set (q_devices q)"
  shows "hasRunnableLocked q \<longleftrightarrow> popRunnableLocked ks q \<noteq> None"
proof -
  have "hasRunnableLocked q \<longleftrightarrow>
      (\<exists>k dq. map_of (q_devices q) k = Some dq \<and> popFrom (caps q) dq \<noteq> None)"
    unfolding hasRunnableLocked_def list_ex_iff runnable_iff_pop gwf_set_iff [OF wf, symmetric]
    by (simp add: Bex_def)
  also have "\<dots> \<longleftrightarrow> popRunnableLocked ks q \<noteq> None"
    unfolding pop_None ks by (metis domI dom_map_of_conv_image_fst)
  finally show ?thesis .
qed

section \<open>Preservation\<close>

lemma running_of_Cons: "running_of (q\<lparr>q_devices := ds, q_running := t # ts\<rparr>) p d =
    running_of (q\<lparr>q_running := ts\<rparr>) p d + of_bool (tk_PeerID t = p \<and> tk_Direction t = d)"
  by (simp add: running_of_def)

lemma running_of_remove1:
  "t \<in> set ts \<Longrightarrow> length (filter P (remove1 t ts)) + of_bool (P t) = length (filter P ts)"
  by (induction ts) auto

definition caps_pos :: "Queue \<Rightarrow> bool" where
  "caps_pos q \<longleftrightarrow> 0 < q_maxUp q \<and> 0 < q_maxDown q"

lemma inv_New: "queue_inv (NewQueue up down)"
  by (simp add: NewQueue_def queue_inv_def pendingTotal_def)

lemma inv_devD: "queue_inv q \<Longrightarrow> map_of (q_devices q) p = Some dq \<Longrightarrow> dev_ok q p dq"
  by (simp add: queue_inv_def)

lemma dev_ok_cong:
  "caps q' = caps q \<Longrightarrow> (\<And>d. running_of q' p d = running_of q p d) \<Longrightarrow>
    dev_ok q' p dq = dev_ok q p dq"
  by (simp add: dev_ok_def)

lemma inv_running_none:
  "queue_inv q \<Longrightarrow> map_of (q_devices q) p = None \<Longrightarrow> running_of q p d = 0"
  by (auto simp: queue_inv_def running_of_def filter_empty_conv)

lemma Enqueue_refused:
  "(\<forall>t. ot = Some t \<longrightarrow> tk_Execute t = None \<or> q_closed q) \<Longrightarrow> snd (Enqueue ot q) = q"
  by (auto simp: Enqueue_def split: option.splits)

lemma Enqueue_accepted:
  "tk_Execute t \<noteq> None \<Longrightarrow> \<not> q_closed q \<Longrightarrow> Enqueue (Some t) q = (None,
    q\<lparr>q_devices := gput (tk_PeerID t) (pushTask t (case map_of (q_devices q) (tk_PeerID t) of
         None \<Rightarrow> emptyDeviceQueue | Some dq \<Rightarrow> dq)) (q_devices q), q_wg := q_wg q + 1\<rparr>)"
  by (simp add: Enqueue_def)

lemma inv_Enqueue:
  assumes inv: "queue_inv q" and pos: "caps_pos q"
  shows "queue_inv (snd (Enqueue ot q))"
proof -
  consider "snd (Enqueue ot q) = q"
    | t dq0 where "tk_Execute t \<noteq> None" "\<not> q_closed q"
      "dq0 = (case map_of (q_devices q) (tk_PeerID t) of None \<Rightarrow> emptyDeviceQueue | Some dq \<Rightarrow> dq)"
      "snd (Enqueue ot q) =
        q\<lparr>q_devices := gput (tk_PeerID t) (pushTask t dq0) (q_devices q), q_wg := q_wg q + 1\<rparr>"
    using Enqueue_refused [of ot q] Enqueue_accepted [of _ q] by (metis snd_conv)
  then show ?thesis
  proof cases
    case 1
    with inv show ?thesis by simp
  next
    case 2
    let ?m = "gput (tk_PeerID t) (pushTask t dq0) (q_devices q)"
    have dq0: "dev_ok q (tk_PeerID t) dq0"
    proof (cases "map_of (q_devices q) (tk_PeerID t)")
      case None
      with 2(3) inv_running_none [OF inv None] pos show ?thesis
        by (auto simp: dev_ok_def capFor_def caps_def caps_pos_def)
    next
      case (Some dq)
      with 2(3) inv_devD [OF inv Some] show ?thesis by simp
    qed
    have "psum ?m = Suc (psum (q_devices q))"
    proof (cases "map_of (q_devices q) (tk_PeerID t)")
      case None
      then show ?thesis by (simp add: 2(3) psum_gput_new)
    next
      case (Some dq)
      from psum_gput_old [OF this, of "pushTask t dq"] show ?thesis by (simp add: 2(3) Some)
    qed
    with inv 2(1,2) dq0 show ?thesis
      unfolding 2(4) by (auto simp: queue_inv_def dev_ok_def map_of_gput running_of_def caps_def
          pendingTotal_psum)
  qed
qed

lemma inv_dispatch:
  assumes inv: "queue_inv q" and d: "dispatchTurn ks q = LoopRun t q'"
  shows "queue_inv q'"
proof -
  from d obtain q1 where open_q: "\<not> q_closed q" and q1: "popRunnableLocked ks q = Some (t, q1)"
    and q': "q' = runTask t q1" by (auto simp: dispatchTurn_def split: if_splits option.splits)
  from pop_Some [OF q1] obtain k dq dq' where k: "map_of (q_devices q) k = Some dq"
    and p: "popFrom (caps q) dq = Some (t, dq')"
    and q1': "q1 = q\<lparr>q_devices := gput k dq' (q_devices q)\<rparr>" by blast
  from popFrom_Some [OF p] obtain us vs where pend: "dq_pending dq = us @ t # vs"
    and can: "can_run (caps q) dq t"
    and dq': "dq' = incActive (tk_Direction t) (dq\<lparr>dq_pending := us @ vs\<rparr>)" by blast
  note ok = inv_devD [OF inv k]
  have tk: "tk_PeerID t = k" using ok pend by (auto simp: dev_ok_def)
  have run: "running_of q' p e = running_of q p e + of_bool (k = p \<and> tk_Direction t = e)" for p e
    by (simp add: q' q1' runTask_def running_of_def tk)
  have caps: "caps q' = caps q" by (simp add: q' q1' runTask_def caps_def)
  have ok': "dev_ok q' k dq'"
    using ok can pend by (auto simp: dev_ok_def run caps dq' can_run_def)
  have "psum (gput k dq' (q_devices q)) + 1 = psum (q_devices q)"
    using psum_gput_old [OF k, of dq'] pend dq' by simp
  moreover have "\<exists>d. activeFor dq' d \<noteq> 0"
    using ok' run [of k "tk_Direction t"] by (intro exI [of _ "tk_Direction t"]) (simp add: dev_ok_def)
  moreover have "map_of (q_devices q) p = Some e \<Longrightarrow> p \<noteq> k \<Longrightarrow> dev_ok q' p e" for p e
    using inv_devD [OF inv, of p e] by (simp add: dev_ok_def run caps)
  ultimately show ?thesis
    using inv ok' open_q by (auto simp: queue_inv_def q' q1' runTask_def map_of_gput
        pendingTotal_psum tk)
qed

lemma inv_release:
  assumes inv: "queue_inv q" and t: "t \<in> set (q_running q)"
  shows "queue_inv ((releaseSlot t q)\<lparr>q_running := remove1 t (q_running q),
      q_finishing := t # q_finishing q\<rparr>)" (is "queue_inv ?q'")
proof -
  let ?p = "tk_PeerID t"
  from inv t obtain dq where dq: "map_of (q_devices q) ?p = Some dq" by (auto simp: queue_inv_def)
  note ok = inv_devD [OF inv dq]
  have wf: "gwf (q_devices q)" using inv by (simp add: queue_inv_def)
  define dq' where "dq' = decActive (tk_Direction t) dq"
  define drained where "drained = (dq_pending dq' = [] \<and> (\<forall>d. activeFor dq' d = 0))"
  have dev: "q_devices ?q' = (if drained then gdel ?p (q_devices q) else gput ?p dq' (q_devices q))"
    by (simp add: releaseSlot_def dq Let_def dq'_def [symmetric] active_zero_iff drained_def)
  have rest: "caps ?q' = caps q" "q_closed ?q' = q_closed q" "q_wg ?q' = q_wg q"
      "q_toRelease ?q' = q_toRelease q" "q_running ?q' = remove1 t (q_running q)"
      "q_finishing ?q' = t # q_finishing q"
    by (simp_all add: releaseSlot_def dq Let_def caps_def)
  have run: "running_of q p d = running_of ?q' p d + of_bool (?p = p \<and> tk_Direction t = d)" for p d
    using running_of_remove1 [OF t, of "\<lambda>t. tk_PeerID t = p \<and> tk_Direction t = d"]
    by (simp add: running_of_def)
  have ok': "dev_ok ?q' ?p dq'"
  proof -
    have "int (running_of ?q' ?p d) \<le> int (running_of q ?p d)" for d by (simp add: run)
    then have "int (running_of ?q' ?p d) \<le> capFor (caps q) d" for d
      using ok by (meson dev_ok_def order_trans)
    then show ?thesis using ok unfolding dev_ok_def rest(1) dq'_def by (simp add: run)
  qed
  have others: "map_of (q_devices q) p = Some e \<Longrightarrow> p \<noteq> ?p \<Longrightarrow> dev_ok ?q' p e" for p e
    using inv_devD [OF inv, of p e] run [of p] by (simp add: dev_ok_def rest(1))
  have len: "length (q_running q) = Suc (length (remove1 t (q_running q)))"
    using t by (simp add: length_remove1) (metis Suc_pred length_pos_if_in_set)
  have ps: "psum (q_devices ?q') = psum (q_devices q)"
    using psum_gdel [OF wf dq] psum_gput_old [OF dq, of dq']
    by (auto simp: dev dq'_def drained_def)
  have "map_of (q_devices ?q') (tk_PeerID u) \<noteq> None" if u: "u \<in> set (q_running ?q')" for u
  proof -
    have "u \<in> set (q_running q)" using u rest(5) by (metis notin_set_remove1)
    then have "map_of (q_devices q) (tk_PeerID u) \<noteq> None" using inv by (auto simp: queue_inv_def)
    moreover have "\<not> drained" if "tk_PeerID u = ?p"
    proof -
      have "0 < running_of ?q' ?p (tk_Direction u)"
        using u that by (auto simp: running_of_def filter_empty_conv)
      with ok' show ?thesis by (fastforce simp: drained_def dev_ok_def)
    qed
    ultimately show ?thesis by (auto simp: dev map_of_gput map_of_gdel)
  qed
  moreover have "dq_pending dq' \<noteq> [] \<or> (\<exists>d. activeFor dq' d \<noteq> 0)" if "\<not> drained"
    using that by (simp add: drained_def)
  ultimately show ?thesis
    using inv ok' others len ps wf unfolding queue_inv_def pendingTotal_psum rest
    by (auto simp: dev map_of_gput map_of_gdel split: if_splits)
qed

lemma inv_wg_done:
  assumes inv: "queue_inv q" and t: "t \<in> set (q_finishing q)"
  shows "queue_inv (q\<lparr>q_finishing := remove1 t (q_finishing q), q_wg := q_wg q - 1\<rparr>)"
proof -
  have "length (q_finishing q) = Suc (length (remove1 t (q_finishing q)))"
    using t by (simp add: length_remove1) (metis Suc_pred length_pos_if_in_set)
  moreover have "dev_ok (q\<lparr>q_finishing := fs, q_wg := w\<rparr>) = dev_ok q" for fs w
    by (intro ext) (simp add: dev_ok_def running_of_def caps_def)
  ultimately show ?thesis using inv by (simp add: queue_inv_def pendingTotal_psum)
qed

lemma inv_CloseLocked: "queue_inv q \<Longrightarrow> queue_inv (CloseLocked q)"
  unfolding CloseLocked_def queue_inv_def pendingTotal_psum
  by (auto simp: psum_cleared map_of_cleared gwf_cleared dev_ok_def running_of_def caps_def)

lemma inv_CloseUnlocked: "queue_inv q \<Longrightarrow> q_closed q \<Longrightarrow> queue_inv (CloseUnlocked q)"
  by (auto simp: CloseUnlocked_def queue_inv_def pendingTotal_psum dev_ok_def running_of_def caps_def)

lemma step_caps: "queue_step q q' \<Longrightarrow> caps q' = caps q"
proof (induction rule: queue_step.induct)
  case (enqueue q ot)
  then show ?case by (auto simp: Enqueue_def Let_def caps_def split: option.splits)
next
  case (dispatch ks q t q')
  then show ?case
    by (auto simp: dispatchTurn_def runTask_def caps_def dest!: pop_Some split: if_splits option.splits)
next
  case (release t q)
  then show ?case by (auto simp: releaseSlot_def Let_def caps_def split: option.splits)
qed (simp_all add: CloseLocked_def CloseUnlocked_def caps_def)

lemma step_inv: "queue_step q q' \<Longrightarrow> queue_inv q \<Longrightarrow> caps_pos q \<Longrightarrow> queue_inv q'"
  by (induction rule: queue_step.induct)
    (auto intro: inv_Enqueue inv_dispatch inv_release inv_wg_done inv_CloseLocked inv_CloseUnlocked)

lemma reach_inv: "queue_reach up down q \<Longrightarrow>
    queue_inv q \<and> caps_pos q \<and> caps q = caps (NewQueue up down)"
proof (induction rule: queue_reach.induct)
  case init
  have "caps_pos (NewQueue up down)"
    by (simp add: caps_pos_def NewQueue_def DefaultMaxConcurrentUp_def DefaultMaxConcurrentDown_def)
  then show ?case by (simp add: inv_New)
next
  case (step q q')
  moreover have "caps_pos q'" using step step_caps [OF step.hyps(2)] by (simp add: caps_pos_def caps_def)
  ultimately show ?case using step_inv [OF step.hyps(2)] step_caps [OF step.hyps(2)] by simp
qed

section \<open>Lanes\<close>

text \<open>The pending list of one device is a two-lane first-in-first-out buffer: \<open>pushTask\<close> appends,
  \<open>popFrom\<close> takes the oldest task of the lane it serves, and the counters' updates touch no lane.\<close>

definition lane :: "Direction \<Rightarrow> deviceQueue \<Rightarrow> Task list" where
  "lane d dq = filter (\<lambda>t. tk_Direction t = d) (dq_pending dq)"

lemma lane_popFrom:
  assumes "popFrom cs dq = Some (t, dq')"
  shows "lane d dq = (if d = tk_Direction t then t # lane d dq' else lane d dq')"
proof -
  from popFrom_Some [OF assms] obtain us vs where
    p: "dq_pending dq = us @ t # vs" "dq_pending dq' = us @ vs" and
    c: "can_run cs dq t" "\<forall>u \<in> set us. \<not> can_run cs dq u" by blast
  have "filter (\<lambda>u. tk_Direction u = tk_Direction t) us = []"
    using c by (auto simp: filter_empty_conv can_run_def)
  then show ?thesis by (simp add: lane_def p)
qed

interpretation lanes: fifo lane tk_Direction pushTask popFrom decActive
  by unfold_locales (simp add: lane_def, rule lane_popFrom, assumption, simp add: lane_def)

section \<open>Properties\<close>

text \<open>C10: In every reachable state of the queue, whatever the interleaving of enqueues, dispatches,
  completions and a close, each peer has at most the configured number of running tasks in each
  direction (a non-positive configuration means the default of four), and the device's counters
  say exactly how many run.\<close>

theorem queue_within_caps:
  assumes "queue_reach up down q"
  shows "(\<forall>p. int (running_of q p DirectionUpload) \<le> (if up \<le> 0 then 4 else up) \<and>
      int (running_of q p DirectionDownload) \<le> (if down \<le> 0 then 4 else down) \<and>
      ActiveFor p q =
        int (running_of q p DirectionUpload) + int (running_of q p DirectionDownload))"
proof
  fix p
  from reach_inv [OF assms] have inv: "queue_inv q" and
    cs: "caps q = (if up \<le> 0 then 4 else up, if down \<le> 0 then 4 else down)"
    by (simp_all add: NewQueue_def caps_def DefaultMaxConcurrentUp_def DefaultMaxConcurrentDown_def)
  show "int (running_of q p DirectionUpload) \<le> (if up \<le> 0 then 4 else up) \<and>
      int (running_of q p DirectionDownload) \<le> (if down \<le> 0 then 4 else down) \<and>
      ActiveFor p q =
        int (running_of q p DirectionUpload) + int (running_of q p DirectionDownload)"
  proof (cases "map_of (q_devices q) p")
    case None
    with inv_running_none [OF inv None] show ?thesis by (simp add: ActiveFor_def)
  next
    case (Some dq)
    from inv_devD [OF inv Some] have "int (running_of q p d) \<le> capFor (caps q) d"
      "activeFor dq d = int (running_of q p d)" for d by (simp_all add: dev_ok_def)
    from this [of DirectionUpload] this [of DirectionDownload] Some show ?thesis
      by (simp add: ActiveFor_def cs capFor_def activeFor_def)
  qed
qed

text \<open>The wait group never goes negative (so \<open>wg.Add\<close> never panics), and \<open>Wait\<close> returns in
  a reachable state exactly when no accepted task is pending, running, or being finished and no
  \<open>Close\<close> still owes the counters of the tasks it abandoned; after a completed \<open>Close\<close> nothing
  is pending.\<close>

theorem queue_wait_exact:
  assumes "queue_reach up down q"
  shows "0 \<le> q_wg q \<and>
    (WaitReturns q \<longleftrightarrow>
      (\<forall>p. PendingFor p q = 0) \<and> q_running q = [] \<and> q_finishing q = [] \<and> q_toRelease q = 0) \<and>
    (q_closed q \<longrightarrow> (\<forall>p. PendingFor p q = 0))"
proof -
  from reach_inv [OF assms] have inv: "queue_inv q" by simp
  have "psum (q_devices q) = 0 \<longleftrightarrow> (\<forall>p. PendingFor p q = 0)"
    using inv by (simp add: psum_zero_iff PendingFor_def queue_inv_def split: option.split)
  moreover have wg: "q_wg q = int (psum (q_devices q)) + int (length (q_running q)) +
      int (length (q_finishing q)) + q_toRelease q" "0 \<le> q_toRelease q"
      "q_closed q \<longrightarrow> psum (q_devices q) = 0"
    using inv by (simp_all add: queue_inv_def pendingTotal_psum)
  moreover have "q_wg q = 0 \<longleftrightarrow> psum (q_devices q) = 0 \<and> length (q_running q) = 0 \<and>
      length (q_finishing q) = 0 \<and> q_toRelease q = 0"
    using wg(1,2) by linarith
  ultimately show ?thesis unfolding WaitReturns_def by auto
qed

text \<open>C23: The dispatcher loses no work: in a reachable open queue a turn of the dispatch loop, over
  whatever order the map is ranged in, starts a task exactly when some device has a pending task
  whose direction has a free slot; the task it starts is pending, has a free slot, and no earlier
  pending task of its device had one.\<close>

theorem dispatch_work_conserving:
  assumes q: "queue_reach up down q" "\<not> q_closed q" and ks: "mset ks = mset (map fst (q_devices q))"
  shows "((\<exists>t q'. dispatchTurn ks q = LoopRun t q') \<longleftrightarrow>
      (\<exists>p dq. map_of (q_devices q) p = Some dq \<and> (\<exists>u \<in> set (dq_pending dq). can_run (caps q) dq u)))
    \<and> (\<forall>t q'. dispatchTurn ks q = LoopRun t q' \<longrightarrow> (\<exists>dq us vs.
        map_of (q_devices q) (tk_PeerID t) = Some dq \<and> dq_pending dq = us @ t # vs \<and>
        can_run (caps q) dq t \<and> (\<forall>u \<in> set us. \<not> can_run (caps q) dq u)))"
proof -
  from reach_inv [OF q(1)] have inv: "queue_inv q" and wf: "gwf (q_devices q)"
    by (simp_all add: queue_inv_def)
  have ks': "set ks = fst ` set (q_devices q)" using ks by (metis mset_eq_setD set_map)
  have run: "dispatchTurn ks q = LoopRun t q' \<longleftrightarrow>
      (\<exists>q1. popRunnableLocked ks q = Some (t, q1) \<and> q' = runTask t q1)" for t q'
    using q(2) hasRunnable_iff_pop [OF wf ks'] by (auto simp: dispatchTurn_def split: option.splits)
  have "popRunnableLocked ks q \<noteq> None \<longleftrightarrow>
      (\<exists>p dq. map_of (q_devices q) p = Some dq \<and> popFrom (caps q) dq \<noteq> None)"
    unfolding pop_None ks' by (metis domI dom_map_of_conv_image_fst)
  then have "popRunnableLocked ks q \<noteq> None \<longleftrightarrow>
      (\<exists>p dq. map_of (q_devices q) p = Some dq \<and> (\<exists>u \<in> set (dq_pending dq). can_run (caps q) dq u))"
    by (simp add: popFrom_def split_first_None)
  moreover have "\<exists>dq us vs. map_of (q_devices q) (tk_PeerID t) = Some dq \<and>
      dq_pending dq = us @ t # vs \<and> can_run (caps q) dq t \<and> (\<forall>u \<in> set us. \<not> can_run (caps q) dq u)"
    if pop: "popRunnableLocked ks q = Some (t, q1)" for t q1
  proof -
    from pop_Some [OF pop] obtain k dq dq' where k: "map_of (q_devices q) k = Some dq"
      and p: "popFrom (caps q) dq = Some (t, dq')" by blast
    from popFrom_Some [OF p] obtain us vs where us: "dq_pending dq = us @ t # vs"
      "can_run (caps q) dq t" "\<forall>u \<in> set us. \<not> can_run (caps q) dq u" by blast
    with inv_devD [OF inv k] have "tk_PeerID t = k" by (simp add: dev_ok_def)
    with k us show ?thesis by blast
  qed
  ultimately show ?thesis by (auto simp: run)
qed

text \<open>Within one device, tasks of the same direction start in the order they were enqueued:
  after any interleaving of enqueues, starts (under whatever caps) and slot releases, the tasks
  started followed by those still pending are the initially pending ones followed by the enqueued
  ones, direction by direction.\<close>

theorem device_queue_fifo:
  assumes "fifo_run pushTask popFrom decActive ops dq = (started, dq')"
  shows "filter (\<lambda>t. tk_Direction t = d) started @ lane d dq' =
    lane d dq @ filter (\<lambda>t. tk_Direction t = d) (fifo_inputs ops)"
  using assms by (rule lanes.run_fifo)

section \<open>Witnesses\<close>

definition demo_task :: "string \<Rightarrow> Direction \<Rightarrow> Task" where
  "demo_task i d = \<lparr>tk_ID = i, tk_PeerID = ''p'', tk_Direction = d, tk_Execute = Some 1\<rparr>"

definition demo_queue :: Queue where
  "demo_queue = snd (Enqueue (Some (demo_task ''b'' DirectionUpload))
    (snd (Enqueue (Some (demo_task ''a'' DirectionUpload)) (NewQueue 1 0))))"

definition demo_queue_running :: Queue where
  "demo_queue_running = (case dispatchTurn [''p''] demo_queue of LoopRun t q \<Rightarrow> q | _ \<Rightarrow> demo_queue)"

lemmas queue_eval = demo_task_def demo_queue_def demo_queue_running_def Enqueue_def NewQueue_def
  emptyDeviceQueue_def pushTask_def dispatchTurn_def hasRunnableLocked_def runnableInLocked_def
  can_run_def caps_def capFor_def activeFor_def popFrom_def incActive_def runTask_def
  DefaultMaxConcurrentUp_def DefaultMaxConcurrentDown_def

lemma demo_queue_reach: "queue_reach 1 0 demo_queue"
  unfolding demo_queue_def
  by (intro queue_reach.step [OF _ queue_step.enqueue] queue_reach.init)

lemma demo_dispatch: "dispatchTurn [''p''] demo_queue = LoopRun (demo_task ''a'' DirectionUpload) demo_queue_running"
  by (simp add: queue_eval)

lemma demo_queue_running_reach: "queue_reach 1 0 demo_queue_running"
  by (rule queue_reach.step [OF demo_queue_reach queue_step.dispatch [OF _ demo_dispatch]])
    (simp add: queue_eval)

theorem queue_within_caps_witness:
  "running_of demo_queue_running ''p'' DirectionUpload = 1 \<and> ActiveFor ''p'' demo_queue_running = 1 \<and>
    PendingFor ''p'' demo_queue_running = 1"
  using queue_within_caps [OF demo_queue_running_reach]
  by (auto dest: spec [of _ "''p''"] simp: queue_eval running_of_def ActiveFor_def PendingFor_def)

theorem queue_wait_exact_witness: "\<not> WaitReturns demo_queue_running \<and> q_wg demo_queue_running = 2"
  using queue_wait_exact [OF demo_queue_running_reach] by (simp add: queue_eval)

theorem dispatch_work_conserving_witness:
  "(\<exists>t q'. dispatchTurn [''p''] demo_queue = LoopRun t q') \<and>
    \<not> (\<exists>t q'. dispatchTurn [''p''] demo_queue_running = LoopRun t q')"
  using dispatch_work_conserving [OF demo_queue_reach, of "[''p'']"]
    dispatch_work_conserving [OF demo_queue_running_reach, of "[''p'']"]
  by (simp add: queue_eval)

theorem device_queue_fifo_witness:
  "fst (fifo_run pushTask popFrom decActive
      [Enq (demo_task ''a'' DirectionUpload), Enq (demo_task ''b'' DirectionDownload),
       Enq (demo_task ''c'' DirectionUpload), Deq (1, 1), Deq (1, 1), Deq (1, 1),
       Upd DirectionUpload, Deq (1, 1)] emptyDeviceQueue)
    = [demo_task ''a'' DirectionUpload, demo_task ''b'' DirectionDownload, demo_task ''c'' DirectionUpload]"
  using device_queue_fifo [of "[Enq (demo_task ''a'' DirectionUpload), Enq (demo_task ''b'' DirectionDownload),
       Enq (demo_task ''c'' DirectionUpload), Deq (1, 1), Deq (1, 1), Deq (1, 1),
       Upd DirectionUpload, Deq (1, 1)]" emptyDeviceQueue _ _ DirectionUpload, OF prod.collapse [symmetric]]
  by (simp add: queue_eval decActive_def)

end
