(* ===== verification/GoText.thy ===== *)
theory GoText
  imports Prelude
begin

text \<open>
  The functions of Go's \<open>strconv\<close>, \<open>encoding/hex\<close> and \<open>strings\<close> that the program calls, on the
  strings and bytes of the prelude, with the round trips the components rest on. \<open>TrimSpace\<close>
  removes the byte sequences of all Unicode white space.
\<close>

section \<open>Decimal numbers\<close>

definition digit_char :: "nat \<Rightarrow> char" where
  "digit_char n = ''0123456789'' ! n"

definition digit_val :: "char \<Rightarrow> nat option" where
  "digit_val c = (if CHR ''0'' \<le> c \<and> c \<le> CHR ''9'' then Some (of_char c - 48) else None)"

fun itoa_nat :: "nat \<Rightarrow> string" where
  "itoa_nat n = (if n < 10 then [digit_char n] else itoa_nat (n div 10) @ [digit_char (n mod 10)])"

declare itoa_nat.simps [simp del]

definition Itoa :: "int \<Rightarrow> string" where
  "Itoa i = (if i < 0 then CHR ''-'' # itoa_nat (nat (- i)) else itoa_nat (nat i))"

fun parse_digits :: "nat \<Rightarrow> string \<Rightarrow> nat option" where
  "parse_digits acc [] = Some acc"
| "parse_digits acc (c # cs) = (case digit_val c of
      None \<Rightarrow> None | Some d \<Rightarrow> parse_digits (10 * acc + d) cs)"

text \<open>\<open>strconv.Atoi\<close>: an optional sign, at least one digit, and a value of 64 bits.\<close>

definition Atoi_unsigned :: "string \<Rightarrow> nat option" where
  "Atoi_unsigned s = (if s = [] then None else parse_digits 0 s)"

definition Atoi :: "string \<Rightarrow> int option" where
  "Atoi s =
    (let r = (case s of
         [] \<Rightarrow> None
       | c # cs \<Rightarrow>
           if c = CHR ''-'' then map_option (\<lambda>n. - int n) (Atoi_unsigned cs)
           else if c = CHR ''+'' then map_option int (Atoi_unsigned cs)
           else map_option int (Atoi_unsigned s))
     in case r of None \<Rightarrow> None | Some i \<Rightarrow> if in64 i then Some i else None)"

text \<open>Case analysis over the numbers below a numeral: all of them are tried.\<close>

lemma all_below: "list_all P [0..<k] \<Longrightarrow> n < k \<Longrightarrow> P n"
  by (simp add: list_all_iff)

lemma digit_table: "list_all (\<lambda>n. digit_val (digit_char n) = Some n) [0..<10]"
  by code_simp

lemma digit_val_char [simp]: "n < 10 \<Longrightarrow> digit_val (digit_char n) = Some n"
  by (rule all_below [OF digit_table])

lemma digit_char_not: "n < 10 \<Longrightarrow> digit_val c = None \<Longrightarrow> digit_char n \<noteq> c"
  using digit_val_char [of n] by auto

lemma parse_digits_append:
  "parse_digits acc (xs @ ys) = Option.bind (parse_digits acc xs) (\<lambda>a. parse_digits a ys)"
  by (induction xs arbitrary: acc) (auto split: option.splits)

lemma itoa_nat_ne [simp]: "itoa_nat n \<noteq> []"
  by (subst itoa_nat.simps) simp

lemma parse_itoa_nat [simp]: "parse_digits 0 (itoa_nat n) = Some n"
proof (induction n rule: itoa_nat.induct)
  case (1 n)
  then show ?case by (subst itoa_nat.simps) (simp add: parse_digits_append mult.commute)
qed

lemma itoa_nat_digits: "c \<in> set (itoa_nat n) \<Longrightarrow> digit_val c \<noteq> None"
proof (induction n rule: itoa_nat.induct)
  case (1 n)
  from "1.prems" show ?case
    by (subst (asm) itoa_nat.simps) (use "1.IH" in \<open>auto split: if_splits\<close>)
qed

lemma itoa_nat_inj: "itoa_nat m = itoa_nat n \<Longrightarrow> m = n"
  using parse_itoa_nat by (metis option.inject)

lemma digit_val_signs [simp]: "digit_val (CHR ''-'') = None" "digit_val (CHR ''+'') = None"
  by (simp_all add: digit_val_def less_eq_char_def)

lemma Atoi_Itoa [simp]: "in64 i \<Longrightarrow> Atoi (Itoa i) = Some i"
proof (cases "i < 0")
  case True
  moreover assume "in64 i"
  ultimately show ?thesis by (simp add: Itoa_def Atoi_def Atoi_unsigned_def)
next
  case False
  assume i: "in64 i"
  obtain c cs where c: "itoa_nat (nat i) = c # cs" by (cases "itoa_nat (nat i)") auto
  have "digit_val c \<noteq> None" using itoa_nat_digits [of c "nat i"] c by simp
  then have "c \<noteq> CHR ''-''" "c \<noteq> CHR ''+''" by auto
  with False i c parse_itoa_nat [of "nat i"] show ?thesis
    by (simp add: Itoa_def Atoi_def Atoi_unsigned_def)
qed

lemma Itoa_inj: "in64 i \<Longrightarrow> in64 j \<Longrightarrow> Itoa i = Itoa j \<Longrightarrow> i = j"
  by (metis Atoi_Itoa option.inject)

section \<open>Hexadecimal\<close>

type_synonym bytes = "8 word list"

definition hex_char :: "nat \<Rightarrow> char" where
  "hex_char n = ''0123456789abcdef'' ! n"

definition hex_val :: "char \<Rightarrow> nat option" where
  "hex_val c =
    (if CHR ''0'' \<le> c \<and> c \<le> CHR ''9'' then Some (of_char c - 48)
     else if CHR ''a'' \<le> c \<and> c \<le> CHR ''f'' then Some (of_char c - 87)
     else if CHR ''A'' \<le> c \<and> c \<le> CHR ''F'' then Some (of_char c - 55)
     else None)"

fun EncodeToString :: "bytes \<Rightarrow> string" where
  "EncodeToString [] = []"
| "EncodeToString (b # bs) = hex_char (unat b div 16) # hex_char (unat b mod 16) # EncodeToString bs"

fun DecodeString :: "string \<Rightarrow> bytes option" where
  "DecodeString [] = Some []"
| "DecodeString [c] = None"
| "DecodeString (c # d # cs) = (case (hex_val c, hex_val d) of
      (Some a, Some b) \<Rightarrow> map_option (\<lambda>bs. word_of_nat (16 * a + b) # bs) (DecodeString cs)
    | _ \<Rightarrow> None)"

lemma hex_table: "list_all (\<lambda>n. hex_val (hex_char n) = Some n) [0..<16]"
  by code_simp

lemma hex_val_char [simp]: "n < 16 \<Longrightarrow> hex_val (hex_char n) = Some n"
  by (rule all_below [OF hex_table])

lemma Decode_Encode [simp]: "DecodeString (EncodeToString bs) = Some bs"
proof (induction bs)
  case (Cons b bs)
  have "unat b < 256" by (simp add: unsigned_less [of b, simplified])
  with Cons show ?case by simp
qed simp

lemma EncodeToString_inj: "EncodeToString xs = EncodeToString ys \<longleftrightarrow> xs = ys"
  by (metis Decode_Encode option.inject)

lemma length_EncodeToString [simp]: "length (EncodeToString bs) = 2 * length bs"
  by (induction bs) auto

lemma DecodeString_length: "DecodeString s = Some bs \<Longrightarrow> length s = 2 * length bs"
  by (induction s arbitrary: bs rule: DecodeString.induct) (auto split: option.splits)

section \<open>Searching, splitting and joining\<close>

definition HasPrefix :: "string \<Rightarrow> string \<Rightarrow> bool" where
  "HasPrefix s p \<longleftrightarrow> take (length p) s = p"

definition HasSuffix :: "string \<Rightarrow> string \<Rightarrow> bool" where
  "HasSuffix s p \<longleftrightarrow> HasPrefix (rev s) (rev p)"

definition TrimPrefix :: "string \<Rightarrow> string \<Rightarrow> string" where
  "TrimPrefix s p = (if HasPrefix s p then drop (length p) s else s)"

definition TrimSuffix :: "string \<Rightarrow> string \<Rightarrow> string" where
  "TrimSuffix s p = rev (TrimPrefix (rev s) (rev p))"

lemma HasPrefix_append [simp]: "HasPrefix (p @ s) p"
  by (simp add: HasPrefix_def)

lemma HasPrefix_iff: "HasPrefix s p \<longleftrightarrow> (\<exists>r. s = p @ r)"
  unfolding HasPrefix_def by (metis append_eq_conv_conj append_take_drop_id)

lemma HasPrefix_Nil [simp]: "HasPrefix s []"
  by (simp add: HasPrefix_def)

lemma HasPrefix_Cons [simp]: "HasPrefix (c # s) (d # p) \<longleftrightarrow> c = d \<and> HasPrefix s p"
  "\<not> HasPrefix [] (d # p)"
  by (auto simp: HasPrefix_def)

fun ReplaceChar :: "char \<Rightarrow> string \<Rightarrow> string \<Rightarrow> string" where
  "ReplaceChar c r [] = []"
| "ReplaceChar c r (x # xs) = (if x = c then r @ ReplaceChar c r xs else x # ReplaceChar c r xs)"

fun Split :: "char \<Rightarrow> string \<Rightarrow> string list" where
  "Split c [] = [[]]"
| "Split c (x # xs) = (if x = c then [] # Split c xs
    else (case Split c xs of [] \<Rightarrow> [[x]] | y # ys \<Rightarrow> (x # y) # ys))"

fun Join :: "char \<Rightarrow> string list \<Rightarrow> string" where
  "Join c [] = []"
| "Join c [x] = x"
| "Join c (x # y # zs) = x @ c # Join c (y # zs)"

text \<open>\<open>strings.Cut\<close>: before and after the first occurrence, if there is one.\<close>

fun Cut :: "char \<Rightarrow> string \<Rightarrow> (string \<times> string) option" where
  "Cut c [] = None"
| "Cut c (x # xs) = (if x = c then Some ([], xs)
    else map_option (\<lambda>(a, b). (x # a, b)) (Cut c xs))"

lemma Split_ne [simp]: "Split c s \<noteq> []"
  by (induction s) (auto split: list.splits)

lemma Join_Cons: "xs \<noteq> [] \<Longrightarrow> Join c (x # xs) = x @ c # Join c xs"
  by (cases xs) auto

lemma Join_Split [simp]: "Join c (Split c s) = s"
proof (induction s)
  case (Cons x s)
  obtain y ys where y: "Split c s = y # ys" by (cases "Split c s") auto
  from Cons show ?case by (cases ys) (auto simp: y)
qed simp

lemma Split_parts: "p \<in> set (Split c s) \<Longrightarrow> c \<notin> set p"
  by (induction s arbitrary: p) (auto split: list.splits if_splits)

lemma Split_sub: "p \<in> set (Split c s) \<Longrightarrow> set p \<subseteq> set s"
proof (induction s arbitrary: p)
  case (Cons x s)
  then show ?case by (auto split: list.splits if_splits) blast+
qed simp

lemma Split_single [simp]: "c \<notin> set p \<Longrightarrow> Split c p = [p]"
  by (induction p) auto

lemma Split_append: "c \<notin> set p \<Longrightarrow> Split c (p @ c # s) = p # Split c s"
  by (induction p) auto

lemma Split_Join: "xs \<noteq> [] \<Longrightarrow> (\<And>x. x \<in> set xs \<Longrightarrow> c \<notin> set x) \<Longrightarrow> Split c (Join c xs) = xs"
proof (induction c xs rule: Join.induct)
  case (3 c x y zs)
  then show ?case by (simp add: Split_append)
qed auto

lemma Split_append_any: "Split c (s @ c # t) = Split c s @ Split c t"
proof (induction s)
  case (Cons x s)
  obtain y ys where "Split c s = y # ys" by (cases "Split c s") auto
  with Cons show ?case by auto
qed simp

lemma set_Join: "set (Join c xs) \<subseteq> (\<Union>x \<in> set xs. set x) \<union> {c}"
  by (induction c xs rule: Join.induct) auto

lemma Join_append: "xs \<noteq> [] \<Longrightarrow> ys \<noteq> [] \<Longrightarrow> Join c (xs @ ys) = Join c xs @ c # Join c ys"
proof (induction xs)
  case (Cons a xs)
  then show ?case by (cases xs) (auto simp: Join_Cons)
qed simp

lemma Cut_Some: "c \<notin> set a \<Longrightarrow> Cut c (a @ c # b) = Some (a, b)"
  by (induction a) auto

lemma Cut_None: "Cut c s = None \<longleftrightarrow> c \<notin> set s"
  by (induction s) auto

lemma Cut_SomeD: "Cut c s = Some (a, b) \<Longrightarrow> s = a @ c # b \<and> c \<notin> set a"
  by (induction s arbitrary: a) (auto split: if_splits)

lemma ReplaceChar_none: "c \<notin> set s \<Longrightarrow> ReplaceChar c r s = s"
  by (induction s) auto

lemma ReplaceChar_gone: "c \<notin> set r \<Longrightarrow> c \<notin> set (ReplaceChar c r s)"
  by (induction s) auto

section \<open>White space\<close>

text \<open>\<open>unicode.IsSpace\<close> as the byte sequences of its code points in UTF-8; both ends of a string
  decode to a space exactly when one of these sequences is there.\<close>

definition space_seqs :: "string list" where
  "space_seqs =
    [[CHR 0x09], [CHR 0x0A], [CHR 0x0B], [CHR 0x0C], [CHR 0x0D], [CHR 0x20],
     [CHR 0xC2, CHR 0x85], [CHR 0xC2, CHR 0xA0], [CHR 0xE1, CHR 0x9A, CHR 0x80],
     [CHR 0xE2, CHR 0x80, CHR 0x80], [CHR 0xE2, CHR 0x80, CHR 0x81],
     [CHR 0xE2, CHR 0x80, CHR 0x82], [CHR 0xE2, CHR 0x80, CHR 0x83],
     [CHR 0xE2, CHR 0x80, CHR 0x84], [CHR 0xE2, CHR 0x80, CHR 0x85],
     [CHR 0xE2, CHR 0x80, CHR 0x86], [CHR 0xE2, CHR 0x80, CHR 0x87],
     [CHR 0xE2, CHR 0x80, CHR 0x88], [CHR 0xE2, CHR 0x80, CHR 0x89],
     [CHR 0xE2, CHR 0x80, CHR 0x8A], [CHR 0xE2, CHR 0x80, CHR 0xA8],
     [CHR 0xE2, CHR 0x80, CHR 0xA9], [CHR 0xE2, CHR 0x80, CHR 0xAF],
     [CHR 0xE2, CHR 0x81, CHR 0x9F], [CHR 0xE3, CHR 0x80, CHR 0x80]]"

lemma find_SomeD': "List.find P xs = Some x \<Longrightarrow> x \<in> set xs \<and> P x"
  by (auto simp: find_Some_iff)

function trim_seqs :: "string list \<Rightarrow> string \<Rightarrow> string" where
  "trim_seqs ps s = (case List.find (\<lambda>p. p \<noteq> [] \<and> HasPrefix s p) ps of
      None \<Rightarrow> s | Some p \<Rightarrow> trim_seqs ps (drop (length p) s))"
  by pat_completeness auto
termination
  by (relation "measure (length \<circ> snd)")
    (auto simp: find_Some_iff HasPrefix_iff)

declare trim_seqs.simps [simp del]

definition TrimSpace :: "string \<Rightarrow> string" where
  "TrimSpace s = rev (trim_seqs (map rev space_seqs) (rev (trim_seqs space_seqs s)))"

lemma trim_seqs_set: "set (trim_seqs ps s) \<subseteq> set s"
proof (induction ps s rule: trim_seqs.induct)
  case (1 ps s)
  then show ?case
    by (subst trim_seqs.simps) (auto split: option.split dest: in_set_dropD)
qed

lemma TrimSpace_set: "set (TrimSpace s) \<subseteq> set s"
  using trim_seqs_set [of "map rev space_seqs" "rev (trim_seqs space_seqs s)"]
    trim_seqs_set [of space_seqs s] by (auto simp: TrimSpace_def)

lemma trim_seqs_id: "(\<And>p. p \<in> set ps \<Longrightarrow> p = [] \<or> \<not> HasPrefix s p) \<Longrightarrow> trim_seqs ps s = s"
  by (subst trim_seqs.simps) (auto split: option.split simp: find_Some_iff dest: nth_mem)

lemma trim_seqs_length: "length (trim_seqs ps s) \<le> length s"
proof (induction ps s rule: trim_seqs.induct)
  case (1 ps s)
  then show ?case by (subst trim_seqs.simps) (auto split: option.split intro: le_trans)
qed

lemma trim_seqs_fix: "length (trim_seqs ps s) = length s \<Longrightarrow> p \<in> set ps \<Longrightarrow> p \<noteq> [] \<Longrightarrow> \<not> HasPrefix s p"
proof
  assume len: "length (trim_seqs ps s) = length s" and p: "p \<in> set ps" "p \<noteq> []" "HasPrefix s p"
  then obtain q where q: "List.find (\<lambda>p. p \<noteq> [] \<and> HasPrefix s p) ps = Some q"
    by (cases "List.find (\<lambda>p. p \<noteq> [] \<and> HasPrefix s p) ps") (auto simp: find_None_iff)
  then have "q \<noteq> []" "HasPrefix s q" by (auto simp: find_Some_iff)
  then have "length (drop (length q) s) < length s" by (auto simp: HasPrefix_iff)
  moreover have "trim_seqs ps s = trim_seqs ps (drop (length q) s)"
    by (subst trim_seqs.simps) (simp add: q)
  ultimately show False using trim_seqs_length [of ps "drop (length q) s"] len by simp
qed

definition trimmed :: "string \<Rightarrow> bool" where
  "trimmed s \<longleftrightarrow> (\<forall>p \<in> set space_seqs. \<not> HasPrefix s p \<and> \<not> HasPrefix (rev s) (rev p))"

lemma space_seqs_ne: "p \<in> set space_seqs \<Longrightarrow> p \<noteq> []"
  by (auto simp: space_seqs_def)

lemma TrimSpace_trimmed: "TrimSpace s = s \<longleftrightarrow> trimmed s"
proof
  assume t: "trimmed s"
  have "trim_seqs space_seqs s = s" by (rule trim_seqs_id) (use t in \<open>auto simp: trimmed_def\<close>)
  moreover have "trim_seqs (map rev space_seqs) (rev s) = rev s"
    by (rule trim_seqs_id) (use t in \<open>auto simp: trimmed_def\<close>)
  ultimately show "TrimSpace s = s" by (simp add: TrimSpace_def)
next
  assume e: "TrimSpace s = s"
  let ?l = "trim_seqs space_seqs s"
  have "length s = length (trim_seqs (map rev space_seqs) (rev ?l))"
    using arg_cong [OF e, of length] by (simp add: TrimSpace_def)
  then have len: "length ?l = length s" "length (trim_seqs (map rev space_seqs) (rev ?l)) = length (rev ?l)"
    using trim_seqs_length [of "map rev space_seqs" "rev ?l"] trim_seqs_length [of space_seqs s] by simp_all
  then have pre: "\<not> HasPrefix s p" if "p \<in> set space_seqs" for p
    using that trim_seqs_fix space_seqs_ne by blast
  then have "?l = s" by (intro trim_seqs_id) auto
  with len(2) have "\<not> HasPrefix (rev s) (rev p)" if "p \<in> set space_seqs" for p
    using that trim_seqs_fix [of "map rev space_seqs" "rev s" "rev p"] space_seqs_ne [OF that] by simp
  with pre show "trimmed s" by (simp add: trimmed_def)
qed

definition LF :: char where
  "LF = CHR 0x0A"

lemma space_seqs_LF: "p \<in> set space_seqs \<Longrightarrow> LF \<in> set p \<Longrightarrow> p = [LF]"
  by (auto simp: space_seqs_def LF_def)

lemma LF_space: "[LF] \<in> set space_seqs"
  by (simp add: space_seqs_def LF_def)

text \<open>A trimmed line is recovered from the line with its line feed.\<close>

lemma TrimSpace_line:
  assumes t: "trimmed s" and ne: "s \<noteq> []" and lf: "LF \<notin> set s"
  shows "TrimSpace (s @ [LF]) = s"
proof -
  have "trim_seqs space_seqs (s @ [LF]) = s @ [LF]"
  proof (rule trim_seqs_id)
    fix p
    assume p: "p \<in> set space_seqs"
    have "\<not> HasPrefix (s @ [LF]) p"
    proof
      assume "HasPrefix (s @ [LF]) p"
      then obtain r where r: "s @ [LF] = p @ r" by (auto simp: HasPrefix_iff)
      then have "LF \<in> set p \<or> HasPrefix s p"
        by (cases r rule: rev_cases) (auto simp: HasPrefix_iff dest: arg_cong [of _ _ set])
      with t p have "p = [LF]" using space_seqs_LF by (auto simp: trimmed_def)
      with r ne lf show False by (cases s) auto
    qed
    then show "p = [] \<or> \<not> HasPrefix (s @ [LF]) p" by simp
  qed
  moreover have "trim_seqs (map rev space_seqs) (LF # rev s) = rev s"
  proof -
    have ex: "\<exists>q. List.find (\<lambda>p. p \<noteq> [] \<and> HasPrefix (LF # rev s) p) (map rev space_seqs) = Some q"
    proof (rule ccontr)
      assume "\<nexists>q. List.find (\<lambda>p. p \<noteq> [] \<and> HasPrefix (LF # rev s) p) (map rev space_seqs) = Some q"
      then have "List.find (\<lambda>p. p \<noteq> [] \<and> HasPrefix (LF # rev s) p) (map rev space_seqs) = None" by auto
      with LF_space show False by (auto simp: find_None_iff dest: bspec [of _ _ "[LF]"])
    qed
    then obtain q where q: "List.find (\<lambda>p. p \<noteq> [] \<and> HasPrefix (LF # rev s) p) (map rev space_seqs) = Some q"
      by blast
    have qs: "q \<in> set (map rev space_seqs)" "q \<noteq> []" "HasPrefix (LF # rev s) q"
      using find_SomeD' [OF q] by blast+
    then have "rev q \<in> set space_seqs" by (metis image_iff rev_rev_ident set_map)
    moreover have "LF \<in> set (rev q)" using qs(2,3) by (cases q) simp_all
    ultimately have "q = [LF]" using space_seqs_LF [of "rev q"] by (metis rev_rev_ident rev_singleton_conv)
    then have "trim_seqs (map rev space_seqs) (LF # rev s) = trim_seqs (map rev space_seqs) (rev s)"
      using q by (subst trim_seqs.simps) simp
    also have "\<dots> = rev s" by (rule trim_seqs_id) (use t in \<open>auto simp: trimmed_def\<close>)
    finally show ?thesis .
  qed
  ultimately show ?thesis by (simp add: TrimSpace_def)
qed

text \<open>A string is trimmed when it starts and ends with a graphic ASCII character.\<close>

definition graphic :: "char \<Rightarrow> bool" where
  "graphic c \<longleftrightarrow> (32 :: nat) < of_char c \<and> of_char c < (128 :: nat)"

lemma trimmed_ends: "s \<noteq> [] \<Longrightarrow> graphic (hd s) \<Longrightarrow> graphic (last s) \<Longrightarrow> trimmed s"
proof -
  assume s: "s \<noteq> []" "graphic (hd s)" "graphic (last s)"
  have bad: "\<not> graphic (hd p) \<and> \<not> graphic (last p)" if "p \<in> set space_seqs" for p
    using that by (auto simp: space_seqs_def graphic_def)
  have "\<not> HasPrefix s p \<and> \<not> HasPrefix (rev s) (rev p)" if p: "p \<in> set space_seqs" for p
  proof -
    have "hd p = hd s" if "HasPrefix s p"
      using that space_seqs_ne [OF p] by (auto simp: HasPrefix_iff)
    moreover have "last p = last s" if "HasPrefix (rev s) (rev p)"
    proof -
      from that obtain r where "rev s = rev p @ r" by (auto simp: HasPrefix_iff)
      then have "s = rev r @ p" by (metis rev_append rev_rev_ident)
      then show ?thesis using space_seqs_ne [OF p] by simp
    qed
    ultimately show ?thesis using s bad [OF p] by metis
  qed
  then show ?thesis by (simp add: trimmed_def)
qed

lemma digit_graphic: "digit_val c \<noteq> None \<Longrightarrow> graphic c"
  by (auto simp: digit_val_def graphic_def less_eq_char_def split: if_splits)

lemma trimmed_digits: "s \<noteq> [] \<Longrightarrow> (\<forall>c \<in> set s. c = CHR ''-'' \<or> digit_val c \<noteq> None) \<Longrightarrow> trimmed s"
proof (rule trimmed_ends)
  assume s: "s \<noteq> []" "\<forall>c \<in> set s. c = CHR ''-'' \<or> digit_val c \<noteq> None"
  have dash: "graphic (CHR ''-'')" by (simp add: graphic_def)
  have v: "graphic c" if "c \<in> set s" for c
    using s(2) that digit_graphic [of c] dash by metis
  show "graphic (hd s)" "graphic (last s)" using v s(1) by auto
qed

section \<open>Strings as bytes\<close>

definition str_bytes :: "string \<Rightarrow> bytes" where
  "str_bytes s = map (\<lambda>c. word_of_nat (of_char c)) s"

definition bytes_str :: "bytes \<Rightarrow> string" where
  "bytes_str bs = map (\<lambda>b. char_of (unat b)) bs"

lemma bytes_str_bytes [simp]: "bytes_str (str_bytes s) = s"
proof -
  have "of_char c < (256 :: nat)" for c by (rule nat_of_char_less_256)
  then show ?thesis by (simp add: bytes_str_def str_bytes_def comp_def unat_of_nat take_bit_nat_eq_self_iff)
qed

lemma str_bytes_simps [simp]: "str_bytes [] = []" "str_bytes (c # s) = word_of_nat (of_char c) # str_bytes s"
  "str_bytes (s @ t) = str_bytes s @ str_bytes t" "length (str_bytes s) = length s"
  by (simp_all add: str_bytes_def)

end
