(* ===== verification/Chunking.thy ===== *)
theory Chunking
  imports GoText
begin

text \<open>
  File chunking (\<open>core/transfer/chunk.go\<close>). SHA-256 is the parameter \<open>H\<close>. A file is its bytes;
  the reader's open file is the bytes not yet read. The chunk cache of one task is a \<open>Disk\<close>: the
  chunk files by name and the parsed resume file, which is replaced atomically (the code writes a
  temporary file and renames it). Every I/O call can fail: its outcome is an argument, and a failed
  write leaves arbitrary bytes. An index outside a slice and a negative \<open>make\<close> length are panics.
\<close>

section \<open>Layout\<close>

definition ChunkSize :: int where
  "ChunkSize = 4194304"

record Manifest =
  mf_TaskID :: string
  mf_FileName :: string
  mf_TotalSize :: int
  mf_ChunkCount :: int
  mf_ChunkHashes :: "string list"

datatype ChunkError = ErrChunkIndex | ErrChunkHash | ErrChunkSizeWrong | ErrIncomplete
  | ErrAssembledSize | ErrIO | EOF

datatype 'a outcome = Ret 'a | Fail ChunkError | Panic

definition ChunkCount :: "int \<Rightarrow> int" where
  "ChunkCount sz = (if sz \<le> 0 then 0
    else go_div (wrap64 (wrap64 (sz + ChunkSize) - 1)) ChunkSize)"

definition ChunkHashHex :: "(bytes \<Rightarrow> bytes) \<Rightarrow> bytes \<Rightarrow> string" where
  "ChunkHashHex H data = EncodeToString (H data)"

definition chunkFileName :: "int \<Rightarrow> string" where
  "chunkFileName idx = ''chunk_'' @ Itoa idx"

section \<open>The sender's reader\<close>

record ChunkReader =
  cr_rest :: bytes
  cr_idx :: int
  cr_remaining :: int
  cr_total :: int

record ChunkResult =
  ck_Idx :: int
  ck_Data :: bytes
  ck_Sha256 :: string

text \<open>\<open>sz\<close> is what \<open>Stat\<close> reported when the file was opened; \<open>content\<close> what later reads see.\<close>

definition reader_on :: "int \<Rightarrow> bytes \<Rightarrow> ChunkReader" where
  "reader_on sz content =
    \<lparr>cr_rest = content, cr_idx = 0, cr_remaining = sz, cr_total = sz\<rparr>"

text \<open>Opening and \<open>Stat\<close> can fail (\<open>None\<close>).\<close>

definition NewChunkReader :: "(int \<times> bytes) option \<Rightarrow> ChunkError + ChunkReader" where
  "NewChunkReader file = (case file of
      None \<Rightarrow> Inl ErrIO | Some (sz, content) \<Rightarrow> Inr (reader_on sz content))"

text \<open>\<open>io.ReadFull\<close> of \<open>n\<close> bytes: all of them, or an error when the file is shorter.\<close>

definition ReadFull :: "int \<Rightarrow> bytes \<Rightarrow> (bytes \<times> bytes) option" where
  "ReadFull n bs = (if int (length bs) < n then None else Some (take (nat n) bs, drop (nat n) bs))"

definition Reader_Next :: "(bytes \<Rightarrow> bytes) \<Rightarrow> ChunkReader \<Rightarrow> ChunkError + ChunkResult \<times> ChunkReader" where
  "Reader_Next H r =
    (if cr_remaining r \<le> 0 then Inl EOF
     else let n = (if ChunkSize > cr_remaining r then cr_remaining r else ChunkSize) in
       (case ReadFull n (cr_rest r) of
          None \<Rightarrow> Inl ErrIO
        | Some (data, rest) \<Rightarrow>
            Inr (\<lparr>ck_Idx = cr_idx r, ck_Data = data, ck_Sha256 = ChunkHashHex H data\<rparr>,
              r\<lparr>cr_rest := rest, cr_idx := cr_idx r + 1, cr_remaining := cr_remaining r - n\<rparr>)))"

text \<open>The loop of \<open>BuildManifest\<close>: the hashes of the chunks from the reader's position on.\<close>

function manifest_hashes :: "(bytes \<Rightarrow> bytes) \<Rightarrow> int \<Rightarrow> bytes \<Rightarrow> (string list) option" where
  "manifest_hashes H remaining rest =
    (let n = (if ChunkSize > remaining then remaining else ChunkSize) in
     if n \<le> 0 then Some []
     else (case ReadFull n rest of
         None \<Rightarrow> None
       | Some (data, rest') \<Rightarrow>
           map_option (\<lambda>hs. ChunkHashHex H data # hs) (manifest_hashes H (remaining - n) rest')))"
  by pat_completeness auto
termination
  by (relation "measure (\<lambda>(H, remaining, rest). nat remaining)")
    (auto simp: ChunkSize_def split: if_splits)

declare manifest_hashes.simps [simp del]

definition BuildManifest ::
  "(bytes \<Rightarrow> bytes) \<Rightarrow> string \<Rightarrow> string \<Rightarrow> ChunkReader \<Rightarrow> Manifest outcome" where
  "BuildManifest H taskID fileName r =
    (if ChunkCount (cr_total r) < 0 then Panic
     else (case manifest_hashes H (cr_remaining r) (cr_rest r) of
         None \<Rightarrow> Fail ErrIO
       | Some hs \<Rightarrow> Ret \<lparr>mf_TaskID = taskID, mf_FileName = fileName, mf_TotalSize = cr_total r,
           mf_ChunkCount = int (length hs), mf_ChunkHashes = hs\<rparr>))"

text \<open>The sending loop: \<open>Next\<close> until it reports \<open>EOF\<close>.\<close>

function read_all :: "(bytes \<Rightarrow> bytes) \<Rightarrow> ChunkReader \<Rightarrow> ChunkError + ChunkResult list" where
  "read_all H r = (case Reader_Next H r of
      Inl e \<Rightarrow> (if e = EOF then Inr [] else Inl e)
    | Inr (c, r') \<Rightarrow> (case read_all H r' of Inl e \<Rightarrow> Inl e | Inr cs \<Rightarrow> Inr (c # cs)))"
  by pat_completeness auto
termination
  by (relation "measure (\<lambda>(H, r). nat (cr_remaining r))")
    (auto simp: Reader_Next_def ChunkSize_def Let_def split: if_splits option.splits)

declare read_all.simps [simp del]

section \<open>The receiver's writer\<close>

record chunkMetaFile =
  cm_Manifest :: Manifest
  cm_Received :: "bool list"

record Disk =
  dk_files :: "(string, bytes) gomap"
  dk_meta :: "chunkMetaFile option"

record ChunkWriter =
  cw_manifest :: Manifest
  cw_received :: "bool list"
  cw_receivedN :: int

definition loadMeta :: "Disk \<Rightarrow> ChunkWriter \<Rightarrow> ChunkWriter" where
  "loadMeta dk cw = (case dk_meta dk of
      None \<Rightarrow> cw
    | Some m \<Rightarrow>
        if mf_TaskID (cm_Manifest m) = mf_TaskID (cw_manifest cw) \<and>
           length (cm_Received m) = length (cw_received cw)
        then cw\<lparr>cw_received := cm_Received m,
                cw_receivedN := cw_receivedN cw + int (length (filter id (cm_Received m)))\<rparr>
        else cw)"

definition NewChunkWriter :: "bool \<Rightarrow> Disk \<Rightarrow> Manifest \<Rightarrow> ChunkWriter outcome" where
  "NewChunkWriter mkdir_ok dk mf =
    (if \<not> mkdir_ok then Fail ErrIO
     else if mf_ChunkCount mf < 0 then Panic
     else Ret (loadMeta dk \<lparr>cw_manifest = mf,
       cw_received = replicate (nat (mf_ChunkCount mf)) False, cw_receivedN = 0\<rparr>))"

definition saveMeta :: "bool \<Rightarrow> ChunkWriter \<Rightarrow> Disk \<Rightarrow> Disk" where
  "saveMeta ok cw dk =
    (if ok then dk\<lparr>dk_meta := Some \<lparr>cm_Manifest = cw_manifest cw, cm_Received = cw_received cw\<rparr>\<rparr>
     else dk)"

definition IsReceived :: "int \<Rightarrow> ChunkWriter \<Rightarrow> bool" where
  "IsReceived idx cw =
    (if idx < 0 \<or> int (length (cw_received cw)) \<le> idx then False else cw_received cw ! nat idx)"

definition ReceivedCount :: "ChunkWriter \<Rightarrow> int" where
  "ReceivedCount cw = cw_receivedN cw"

definition expectedSize :: "Manifest \<Rightarrow> int \<Rightarrow> int" where
  "expectedSize mf idx =
    (let rem = wrap64 (mf_TotalSize mf - wrap64 (idx * ChunkSize)) in
     if idx = mf_ChunkCount mf - 1 \<and> 0 < rem then rem else ChunkSize)"

text \<open>\<open>io\<close> says how the two writes end: \<open>None\<close> when the chunk file is written whole, \<open>Some junk\<close>
  when \<open>os.WriteFile\<close> fails and leaves \<open>junk\<close>; \<open>meta_ok\<close> whether the resume file is replaced.\<close>

definition WriteChunk ::
  "(bytes \<Rightarrow> bytes) \<Rightarrow> bytes option \<Rightarrow> bool \<Rightarrow> int \<Rightarrow> bytes \<Rightarrow> ChunkWriter \<times> Disk
    \<Rightarrow> unit outcome \<times> ChunkWriter \<times> Disk" where
  "WriteChunk H io meta_ok idx data s = (let (cw, dk) = s; mf = cw_manifest cw in
     if idx < 0 \<or> mf_ChunkCount mf \<le> idx then (Fail ErrChunkIndex, s)
     else if int (length (cw_received cw)) \<le> idx then (Panic, s)
     else if cw_received cw ! nat idx then (Ret (), s)
     else if int (length (mf_ChunkHashes mf)) \<le> idx then (Panic, s)
     else if ChunkHashHex H data \<noteq> mf_ChunkHashes mf ! nat idx then (Fail ErrChunkHash, s)
     else if int (length data) \<noteq> expectedSize mf idx then (Fail ErrChunkSizeWrong, s)
     else (case io of
         Some junk \<Rightarrow> (Fail ErrIO, cw, dk\<lparr>dk_files := gput (chunkFileName idx) junk (dk_files dk)\<rparr>)
       | None \<Rightarrow>
           let cw' = cw\<lparr>cw_received := (cw_received cw)[nat idx := True],
                        cw_receivedN := cw_receivedN cw + 1\<rparr>;
               dk' = dk\<lparr>dk_files := gput (chunkFileName idx) data (dk_files dk)\<rparr>
           in (if meta_ok then Ret () else Fail ErrIO, cw', saveMeta meta_ok cw' dk')))"

text \<open>The copy loop of \<open>Assemble\<close>: chunk files \<open>i, i + 1, ...\<close> up to the count, concatenated.\<close>

fun copy_chunks :: "(string, bytes) gomap \<Rightarrow> int list \<Rightarrow> bytes option" where
  "copy_chunks fs [] = Some []"
| "copy_chunks fs (i # is) = (case map_of fs (chunkFileName i) of
      None \<Rightarrow> None
    | Some b \<Rightarrow> map_option (\<lambda>bs. b @ bs) (copy_chunks fs is))"

text \<open>\<open>Assemble\<close> returns the bytes of the destination file; \<open>io_ok\<close> says whether making its
  directory, creating it, the copying and the final \<open>Sync\<close> succeed.\<close>

definition Assemble :: "bool \<Rightarrow> ChunkWriter \<times> Disk \<Rightarrow> ChunkError + bytes" where
  "Assemble io_ok s = (let (cw, dk) = s; mf = cw_manifest cw in
     if cw_receivedN cw \<noteq> mf_ChunkCount mf then Inl ErrIncomplete
     else if \<not> io_ok then Inl ErrIO
     else (case copy_chunks (dk_files dk) [0..mf_ChunkCount mf - 1] of
         None \<Rightarrow> Inl ErrIO
       | Some out \<Rightarrow>
           if wrap64 (int (length out)) \<noteq> mf_TotalSize mf then Inl ErrAssembledSize else Inr out))"

definition Cleanup :: "Disk \<Rightarrow> Disk" where
  "Cleanup dk = \<lparr>dk_files = [], dk_meta = None\<rparr>"

section \<open>Chunks of a file\<close>

definition chunk_len :: nat where
  "chunk_len = nat ChunkSize"

lemma chunk_len: "0 < chunk_len" "int chunk_len = ChunkSize" "nat ChunkSize = chunk_len"
  by (simp_all add: chunk_len_def ChunkSize_def)

fun chunks :: "bytes \<Rightarrow> bytes list" where
  "chunks f = (if f = [] \<or> chunk_len = 0 then [] else take chunk_len f # chunks (drop chunk_len f))"

declare chunks.simps [simp del]

lemma chunks_Nil [simp]: "chunks [] = []"
  by (simp add: chunks.simps)

lemma chunks_step: "f \<noteq> [] \<Longrightarrow> chunks f = take chunk_len f # chunks (drop chunk_len f)"
  using chunk_len by (subst chunks.simps) auto

lemma concat_chunks: "concat (chunks f) = f"
proof (induction f rule: chunks.induct)
  case (1 f)
  then show ?case using chunk_len by (cases "f = []") (simp_all add: chunks_step)
qed

lemma length_chunks: "length (chunks f) = (length f + chunk_len - 1) div chunk_len"
proof (induction f rule: chunks.induct)
  case (1 f)
  show ?case
  proof (cases "f = []")
    case True
    then show ?thesis using chunk_len by simp
  next
    case False
    with 1 chunk_len have IH: "length (chunks (drop chunk_len f)) =
        (length f - chunk_len + chunk_len - 1) div chunk_len" by simp
    show ?thesis
    proof (cases "length f \<le> chunk_len")
      case True
      have "(length f + chunk_len - 1) div chunk_len = 1"
        using False True chunk_len by (intro div_nat_eqI) (cases f, auto)
      with False True show ?thesis by (simp add: chunks_step)
    next
      case long: False
      have "(length f + chunk_len - 1) = (length f - 1) + chunk_len"
        using False by (cases f) auto
      then have "(length f + chunk_len - 1) div chunk_len = Suc ((length f - 1) div chunk_len)"
        using chunk_len(1) div_add_self2 [of chunk_len "length f - 1"] by (metis Suc_eq_plus1 less_numeral_extra(3))
      moreover have "length f - chunk_len + chunk_len - 1 = length f - 1" using long by simp
      then have "length (chunks (drop chunk_len f)) = (length f - 1) div chunk_len"
        using IH by metis
      ultimately show ?thesis using False by (simp add: chunks_step)
    qed
  qed
qed

lemma chunks_nth: "i < length (chunks f) \<Longrightarrow> chunks f ! i = take chunk_len (drop (i * chunk_len) f)"
proof (induction f arbitrary: i rule: chunks.induct)
  case (1 f)
  then show ?case using chunk_len by (cases "f = []"; cases i) (auto simp: chunks_step add.commute)
qed

lemma chunks_bound: "i < length (chunks f) \<Longrightarrow> i * chunk_len < length f"
proof (induction f arbitrary: i rule: chunks.induct)
  case (1 f)
  show ?case
  proof (cases i)
    case 0
    with "1.prems" show ?thesis by (cases f) auto
  next
    case (Suc j)
    with 1 chunk_len show ?thesis by (cases "f = []") (fastforce simp: chunks_step)+
  qed
qed

definition fits :: "bytes \<Rightarrow> bool" where
  "fits f \<longleftrightarrow> int (length f) < 2 ^ 63 - ChunkSize"

lemma ChunkCount_exact:
  assumes "0 \<le> n" "n < 2 ^ 63 - ChunkSize"
  shows "ChunkCount n = (n + ChunkSize - 1) div ChunkSize"
proof (cases "n \<le> 0")
  case True
  with assms show ?thesis by (simp add: ChunkCount_def ChunkSize_def)
next
  case False
  then have "in64 (n + ChunkSize)" "in64 (n + ChunkSize - 1)"
    using assms by (simp_all add: in64_def ChunkSize_def)
  with False show ?thesis by (simp add: ChunkCount_def ChunkSize_def)
qed

lemma ChunkCount_chunks: "fits f \<Longrightarrow> ChunkCount (int (length f)) = int (length (chunks f))"
  using chunk_len by (simp add: fits_def ChunkCount_exact length_chunks of_nat_diff zdiv_int)

lemma chunk_size_expected:
  assumes f: "fits f" and i: "i < length (chunks f)"
    and mf: "mf_TotalSize mf = int (length f)" "mf_ChunkCount mf = int (length (chunks f))"
  shows "int (length (chunks f ! i)) = expectedSize mf (int i)"
proof -
  have b: "i * chunk_len < length f" by (rule chunks_bound [OF i])
  then have b': "int i * ChunkSize < int (length f)" using chunk_len(2) by (metis of_nat_less_iff of_nat_mult)
  have w: "in64 (int i * ChunkSize)" "in64 (int (length f) - int i * ChunkSize)"
    using b' f by (auto simp: in64_def fits_def ChunkSize_def)
  have len: "length (chunks f ! i) = min chunk_len (length f - i * chunk_len)"
    by (simp add: chunks_nth [OF i])
  have last: "length f - i * chunk_len \<le> chunk_len \<longleftrightarrow> i = length (chunks f) - 1"
  proof -
    have "i < length (chunks f) - 1 \<longleftrightarrow> Suc i * chunk_len < length f"
    proof
      assume "i < length (chunks f) - 1"
      then show "Suc i * chunk_len < length f" using chunks_bound [of "Suc i" f] by simp
    next
      assume "Suc i * chunk_len < length f"
      then have "Suc i * chunk_len \<le> length f - 1" by simp
      then have "Suc i \<le> (length f - 1) div chunk_len"
        using chunk_len by (simp add: less_eq_div_iff_mult_less_eq)
      moreover have "length (chunks f) = Suc ((length f - 1) div chunk_len)"
      proof -
        have eq: "length f + chunk_len - 1 = (length f - 1) + chunk_len" using b by simp
        have "chunk_len \<noteq> 0" using chunk_len(1) by simp
        then have "(length f - 1 + chunk_len) div chunk_len = (length f - 1) div chunk_len + 1" by (rule div_add_self2)
        then show ?thesis by (simp only: length_chunks eq Suc_eq_plus1)
      qed
      ultimately show "i < length (chunks f) - 1" by simp
    qed
    with i show ?thesis using b by auto
  qed
  show ?thesis
  proof (cases "i = length (chunks f) - 1")
    case True
    with last i b b' w len mf chunk_len show ?thesis
      by (auto simp: expectedSize_def of_nat_diff)
  next
    case False
    with last i b b' w len mf chunk_len show ?thesis
      by (auto simp: expectedSize_def)
  qed
qed

section \<open>Reading\<close>

lemma chunk_step_len: "f \<noteq> [] \<Longrightarrow>
    (if ChunkSize > int (length f) then int (length f) else ChunkSize) = int (min chunk_len (length f))"
  using chunk_len(2) by (simp add: min_def)

lemma ReadFull_chunk: "ReadFull (int (min chunk_len (length f))) f =
    Some (take chunk_len f, drop chunk_len f)"
  by (simp add: ReadFull_def min_def)

lemma remaining_step: "int (length f) - int (min chunk_len (length f)) = int (length (drop chunk_len f))"
  by (simp add: min_def of_nat_diff)

lemma manifest_hashes_chunks:
  "manifest_hashes H (int (length f)) f = Some (map (ChunkHashHex H) (chunks f))"
proof (induction f rule: chunks.induct)
  case (1 f)
  show ?case
  proof (cases "f = []")
    case True
    then show ?thesis by (simp add: manifest_hashes.simps)
  next
    case False
    with chunk_len(1) have pos: "\<not> int (min chunk_len (length f)) \<le> 0" by (simp add: min_def)
    from False chunk_len(1) have "manifest_hashes H (int (length (drop chunk_len f))) (drop chunk_len f) =
        Some (map (ChunkHashHex H) (chunks (drop chunk_len f)))" by (intro "1.IH") simp
    then show ?thesis
      by (subst manifest_hashes.simps, unfold chunk_step_len [OF False] Let_def ReadFull_chunk
          remaining_step if_not_P [OF pos]) (simp add: chunks_step [OF False])
  qed
qed

definition manifest_of :: "(bytes \<Rightarrow> bytes) \<Rightarrow> string \<Rightarrow> string \<Rightarrow> bytes \<Rightarrow> Manifest" where
  "manifest_of H tid name f = \<lparr>mf_TaskID = tid, mf_FileName = name, mf_TotalSize = int (length f),
     mf_ChunkCount = int (length (chunks f)), mf_ChunkHashes = map (ChunkHashHex H) (chunks f)\<rparr>"

lemma BuildManifest_of: "fits f \<Longrightarrow>
    BuildManifest H tid name (reader_on (int (length f)) f) = Ret (manifest_of H tid name f)"
  by (simp add: BuildManifest_def reader_on_def manifest_hashes_chunks manifest_of_def
      ChunkCount_chunks)

definition results_from :: "(bytes \<Rightarrow> bytes) \<Rightarrow> int \<Rightarrow> bytes list \<Rightarrow> ChunkResult list" where
  "results_from H i cs = map (\<lambda>(j, d). \<lparr>ck_Idx = i + int j, ck_Data = d, ck_Sha256 = ChunkHashHex H d\<rparr>)
     (enumerate 0 cs)"

lemma results_from_Cons: "results_from H i (c # cs) =
    \<lparr>ck_Idx = i, ck_Data = c, ck_Sha256 = ChunkHashHex H c\<rparr> # results_from H (i + 1) cs"
  by (auto simp: results_from_def enumerate_Suc_eq enumerate_simps(2) case_prod_beta)

lemma read_all_from:
  "read_all H \<lparr>cr_rest = f, cr_idx = i, cr_remaining = int (length f), cr_total = t\<rparr> =
    Inr (results_from H i (chunks f))"
proof (induction f arbitrary: i rule: chunks.induct)
  case (1 f)
  show ?case
  proof (cases "f = []")
    case True
    then show ?thesis by (simp add: read_all.simps Reader_Next_def results_from_def)
  next
    case False
    let ?n = "int (min chunk_len (length f))"
    from False have pos: "\<not> int (length f) \<le> 0" by simp
    have "Reader_Next H \<lparr>cr_rest = f, cr_idx = i, cr_remaining = int (length f), cr_total = t\<rparr> =
      Inr (\<lparr>ck_Idx = i, ck_Data = take chunk_len f, ck_Sha256 = ChunkHashHex H (take chunk_len f)\<rparr>,
        \<lparr>cr_rest = drop chunk_len f, cr_idx = i + 1,
         cr_remaining = int (length (drop chunk_len f)), cr_total = t\<rparr>)"
      by (simp only: Reader_Next_def ChunkReader.simps if_not_P [OF pos] Let_def
          chunk_step_len [OF False] ReadFull_chunk option.case prod.case remaining_step
          ChunkReader.update_convs)
    moreover have "read_all H \<lparr>cr_rest = drop chunk_len f, cr_idx = i + 1,
         cr_remaining = int (length (drop chunk_len f)), cr_total = t\<rparr> =
      Inr (results_from H (i + 1) (chunks (drop chunk_len f)))"
      using False chunk_len(1) by (intro "1.IH") simp
    ultimately show ?thesis
      by (subst read_all.simps) (simp only: sum.case prod.case chunks_step [OF False] results_from_Cons)
  qed
qed

section \<open>Writing\<close>

datatype wop = Write "bytes option" bool int bytes | Restart

fun wstep :: "(bytes \<Rightarrow> bytes) \<Rightarrow> Manifest \<Rightarrow> wop \<Rightarrow> ChunkWriter \<times> Disk \<Rightarrow> ChunkWriter \<times> Disk" where
  "wstep H mf (Write io meta_ok idx data) s = snd (WriteChunk H io meta_ok idx data s)"
| "wstep H mf Restart s = (case NewChunkWriter True (snd s) mf of
      Ret cw \<Rightarrow> (cw, snd s) | _ \<Rightarrow> s)"

definition wrun :: "(bytes \<Rightarrow> bytes) \<Rightarrow> Manifest \<Rightarrow> wop list \<Rightarrow> ChunkWriter \<times> Disk \<Rightarrow> ChunkWriter \<times> Disk" where
  "wrun H mf ops s = fold (wstep H mf) ops s"

definition fresh :: "Manifest \<Rightarrow> ChunkWriter \<times> Disk" where
  "fresh mf = (\<lparr>cw_manifest = mf, cw_received = replicate (nat (mf_ChunkCount mf)) False,
     cw_receivedN = 0\<rparr>, \<lparr>dk_files = [], dk_meta = None\<rparr>)"

lemma fresh_New: "0 \<le> mf_ChunkCount mf \<Longrightarrow>
    NewChunkWriter True \<lparr>dk_files = [], dk_meta = None\<rparr> mf = Ret (fst (fresh mf))"
  by (simp add: NewChunkWriter_def loadMeta_def fresh_def)

definition cached :: "bytes \<Rightarrow> Disk \<Rightarrow> nat \<Rightarrow> bool" where
  "cached f dk i \<longleftrightarrow> map_of (dk_files dk) (chunkFileName (int i)) = Some (chunks f ! i)"

definition writer_inv :: "bytes \<Rightarrow> Manifest \<Rightarrow> ChunkWriter \<times> Disk \<Rightarrow> bool" where
  "writer_inv f mf s \<longleftrightarrow>
     cw_manifest (fst s) = mf \<and> length (cw_received (fst s)) = length (chunks f) \<and>
     cw_receivedN (fst s) = int (length (filter id (cw_received (fst s)))) \<and>
     (\<forall>i < length (chunks f). cw_received (fst s) ! i \<longrightarrow> cached f (snd s) i) \<and>
     (\<forall>m. dk_meta (snd s) = Some m \<longrightarrow> mf_TaskID (cm_Manifest m) = mf_TaskID mf \<and>
        length (cm_Received m) = length (chunks f) \<and>
        (\<forall>i < length (chunks f). cm_Received m ! i \<longrightarrow> cw_received (fst s) ! i))"

definition collision_free :: "(bytes \<Rightarrow> bytes) \<Rightarrow> bytes \<Rightarrow> wop list \<Rightarrow> bool" where
  "collision_free H f ops \<longleftrightarrow> (\<forall>io mk i data. Write io mk (int i) data \<in> set ops \<longrightarrow> i < length (chunks f) \<longrightarrow>
     H data = H (chunks f ! i) \<longrightarrow> data = chunks f ! i)"

lemma count_update: "i < length bs \<Longrightarrow> \<not> bs ! i \<Longrightarrow>
    length (filter id (bs[i := True])) = Suc (length (filter id bs))"
  by (induction bs arbitrary: i) (auto split: nat.splits)

lemma count_full: "length (filter id bs) = length bs \<longleftrightarrow> (\<forall>i < length bs. bs ! i)"
proof -
  have "length (filter id bs) = length bs \<longleftrightarrow> (\<forall>b \<in> set bs. b)"
    using filter_id_conv [of id bs] by (metis id_apply length_filter_less nat_less_le)
  then show ?thesis by (simp add: all_set_conv_all_nth)
qed

lemma chunkFileName_inj: "fits f \<Longrightarrow> i < length (chunks f) \<Longrightarrow> j < length (chunks f) \<Longrightarrow>
    chunkFileName (int i) = chunkFileName (int j) \<Longrightarrow> i = j"
proof -
  assume f: "fits f" and i: "i < length (chunks f)" "j < length (chunks f)"
    and eq: "chunkFileName (int i) = chunkFileName (int j)"
  have "in64 (int k)" if "k < length (chunks f)" for k
  proof -
    have "k * 1 \<le> k * chunk_len" using chunk_len(1) by (intro mult_le_mono2) simp
    with chunks_bound [OF that] have "k < length f" by linarith
    with f show ?thesis by (simp add: fits_def in64_def ChunkSize_def)
  qed
  with i eq Itoa_inj [of "int i" "int j"] show ?thesis by (simp add: chunkFileName_def)
qed

lemma inv_fresh: "writer_inv f (manifest_of H tid name f) (fresh (manifest_of H tid name f))"
  by (simp add: writer_inv_def fresh_def manifest_of_def)

lemma inv_Restart: "writer_inv f (manifest_of H tid name f) s \<Longrightarrow>
    writer_inv f (manifest_of H tid name f) (wstep H' (manifest_of H tid name f) Restart s)"
  by (auto simp: writer_inv_def NewChunkWriter_def loadMeta_def manifest_of_def
      split: option.split)

lemma WriteChunk_cases [consumes 3, case_names same fill]:
  assumes inv: "writer_inv f (manifest_of H tid name f) s" and f: "fits f"
    and nc: "\<forall>i < length (chunks f). idx = int i \<longrightarrow> H data = H (chunks f ! i) \<longrightarrow> data = chunks f ! i"
  obtains "snd (WriteChunk H io mk idx data s) = s"
    | i where "idx = int i" "i < length (chunks f)" "\<not> cw_received (fst s) ! i" "data = chunks f ! i"
      "WriteChunk H io mk idx data s = (case io of
         Some junk \<Rightarrow> (Fail ErrIO, fst s, (snd s)\<lparr>dk_files := gput (chunkFileName idx) junk (dk_files (snd s))\<rparr>)
       | None \<Rightarrow> let cw' = (fst s)\<lparr>cw_received := (cw_received (fst s))[i := True],
                        cw_receivedN := cw_receivedN (fst s) + 1\<rparr>
           in (if mk then Ret () else Fail ErrIO, cw',
               saveMeta mk cw' ((snd s)\<lparr>dk_files := gput (chunkFileName idx) data (dk_files (snd s))\<rparr>)))"
proof -
  let ?mf = "manifest_of H tid name f"
  have len: "length (cw_received (fst s)) = length (chunks f)" and mf: "cw_manifest (fst s) = ?mf"
    using inv by (simp_all add: writer_inv_def)
  have count: "mf_ChunkCount ?mf = int (length (chunks f))" by (simp add: manifest_of_def)
  have hash: "mf_ChunkHashes ?mf = map (ChunkHashHex H) (chunks f)" by (simp add: manifest_of_def)
  show thesis
  proof (cases "idx < 0 \<or> int (length (chunks f)) \<le> idx")
    case True
    then show thesis by (intro that(1)) (auto simp: WriteChunk_def case_prod_beta Let_def mf count)
  next
    case False
    define i where "i = nat idx"
    with False have i: "idx = int i" "i < length (chunks f)" by auto
    have "\<not> length (chunks f) \<le> i" using i by simp
    note W = WriteChunk_def case_prod_beta Let_def mf count hash len i this
    show thesis
    proof (cases "cw_received (fst s) ! i \<or> ChunkHashHex H data \<noteq> ChunkHashHex H (chunks f ! i)")
      case True
      with i show thesis by (intro that(1)) (elim disjE; simp add: W)
    next
      case ok: False
      with nc i have data: "data = chunks f ! i" by (simp add: ChunkHashHex_def EncodeToString_inj)
      have "int (length data) = expectedSize ?mf (int i)"
        unfolding data by (rule chunk_size_expected [OF f i(2)]) (simp_all add: manifest_of_def)
      with ok i data show thesis by (intro that(2) [OF i _ data]) (auto simp: W split: option.split)
    qed
  qed
qed

lemma inv_Write:
  assumes inv: "writer_inv f (manifest_of H tid name f) s" and f: "fits f"
    and nc: "\<forall>i < length (chunks f). idx = int i \<longrightarrow> H data = H (chunks f ! i) \<longrightarrow> data = chunks f ! i"
  shows "writer_inv f (manifest_of H tid name f) (snd (WriteChunk H io mk idx data s))"
  using inv f nc
proof (cases rule: WriteChunk_cases [where io = io and mk = mk and idx = idx and data = data])
  case same
  with inv show ?thesis by simp
next
  case (fill i)
  have kept: "cached f (dk\<lparr>dk_files := gput (chunkFileName idx) b (dk_files dk)\<rparr>) j"
    if "j < length (chunks f)" "j \<noteq> i" "cached f dk j" for dk j b
    using that fill(1,2) chunkFileName_inj [OF f, of i j] by (auto simp: cached_def map_of_gput)
  show ?thesis
  proof (cases io)
    case (Some junk)
    with fill(3) inv kept show ?thesis unfolding fill(5) by (auto simp: writer_inv_def)
  next
    case None
    have new: "cached f (dk\<lparr>dk_files := gput (chunkFileName idx) data (dk_files dk)\<rparr>) i" for dk
      by (simp add: cached_def map_of_gput fill(1,4))
    with None fill(2,3) inv kept show ?thesis
      unfolding fill(5) by (auto simp: writer_inv_def Let_def saveMeta_def count_update nth_list_update cached_def)
  qed
qed

lemma inv_run:
  assumes f: "fits f"
  shows "collision_free H f ops \<Longrightarrow> writer_inv f (manifest_of H tid name f) s \<Longrightarrow>
    writer_inv f (manifest_of H tid name f) (wrun H (manifest_of H tid name f) ops s)"
proof (induction ops arbitrary: s)
  case (Cons op ops)
  have "writer_inv f (manifest_of H tid name f) (wstep H (manifest_of H tid name f) op s)"
  proof (cases op)
    case (Write io mk idx data)
    have "\<forall>i < length (chunks f). idx = int i \<longrightarrow> H data = H (chunks f ! i) \<longrightarrow> data = chunks f ! i"
      using Cons.prems(1) by (auto simp: collision_free_def Write)
    then show ?thesis using inv_Write [OF Cons.prems(2) f] by (simp add: Write)
  next
    case Restart
    then show ?thesis using inv_Restart [OF Cons.prems(2)] by simp
  qed
  moreover have "collision_free H f ops" using Cons.prems(1) by (auto simp: collision_free_def)
  ultimately show ?case using Cons.IH by (simp add: wrun_def)
qed (simp add: wrun_def)

lemma copy_all: "(\<And>i. i \<in> set is \<Longrightarrow> map_of fs (chunkFileName i) = Some (g i)) \<Longrightarrow>
    copy_chunks fs is = Some (concat (map g is))"
  by (induction "is") auto

lemma map_chunks_upto: "map (\<lambda>i. xs ! nat i) [0..int (length xs) - 1] = xs"
  by (rule nth_equalityI) auto

lemma Assemble_inv:
  assumes inv: "writer_inv f (manifest_of H tid name f) s" and f: "fits f"
  shows "Assemble True s =
    (if \<forall>i < length (chunks f). cw_received (fst s) ! i then Inr f else Inl ErrIncomplete)"
proof -
  from inv have len: "length (cw_received (fst s)) = length (chunks f)"
    and mf: "cw_manifest (fst s) = manifest_of H tid name f"
    and n: "cw_receivedN (fst s) = int (length (filter id (cw_received (fst s))))"
    by (simp_all add: writer_inv_def)
  have full: "cw_receivedN (fst s) = mf_ChunkCount (manifest_of H tid name f) \<longleftrightarrow>
      (\<forall>i < length (chunks f). cw_received (fst s) ! i)"
    using count_full [of "cw_received (fst s)"] by (simp add: n len manifest_of_def)
  have w: "wrap64 (int (length f)) = int (length f)"
    using f by (simp add: fits_def in64_def ChunkSize_def)
  show ?thesis
  proof (cases "\<forall>i < length (chunks f). cw_received (fst s) ! i")
    case False
    with full show ?thesis by (auto simp: Assemble_def case_prod_beta Let_def mf)
  next
    case True
    with inv have "\<forall>i < length (chunks f). cached f (snd s) i" by (simp add: writer_inv_def)
    then have "copy_chunks (dk_files (snd s)) [0..int (length (chunks f)) - 1] =
        Some (concat (map (\<lambda>i. chunks f ! nat i) [0..int (length (chunks f)) - 1]))"
      by (intro copy_all) (auto simp: cached_def, metis int_nat_eq nat_less_iff)
    then have "copy_chunks (dk_files (snd s)) [0..int (length (chunks f)) - 1] = Some f"
      by (simp add: map_chunks_upto concat_chunks)
    with True full w show ?thesis
      by (simp add: Assemble_def case_prod_beta Let_def mf) (simp add: mf manifest_of_def)
  qed
qed

lemma IsReceived_iff: "length (cw_received cw) = n \<Longrightarrow>
    (\<forall>i. 0 \<le> i \<and> i < int n \<longrightarrow> IsReceived i cw) \<longleftrightarrow> (\<forall>i < n. cw_received cw ! i)"
  by (auto simp: IsReceived_def dest: spec [of _ "int _"])

lemma write_sets:
  assumes inv: "writer_inv f (manifest_of H tid name f) s" and f: "fits f" and i: "i < length (chunks f)"
  shows "cw_received (fst (wstep H (manifest_of H tid name f)
      (Write None mk (int i) (chunks f ! i)) s)) = (cw_received (fst s))[i := True]"
proof -
  have len: "length (cw_received (fst s)) = length (chunks f)" using inv by (simp add: writer_inv_def)
  have mf: "cw_manifest (fst s) = manifest_of H tid name f" using inv by (simp add: writer_inv_def)
  have "int (length (chunks f ! i)) = expectedSize (manifest_of H tid name f) (int i)"
    by (rule chunk_size_expected [OF f i]) (simp_all add: manifest_of_def)
  moreover have "(cw_received (fst s))[i := True] = cw_received (fst s)" if "cw_received (fst s) ! i"
    using that by (metis (full_types) list_update_id)
  ultimately show ?thesis using i len
    by (auto simp: WriteChunk_def case_prod_beta Let_def mf) (simp_all add: manifest_of_def)
qed

lemma run_all_received:
  assumes f: "fits f"
  shows "writer_inv f (manifest_of H tid name f) s \<Longrightarrow> (\<And>i. i \<in> set is \<Longrightarrow> i < length (chunks f)) \<Longrightarrow>
    j \<in> set is \<or> cw_received (fst s) ! j \<Longrightarrow> j < length (chunks f) \<Longrightarrow>
    cw_received (fst (wrun H (manifest_of H tid name f)
      (map (\<lambda>i. Write None True (int i) (chunks f ! i)) is) s)) ! j"
proof (induction "is" arbitrary: s)
  case (Cons i "is")
  let ?op = "Write None True (int i) (chunks f ! i)"
  have inv: "writer_inv f (manifest_of H tid name f) (wstep H (manifest_of H tid name f) ?op s)"
    using inv_Write [OF Cons.prems(1) f] by simp
  have len: "length (cw_received (fst s)) = length (chunks f)"
    using Cons.prems(1) by (simp add: writer_inv_def)
  have "cw_received (fst (wstep H (manifest_of H tid name f) ?op s)) = (cw_received (fst s))[i := True]"
    using write_sets [OF Cons.prems(1) f] Cons.prems(2) by simp
  with len Cons.prems have "j \<in> set is \<or>
      cw_received (fst (wstep H (manifest_of H tid name f) ?op s)) ! j"
    by (auto simp: nth_list_update)
  from Cons.IH [OF inv _ this Cons.prems(4)] Cons.prems(2) show ?case by (simp add: wrun_def)
qed (simp add: wrun_def)

section \<open>Properties\<close>


text \<open>C6: A chunked transfer completes: the chunks the sender's reader yields, each written without
  an I/O fault, in any order and with repetitions, leave the receiver able to assemble exactly the
  sender's file. Only the file's size matters (below \<open>2^63 - 4 MiB\<close>); the hash is arbitrary.\<close>

theorem chunked_transfer_completes:
  assumes f: "fits f" and mf: "BuildManifest H tid name (reader_on (int (length f)) f) = Ret mf"
    and cs: "read_all H (reader_on (int (length f)) f) = Inr cs"
    and sent: "set sent = set cs"
  shows "Assemble True (wrun H mf (map (\<lambda>c. Write None True (ck_Idx c) (ck_Data c)) sent) (fresh mf)) = Inr f"
proof -
  have mf': "mf = manifest_of H tid name f" using mf by (simp add: BuildManifest_of [OF f])
  have "cs = results_from H 0 (chunks f)" using cs by (simp add: reader_on_def read_all_from)
  then have set_cs: "set cs = (\<lambda>i. \<lparr>ck_Idx = int i, ck_Data = chunks f ! i,
      ck_Sha256 = ChunkHashHex H (chunks f ! i)\<rparr>) ` {..<length (chunks f)}"
    by (auto simp: results_from_def in_set_enumerate_eq image_iff)
  define js where "js = map (nat \<circ> ck_Idx) sent"
  have chunk: "ck_Idx c = int (nat (ck_Idx c)) \<and> nat (ck_Idx c) < length (chunks f) \<and>
      ck_Data c = chunks f ! nat (ck_Idx c)" if "c \<in> set sent" for c
    using that sent set_cs by auto
  have ops: "map (\<lambda>c. Write None True (ck_Idx c) (ck_Data c)) sent =
      map (\<lambda>i. Write None True (int i) (chunks f ! i)) js"
    unfolding js_def using chunk by (auto simp: comp_def)
  have js_set: "set js = {..<length (chunks f)}"
    using sent set_cs by (auto simp: js_def image_comp comp_def)
  have inv: "writer_inv f mf (fresh mf)" unfolding mf' by (rule inv_fresh)
  let ?s = "wrun H mf (map (\<lambda>i. Write None True (int i) (chunks f ! i)) js) (fresh mf)"
  have "collision_free H f (map (\<lambda>i. Write None True (int i) (chunks f ! i)) js)"
    by (auto simp: collision_free_def)
  then have "writer_inv f mf ?s" using inv unfolding mf' by (intro inv_run [OF f])
  moreover have "cw_received (fst ?s) ! j" if "j < length (chunks f)" for j
    unfolding mf' using inv that js_set unfolding mf' by (intro run_all_received [OF f]) auto
  ultimately show ?thesis unfolding ops using Assemble_inv [OF _ f, of H tid name ?s] mf' by simp
qed

text \<open>The number of chunks of a file covers it exactly: the chunks before the last are full and
  the last is not empty. Near the end of the 64-bit range the sum in \<open>ChunkCount\<close> wraps around:
  for the largest sizes the count is negative, and \<open>BuildManifest\<close> panics on its \<open>make\<close>.\<close>

theorem chunk_count_covers:
  "(\<forall>n. 0 < n \<and> n < 2 ^ 63 - ChunkSize \<longrightarrow>
      (ChunkCount n - 1) * ChunkSize < n \<and> n \<le> ChunkCount n * ChunkSize) \<and>
    ChunkCount (2 ^ 63 - 1) < 0 \<and>
    (\<forall>H tid name bs. BuildManifest H tid name (reader_on (2 ^ 63 - 1) bs) = Panic)"
proof (intro conjI allI impI)
  fix n :: int
  assume n: "0 < n \<and> n < 2 ^ 63 - ChunkSize"
  then have c: "ChunkCount n = (n + ChunkSize - 1) div ChunkSize" by (simp add: ChunkCount_exact)
  show "(ChunkCount n - 1) * ChunkSize < n" "n \<le> ChunkCount n * ChunkSize"
    using div_mult_mod_eq [of "n + ChunkSize - 1" ChunkSize] pos_mod_bound [of ChunkSize "n + ChunkSize - 1"]
      pos_mod_sign [of ChunkSize "n + ChunkSize - 1"]
    by (simp_all add: c left_diff_distrib ChunkSize_def)
next
  show neg: "ChunkCount (2 ^ 63 - 1) < 0"
    by (simp add: ChunkCount_def ChunkSize_def wrap64_def go_div_def)
  show "BuildManifest H tid name (reader_on (2 ^ 63 - 1) bs) = Panic" for H tid name bs
    using neg by (simp add: BuildManifest_def reader_on_def)
qed

text \<open>Resuming does not check that the stored chunks belong to the file being sent. A transfer
  stored under a task id, followed by a different one-chunk file under the same task id (its hash
  and manifest differ), resumes as complete and assembles the old bytes, for every hash.\<close>

theorem stale_resume_assembles_old_bytes:
  "let old = manifest_of H tid name [1]; new = manifest_of H tid name [2];
       dk = snd (wrun H old [Write None True 0 [1]] (fresh old))
   in mf_ChunkHashes new = [ChunkHashHex H [2]] \<and>
      (case NewChunkWriter True dk new of
         Ret cw \<Rightarrow> ReceivedCount cw = 1 \<and> Assemble True (cw, dk) = Inr [1]
       | _ \<Rightarrow> False)"
proof -
  have c: "chunks [x] = [[x]]" for x using chunk_len by (simp add: chunks_step take_Cons')
  show ?thesis
    by (simp add: c manifest_of_def wrun_def fresh_def WriteChunk_def expectedSize_def ChunkSize_def
        saveMeta_def NewChunkWriter_def loadMeta_def ReceivedCount_def Assemble_def Let_def wrap64_def)
qed

section \<open>Witnesses\<close>

lemma chunks_small: "f \<noteq> [] \<Longrightarrow> length f \<le> chunk_len \<Longrightarrow> chunks f = [f]"
  by (simp add: chunks_step)


theorem chunked_transfer_completes_witness:
  "Assemble True (wrun (\<lambda>bs. take 32 (bs @ replicate 32 0)) (manifest_of (\<lambda>bs. take 32 (bs @ replicate 32 0)) ''t'' ''n'' [7, 8]) [Write None True 0 [7, 8], Write None True 0 [7, 8]]
      (fresh (manifest_of (\<lambda>bs. take 32 (bs @ replicate 32 0)) ''t'' ''n'' [7, 8]))) = Inr [7, 8]"
proof -
  let ?H = "\<lambda>bs. take 32 (bs @ replicate 32 0)"
  have c: "chunks [7, 8] = [[7, 8]]" by (intro chunks_small) (simp_all add: chunk_len_def ChunkSize_def)
  have f: "fits [7, 8]" by (simp add: fits_def ChunkSize_def)
  let ?c = "\<lparr>ck_Idx = 0, ck_Data = [7, 8], ck_Sha256 = ChunkHashHex ?H [7, 8]\<rparr>"
  have "read_all ?H (reader_on (int (length [7::8 word, 8])) [7, 8]) = Inr [?c]"
    using read_all_from [of ?H "[7, 8]" 0 2] by (simp add: c reader_on_def results_from_def)
  from chunked_transfer_completes [OF f BuildManifest_of [OF f] this, of "[?c, ?c]" "''t''" "''n''"]
  show ?thesis by simp
qed

theorem chunk_count_covers_witness:
  "(ChunkCount 4194305 - 1) * ChunkSize < 4194305 \<and> 4194305 \<le> ChunkCount 4194305 * ChunkSize \<and>
    ChunkCount 4194305 = 2"
proof -
  have "ChunkCount 4194305 = 2" by (simp add: ChunkCount_def ChunkSize_def wrap64_def)
  with conjunct1 [OF chunk_count_covers, rule_format, of 4194305] show ?thesis
    by (simp add: ChunkSize_def)
qed

end
