(* ===== verification/GoPath.thy ===== *)
theory GoPath
  imports GoText
begin

text \<open>
  Go's \<open>path/filepath\<close> on Unix, as far as the program uses it: \<open>Clean\<close>, \<open>Join\<close>, \<open>Abs\<close>, \<open>Dir\<close>,
  \<open>Base\<close>, \<open>Ext\<close>, \<open>FromSlash\<close> (the identity). The working directory that \<open>Abs\<close> asks the system for
  is an argument.
\<close>

definition slash :: char where
  "slash = CHR ''/''"

fun clean_segs :: "bool \<Rightarrow> string list \<Rightarrow> string list \<Rightarrow> string list" where
  "clean_segs rooted acc [] = rev acc"
| "clean_segs rooted acc (s # ss) =
    (if s = '''' \<or> s = ''.'' then clean_segs rooted acc ss
     else if s = ''..'' then
       (case acc of
          a # as \<Rightarrow> if a = ''..'' then clean_segs rooted (s # acc) ss else clean_segs rooted as ss
        | [] \<Rightarrow> if rooted then clean_segs rooted acc ss else clean_segs rooted [s] ss)
     else clean_segs rooted (s # acc) ss)"

definition rooted :: "string \<Rightarrow> bool" where
  "rooted p \<longleftrightarrow> HasPrefix p ''/''"

definition path_segs :: "string \<Rightarrow> string list" where
  "path_segs p = clean_segs (rooted p) [] (Split slash p)"

definition Clean :: "string \<Rightarrow> string" where
  "Clean p = (if rooted p then slash # Join slash (path_segs p)
    else if path_segs p = [] then ''.'' else Join slash (path_segs p))"

text \<open>\<open>filepath.Join\<close> of two elements: empty elements are ignored.\<close>

definition PathJoin :: "string \<Rightarrow> string \<Rightarrow> string" where
  "PathJoin a b =
    (if a = [] then (if b = [] then [] else Clean b)
     else if b = [] then Clean a else Clean (a @ slash # b))"

definition Abs :: "string option \<Rightarrow> string \<Rightarrow> string option" where
  "Abs wd p = (if rooted p then Some (Clean p)
    else map_option (\<lambda>w. PathJoin w p) wd)"

fun strip_slashes :: "string \<Rightarrow> string" where
  "strip_slashes [] = []"
| "strip_slashes (c # cs) = (if c = slash then strip_slashes cs else c # cs)"

definition last_seg :: "string \<Rightarrow> string" where
  "last_seg p = rev (takeWhile (\<lambda>c. c \<noteq> slash) (rev p))"

definition Base :: "string \<Rightarrow> string" where
  "Base p = (if p = [] then ''.''
    else let q = rev (strip_slashes (rev p)) in if q = [] then ''/'' else last_seg q)"

definition Dir :: "string \<Rightarrow> string" where
  "Dir p = Clean (rev (dropWhile (\<lambda>c. c \<noteq> slash) (rev p)))"

definition Ext :: "string \<Rightarrow> string" where
  "Ext p = (let s = last_seg p; r = rev s in
     if CHR ''.'' \<in> set s
     then CHR ''.'' # rev (takeWhile (\<lambda>c. c \<noteq> CHR ''.'') r) else [])"

definition normal_seg :: "string \<Rightarrow> bool" where
  "normal_seg s \<longleftrightarrow> s \<noteq> [] \<and> s \<noteq> ''.'' \<and> s \<noteq> ''..'' \<and> slash \<notin> set s"

lemma clean_segs_append:
  "clean_segs r acc (xs @ ys) = clean_segs r (rev (clean_segs r acc xs)) ys"
  by (induction r acc xs rule: clean_segs.induct) (auto split: list.splits)

lemma clean_segs_normal: "(\<And>s. s \<in> set xs \<Longrightarrow> normal_seg s) \<Longrightarrow> clean_segs r acc xs = rev acc @ xs"
  by (induction xs arbitrary: acc) (auto simp: normal_seg_def)

lemma clean_rooted_normal:
  "Ball (set acc) normal_seg \<Longrightarrow> (\<forall>s \<in> set xs. slash \<notin> set s) \<Longrightarrow>
    Ball (set (clean_segs True acc xs)) normal_seg"
proof (induction xs arbitrary: acc)
  case (Cons x xs)
  have xs: "\<forall>s \<in> set xs. slash \<notin> set s" using Cons.prems(2) by simp
  note IH = Cons.IH [OF _ xs]
  consider "x = [] \<or> x = ''.''" | "x = ''..''" | "normal_seg x"
    using Cons.prems(2) by (auto simp: normal_seg_def)
  then show ?case
  proof cases
    case 1
    then show ?thesis using IH [OF Cons.prems(1)] by auto
  next
    case 2
    show ?thesis
    proof (cases acc)
      case Nil
      with 2 IH [of "[]"] show ?thesis by simp
    next
      case (Cons a as)
      with \<open>Ball (set acc) normal_seg\<close> have "a \<noteq> ''..''" "Ball (set as) normal_seg"
        by (auto simp: normal_seg_def)
      with 2 Cons IH [of as] show ?thesis by simp
    qed
  next
    case 3
    then have "clean_segs True acc (x # xs) = clean_segs True (x # acc) xs"
      by (simp add: normal_seg_def)
    moreover have "Ball (set (x # acc)) normal_seg" using 3 Cons.prems(1) by simp
    ultimately show ?thesis using IH [of "x # acc"] by metis
  qed
qed simp

lemma path_segs_rooted: "rooted p \<Longrightarrow> s \<in> set (path_segs p) \<Longrightarrow> normal_seg s"
  using clean_rooted_normal [of "[]" "Split slash p"] Split_parts [of _ slash p]
  by (auto simp: path_segs_def)

lemma rooted_Cons [simp]: "rooted (slash # p)" "rooted ((slash # p) @ q)"
  by (simp_all add: rooted_def slash_def)

lemma Clean_rooted: "rooted p \<Longrightarrow> Clean p = slash # Join slash (path_segs p)"
  by (simp add: Clean_def)

lemma path_segs_of_normal:
  assumes "\<And>s. s \<in> set xs \<Longrightarrow> normal_seg s"
  shows "path_segs (slash # Join slash xs) = xs"
proof (cases "xs = []")
  case True
  then show ?thesis by (simp add: path_segs_def)
next
  case False
  then have "Split slash (Join slash xs) = xs" using assms by (intro Split_Join) (auto simp: normal_seg_def)
  then show ?thesis by (simp add: path_segs_def clean_segs_normal [OF assms])
qed

lemma Clean_of_normal:
  "(\<And>s. s \<in> set xs \<Longrightarrow> normal_seg s) \<Longrightarrow> Clean (slash # Join slash xs) = slash # Join slash xs"
  by (simp add: Clean_rooted path_segs_of_normal)

text \<open>Joining a cleaned rooted path with normal segments appends them.\<close>

lemma Clean_append_normal:
  assumes p: "rooted p" and xs: "\<And>s. s \<in> set xs \<Longrightarrow> normal_seg s" "xs \<noteq> []"
  shows "Clean (p @ slash # Join slash xs) = slash # Join slash (path_segs p @ xs)"
proof -
  have r: "rooted (p @ slash # Join slash xs)" using p by (auto simp: rooted_def HasPrefix_iff)
  have "Split slash (Join slash xs) = xs" using xs by (intro Split_Join) (auto simp: normal_seg_def)
  then have "path_segs (p @ slash # Join slash xs) = path_segs p @ xs"
    using p r by (simp add: path_segs_def Split_append_any clean_segs_append clean_segs_normal [OF xs(1)])
  then show ?thesis by (simp add: Clean_rooted [OF r])
qed

lemma strip_last: "strip_slashes p = p \<or> (\<exists>q. p = slash # q)"
  by (cases p) auto

lemma last_seg_append: "slash \<notin> set s \<Longrightarrow> last_seg (p @ slash # s) = s"
  by (simp add: last_seg_def takeWhile_append)

lemma Base_last:
  assumes "normal_seg s"
  shows "Base (p @ slash # s) = s"
proof -
  have "rev (p @ slash # s) = rev s @ slash # rev p" by simp
  moreover have "rev s \<noteq> []" "hd (rev s) \<noteq> slash"
    using assms hd_in_set [of "rev s"] by (auto simp: normal_seg_def)
  ultimately have "strip_slashes (rev (p @ slash # s)) = rev (p @ slash # s)"
    by (cases "rev s") auto
  then have "Base (p @ slash # s) = last_seg (p @ slash # s)" by (simp add: Base_def Let_def)
  with assms show ?thesis by (simp add: last_seg_append normal_seg_def)
qed

lemma Dir_last: "slash \<notin> set s \<Longrightarrow> Dir (p @ slash # s) = Clean (p @ [slash])"
  by (simp add: Dir_def dropWhile_append)

lemma set_last_seg: "set (last_seg p) \<subseteq> set p" "slash \<notin> set (last_seg p)"
  by (auto simp: last_seg_def dest: set_takeWhileD)

lemma strip_slashes_hd: "strip_slashes p = [] \<or> (\<exists>c cs. strip_slashes p = c # cs \<and> c \<noteq> slash)"
  by (induction p) auto

text \<open>\<open>Base\<close> never contains a separator, except for the path of slashes only.\<close>

lemma Base_no_slash: "Base p = ''/'' \<or> (slash \<notin> set (Base p) \<and> Base p \<noteq> [])"
proof (cases "rev (strip_slashes (rev p)) = [] \<or> p = []")
  case True
  then show ?thesis by (auto simp: Base_def slash_def)
next
  case False
  then obtain c cs where c: "strip_slashes (rev p) = c # cs" "c \<noteq> slash"
    using strip_slashes_hd [of "rev p"] by auto
  then have "last_seg (rev (strip_slashes (rev p))) \<noteq> []" by (simp add: last_seg_def)
  with False set_last_seg(2) show ?thesis by (simp add: Base_def Let_def)
qed

end
