(* ===== verification/SavePath.thy ===== *)
theory SavePath
  imports GoPath
begin

text \<open>
  Mapping a sender's relative path into the receiver's save directory
  (\<open>core/transfer/path.go\<close>), on Unix. \<open>absent p\<close> is the outcome of \<open>os.Stat\<close> with
  \<open>os.IsNotExist\<close>; \<open>wd\<close> the working directory, \<open>None\<close> when the system cannot tell it.
\<close>

section \<open>Sanitizing\<close>

definition bslash :: char where
  "bslash = CHR 0x5C"

definition is_sep :: "char \<Rightarrow> bool" where
  "is_sep c \<longleftrightarrow> c = bslash \<or> c = slash"

definition illegalChar :: "char \<Rightarrow> bool" where
  "illegalChar c \<longleftrightarrow> c \<in> set ''<>:|?*'' \<or> c = CHR 0x22 \<or> c \<le> CHR 0x1F"

definition TrimRightDots :: "string \<Rightarrow> string" where
  "TrimRightDots s = rev (dropWhile (\<lambda>c. c = CHR ''.'' \<or> c = CHR '' '') (rev s))"

text \<open>The loop past \<open>server\share\<close>: what follows the second run of separators.\<close>

function unc_rest :: "nat \<Rightarrow> string \<Rightarrow> string option" where
  "unc_rest seps [] = None"
| "unc_rest seps (c # cs) =
    (if is_sep c then (if seps + 1 = 2 then Some cs else unc_rest (seps + 1) (dropWhile is_sep cs))
     else unc_rest seps cs)"
  by pat_completeness auto
termination
  by (relation "measure (length \<circ> snd)") (auto intro: le_less_trans [OF length_dropWhile_le])

definition isASCIILetter :: "char \<Rightarrow> bool" where
  "isASCIILetter b \<longleftrightarrow> (CHR ''a'' \<le> b \<and> b \<le> CHR ''z'') \<or> (CHR ''A'' \<le> b \<and> b \<le> CHR ''Z'')"

definition stripDriveOrUNC :: "string \<Rightarrow> string" where
  "stripDriveOrUNC p =
    (if (HasPrefix p [bslash, bslash] \<or> HasPrefix p [slash, slash]) \<and> 2 < length p
     then (case unc_rest 0 (drop 2 p) of Some r \<Rightarrow> r | None \<Rightarrow> drop 2 p)
     else if 2 \<le> length p \<and> isASCIILetter (p ! 0) \<and> p ! 1 = CHR '':''
     then dropWhile is_sep (drop 2 p)
     else p)"

definition sanitize_seg :: "string \<Rightarrow> string option" where
  "sanitize_seg s0 =
    (let s = TrimSpace (map (\<lambda>c. if illegalChar c then CHR ''_'' else c) s0) in
     if s = [] \<or> s = ''.'' then None
     else if s = ''..'' then None
     else let s' = TrimRightDots s in if s' = [] then None else Some s')"

definition SanitizeRelativePath :: "string \<Rightarrow> string" where
  "SanitizeRelativePath rel =
    Join slash (List.map_filter sanitize_seg
      (Split slash (ReplaceChar bslash [slash] (stripDriveOrUNC (TrimSpace rel)))))"

section \<open>Joining\<close>

datatype PathError = ErrPathEscape | ErrAbs

definition isWithin :: "string \<Rightarrow> string \<Rightarrow> bool" where
  "isWithin target base =
    (if base = [] then False else if target = base then True
     else HasPrefix target (base @ [slash]))"

function first_free :: "(string \<Rightarrow> bool) \<Rightarrow> (int \<Rightarrow> string) \<Rightarrow> int \<Rightarrow> string option" where
  "first_free absent cand i =
    (if i < 10000 then if absent (cand i) then Some (cand i) else first_free absent cand (i + 1)
     else None)"
  by pat_completeness auto
termination
  by (relation "measure (\<lambda>(absent, cand, i). nat (10000 - i))") auto

declare first_free.simps [simp del]

definition candidate :: "string \<Rightarrow> int \<Rightarrow> string" where
  "candidate path i = (let ext = Ext path; stem = TrimSuffix (Base path) ext in
     PathJoin (Dir path) (stem @ '' ('' @ Itoa i @ '')'' @ ext))"

definition deConflict :: "(string \<Rightarrow> bool) \<Rightarrow> string \<Rightarrow> string" where
  "deConflict absent path =
    (if absent path then path
     else case first_free absent (candidate path) 1 of Some c \<Rightarrow> c | None \<Rightarrow> path)"

definition JoinSavePath ::
  "(string \<Rightarrow> bool) \<Rightarrow> string option \<Rightarrow> string \<Rightarrow> string \<Rightarrow> string \<Rightarrow> PathError + string" where
  "JoinSavePath absent wd saveDir relPath baseName =
    (let rel0 = SanitizeRelativePath relPath;
         rel1 = (if rel0 = [] then SanitizeRelativePath baseName else rel0);
         rel = (if rel1 = [] then ''unnamed'' else rel1) in
     case Abs wd (Clean saveDir) of
       None \<Rightarrow> Inl ErrAbs
     | Some cleanSaveDir \<Rightarrow>
         (case Abs wd (Clean (PathJoin cleanSaveDir rel)) of
            None \<Rightarrow> Inl ErrAbs
          | Some cleanJoined \<Rightarrow>
              if \<not> isWithin cleanJoined cleanSaveDir then Inl ErrPathEscape
              else Inr (deConflict absent cleanJoined)))"

section \<open>Safe segments\<close>

definition safe_seg :: "string \<Rightarrow> bool" where
  "safe_seg s \<longleftrightarrow> normal_seg s \<and> bslash \<notin> set s \<and> (\<forall>c \<in> set s. \<not> illegalChar c) \<and>
    last s \<noteq> CHR ''.'' \<and> last s \<noteq> CHR '' ''"

lemma TrimRightDots_set: "set (TrimRightDots s) \<subseteq> set s"
  by (auto simp: TrimRightDots_def dest: set_dropWhileD)

lemma TrimRightDots_last: "TrimRightDots s \<noteq> [] \<Longrightarrow>
    last (TrimRightDots s) \<noteq> CHR ''.'' \<and> last (TrimRightDots s) \<noteq> CHR '' ''"
  using hd_dropWhile [of "\<lambda>c. c = CHR ''.'' \<or> c = CHR '' ''" "rev s"]
  by (simp add: TrimRightDots_def last_rev)

lemma sanitize_seg_safe:
  assumes s: "sanitize_seg s0 = Some s" and s0: "slash \<notin> set s0" "bslash \<notin> set s0"
  shows "safe_seg s"
proof -
  let ?m = "map (\<lambda>c. if illegalChar c then CHR ''_'' else c) s0"
  have ill: "\<not> illegalChar (CHR ''_'')" by (simp add: illegalChar_def less_eq_char_def)
  have seg: "s = TrimRightDots (TrimSpace ?m)" "s \<noteq> []"
    using s by (auto simp: sanitize_seg_def Let_def split: if_splits)
  have "set s \<subseteq> set ?m" unfolding seg(1)
    using TrimRightDots_set TrimSpace_set by (meson order_trans)
  then have chars: "\<forall>c \<in> set s. c \<noteq> slash \<and> c \<noteq> bslash \<and> \<not> illegalChar c"
    using s0 ill by (fastforce simp: slash_def bslash_def)
  have "last s \<noteq> CHR ''.'' \<and> last s \<noteq> CHR '' ''"
    using TrimRightDots_last [of "TrimSpace ?m"] seg by simp
  with chars seg(2) show ?thesis by (auto simp: safe_seg_def normal_seg_def)
qed

definition sanitized_segs :: "string \<Rightarrow> string list" where
  "sanitized_segs rel = List.map_filter sanitize_seg
      (Split slash (ReplaceChar bslash [slash] (stripDriveOrUNC (TrimSpace rel))))"

lemma sanitized_segs_safe: "s \<in> set (sanitized_segs rel) \<Longrightarrow> safe_seg s"
proof -
  let ?p = "ReplaceChar bslash [slash] (stripDriveOrUNC (TrimSpace rel))"
  have b: "bslash \<notin> set ?p" by (rule ReplaceChar_gone) (simp add: bslash_def slash_def)
  assume "s \<in> set (sanitized_segs rel)"
  then obtain s0 where "s0 \<in> set (Split slash ?p)" "sanitize_seg s0 = Some s"
    by (auto simp: sanitized_segs_def List.map_filter_def)
  with b Split_parts [of s0 slash ?p] Split_sub [of s0 slash ?p] show ?thesis
    by (intro sanitize_seg_safe [of s0]) auto
qed

lemma safe_normal: "safe_seg s \<Longrightarrow> normal_seg s"
  by (simp add: safe_seg_def)

lemma Sanitize_segs: "SanitizeRelativePath rel = Join slash (sanitized_segs rel)"
  by (simp add: SanitizeRelativePath_def sanitized_segs_def)

lemma Join_empty: "(\<And>s. s \<in> set xs \<Longrightarrow> s \<noteq> []) \<Longrightarrow> Join c xs = [] \<longleftrightarrow> xs = []"
proof (cases xs)
  case (Cons a as)
  moreover assume "\<And>s. s \<in> set xs \<Longrightarrow> s \<noteq> []"
  ultimately show ?thesis by (cases as) auto
qed simp

lemma Sanitize_empty: "SanitizeRelativePath rel = [] \<longleftrightarrow> sanitized_segs rel = []"
  unfolding Sanitize_segs
  by (rule Join_empty) (auto dest: sanitized_segs_safe simp: safe_seg_def normal_seg_def)

definition chosen_segs :: "string \<Rightarrow> string \<Rightarrow> string list" where
  "chosen_segs relPath baseName = (if sanitized_segs relPath \<noteq> [] then sanitized_segs relPath
    else if sanitized_segs baseName \<noteq> [] then sanitized_segs baseName else [''unnamed''])"

lemma chosen_safe: "s \<in> set (chosen_segs r b) \<Longrightarrow> safe_seg s" "chosen_segs r b \<noteq> []"
proof -
  have "safe_seg ''unnamed''"
    by (simp add: safe_seg_def normal_seg_def slash_def bslash_def illegalChar_def less_eq_char_def)
  then show "safe_seg s" if "s \<in> set (chosen_segs r b)"
    using that by (auto simp: chosen_segs_def dest: sanitized_segs_safe split: if_splits)
  show "chosen_segs r b \<noteq> []" by (simp add: chosen_segs_def)
qed

section \<open>Confinement\<close>

definition abs_path :: "string \<Rightarrow> string list \<Rightarrow> bool" where
  "abs_path p ds \<longleftrightarrow> p = slash # Join slash ds \<and> (\<forall>s \<in> set ds. normal_seg s)"

lemma abs_pathD: "abs_path p ds \<Longrightarrow> rooted p" "abs_path p ds \<Longrightarrow> path_segs p = ds"
    "abs_path p ds \<Longrightarrow> Clean p = p"
  by (auto simp: abs_path_def path_segs_of_normal Clean_of_normal)

lemma abs_path_Clean: "rooted p \<Longrightarrow> abs_path (Clean p) (path_segs p)"
  by (auto simp: abs_path_def Clean_rooted path_segs_rooted)

lemma Abs_abs_path:
  assumes "Abs wd p = Some D" "\<And>w. wd = Some w \<Longrightarrow> rooted w"
  shows "\<exists>ds. abs_path D ds"
proof (cases "rooted p")
  case True
  with assms(1) have "D = Clean p" by (simp add: Abs_def)
  with abs_path_Clean [OF True] show ?thesis by blast
next
  case False
  with assms(1) obtain w where w: "wd = Some w" "D = PathJoin w p" by (auto simp: Abs_def)
  then have "rooted w" using assms(2) by simp
  then have "w \<noteq> []" "rooted (w @ slash # p)" by (auto simp: rooted_def HasPrefix_iff)
  with \<open>rooted w\<close> w(2) abs_path_Clean show ?thesis by (auto simp: PathJoin_def)
qed

lemma PathJoin_abs:
  assumes "abs_path D ds" "\<And>s. s \<in> set xs \<Longrightarrow> normal_seg s" "xs \<noteq> []"
  shows "abs_path (PathJoin D (Join slash xs)) (ds @ xs)"
proof -
  have "Join slash xs \<noteq> []" using assms(2,3) by (subst Join_empty) (auto simp: normal_seg_def)
  moreover have "D \<noteq> []" using assms(1) by (simp add: abs_path_def)
  ultimately have "PathJoin D (Join slash xs) = slash # Join slash (ds @ xs)"
    using Clean_append_normal [of D xs] abs_pathD [OF assms(1)] assms(2,3) by (simp add: PathJoin_def)
  then show ?thesis using assms(1,2) by (auto simp: abs_path_def)
qed

lemma isWithin_prefix:
  assumes "abs_path T (ds @ xs)" "abs_path D ds" "xs \<noteq> []"
  shows "isWithin T D \<longleftrightarrow> ds \<noteq> []"
proof (cases "ds = []")
  case True
  have xs: "\<forall>s \<in> set xs. normal_seg s" and D: "D = [slash]" and T: "T = slash # Join slash xs"
    using assms True by (auto simp: abs_path_def)
  obtain a as where a: "xs = a # as" "a \<noteq> []" "slash \<notin> set a"
    using xs assms(3) by (cases xs) (auto simp: normal_seg_def)
  then have "Join slash xs \<noteq> []" "hd (Join slash xs) \<noteq> slash"
    by (cases as; cases a; auto)+
  then show ?thesis using True by (cases "Join slash xs") (auto simp: isWithin_def D T)
next
  case False
  with assms have "T = D @ slash # Join slash xs" "D \<noteq> []"
    by (auto simp: abs_path_def Join_append)
  with False show ?thesis by (simp add: isWithin_def HasPrefix_iff)
qed

lemma TrimSuffix_set: "set (TrimSuffix s p) \<subseteq> set s"
  by (auto simp: TrimSuffix_def TrimPrefix_def dest: in_set_dropD)

lemma itoa_no_slash: "slash \<notin> set (Itoa i)"
proof -
  have "digit_val slash = None" by (simp add: slash_def digit_val_def less_eq_char_def)
  then have "slash \<notin> set (itoa_nat n)" for n using itoa_nat_digits [of slash n] by auto
  then show ?thesis by (simp add: Itoa_def) (simp add: slash_def)
qed

lemma candidate_abs:
  assumes T: "abs_path T (ds @ [s])"
  shows "\<exists>s'. normal_seg s' \<and> abs_path (candidate T i) (ds @ [s'])"
proof -
  define P where "P = (if ds = [] then [] else slash # Join slash ds)"
  have T': "T = P @ slash # s" using T by (auto simp: abs_path_def P_def Join_append)
  have s: "normal_seg s" and ds: "\<forall>d \<in> set ds. normal_seg d" using T by (auto simp: abs_path_def)
  have "last_seg T = s" using s by (simp add: T' last_seg_append normal_seg_def)
  then have ext: "set (Ext T) \<subseteq> set s" by (auto simp: Ext_def Let_def dest: set_takeWhileD)
  define c where "c = TrimSuffix (Base T) (Ext T) @ '' ('' @ Itoa i @ '')'' @ Ext T"
  have "slash \<notin> set c"
    using s ext TrimSuffix_set [of s "Ext T"] itoa_no_slash [of i]
    unfolding c_def T' Base_last [OF s] by (auto simp: normal_seg_def) (auto simp: slash_def)
  moreover have "CHR '' '' \<in> set c" by (simp add: c_def)
  then have "c \<noteq> []" "c \<noteq> ''.''" "c \<noteq> ''..''" by auto
  ultimately have c: "normal_seg c" by (simp add: normal_seg_def)
  have "Dir T = Clean (P @ [slash])" using s by (simp add: T' Dir_last normal_seg_def)
  also have "\<dots> = slash # Join slash ds"
  proof (cases "ds = []")
    case True
    then show ?thesis using Clean_of_normal [of "[]"] by (simp add: P_def)
  next
    case False
    have r: "rooted (P @ [slash])" by (simp add: P_def False)
    have "Split slash P = [] # ds"
      using False ds by (simp add: P_def) (rule Split_Join, auto simp: normal_seg_def)
    then have "path_segs (P @ [slash]) = clean_segs True [] (([] # ds) @ [[]])"
      using r by (simp add: path_segs_def Split_append_any)
    also have "\<dots> = ds" using ds by (simp add: clean_segs_append clean_segs_normal)
    finally show ?thesis using r by (simp add: Clean_rooted)
  qed
  finally have "abs_path (Dir T) ds" using ds by (simp add: abs_path_def)
  from PathJoin_abs [OF this, of "[c]"] c have "abs_path (candidate T i) (ds @ [c])"
    by (simp add: candidate_def Let_def c_def)
  with c show ?thesis by blast
qed

lemma first_free_Some: "first_free absent cand i = Some c \<Longrightarrow>
    absent c \<and> (\<exists>j. i \<le> j \<and> j < 10000 \<and> c = cand j)"
proof (induction absent cand i rule: first_free.induct)
  case (1 absent cand i)
  from "1.prems" show ?case
  proof (cases "i < 10000 \<and> \<not> absent (cand i)")
    case True
    with "1.prems" have "first_free absent cand (i + 1) = Some c" by (simp add: first_free.simps [of absent cand i])
    with "1.IH" True obtain j where "absent c" "i + 1 \<le> j" "j < 10000" "c = cand j" by blast
    then show ?thesis by (intro conjI exI [of _ j]) auto
  next
    case False
    with "1.prems" show ?thesis by (auto simp: first_free.simps [of absent cand i] split: if_splits)
  qed
qed

lemma deConflict_abs:
  assumes "abs_path T (ds @ [s])"
  shows "\<exists>s'. normal_seg s' \<and> abs_path (deConflict absent T) (ds @ [s'])"
proof -
  have "normal_seg s" using assms by (simp add: abs_path_def)
  with assms candidate_abs [OF assms] show ?thesis
    by (auto simp: deConflict_def split: option.split dest!: first_free_Some)
qed

section \<open>Properties\<close>

text \<open>A sanitized relative path is harmless: it is empty, or each of its segments is non-empty,
  is neither a dot nor two dots, holds no separator, no drive colon and no other character illegal
  in a file name, and does not end in a dot or a space.\<close>

theorem sanitized_path_harmless:
  "SanitizeRelativePath rel = [] \<or> (\<forall>s \<in> set (Split slash (SanitizeRelativePath rel)).
     s \<noteq> [] \<and> s \<noteq> ''.'' \<and> s \<noteq> ''..'' \<and> bslash \<notin> set s \<and> CHR '':'' \<notin> set s \<and>
     (\<forall>c \<in> set s. \<not> illegalChar c) \<and> last s \<noteq> CHR ''.'' \<and> last s \<noteq> CHR '' '')"
proof (cases "sanitized_segs rel = []")
  case True
  then show ?thesis by (simp add: Sanitize_segs)
next
  case False
  have safe: "safe_seg s" if "s \<in> set (sanitized_segs rel)" for s using that by (rule sanitized_segs_safe)
  then have "Split slash (SanitizeRelativePath rel) = sanitized_segs rel"
    unfolding Sanitize_segs by (intro Split_Join False) (auto simp: safe_seg_def normal_seg_def)
  moreover have "illegalChar (CHR '':'')" by (simp add: illegalChar_def)
  ultimately show ?thesis using safe by (fastforce simp: safe_seg_def normal_seg_def)
qed


text \<open>De-conflicting never picks an existing name while one of its candidates is free: the chosen
  path is absent, or the wanted path and its 9999 numbered variants all exist (then the wanted path
  itself is returned).\<close>

theorem deConflict_free:
  "absent (deConflict absent path) \<or>
    (deConflict absent path = path \<and> \<not> absent path \<and>
     (\<forall>i. 1 \<le> i \<and> i < 10000 \<longrightarrow> \<not> absent (candidate path i)))"
proof -
  have none: "first_free absent cand i = None \<Longrightarrow> i \<le> j \<Longrightarrow> j < 10000 \<Longrightarrow> \<not> absent (cand j)" for cand i j
  proof (induction absent cand i rule: first_free.induct)
    case (1 absent cand i)
    then have step: "\<not> absent (cand i)" "first_free absent cand (i + 1) = None"
      by (auto simp: first_free.simps [of absent cand i] split: if_splits)
    with 1 show ?case by (cases "i = j") auto
  qed
  show ?thesis
    using none [of "candidate path" 1]
    by (auto simp: deConflict_def split: option.split dest: first_free_Some)
qed

section \<open>Witnesses\<close>

theorem sanitized_path_harmless_witness:
  "SanitizeRelativePath ''C:/a/../b?/. /c. '' = ''a/b_/c'' \<and>
    ''..'' \<notin> set (Split slash (SanitizeRelativePath ''C:/a/../b?/. /c. ''))"
proof -
  have eq: "SanitizeRelativePath ''C:/a/../b?/. /c. '' = ''a/b_/c''" by code_simp
  then have "SanitizeRelativePath ''C:/a/../b?/. /c. '' \<noteq> []" by (metis list.distinct(1))
  then have "''..'' \<notin> set (Split slash (SanitizeRelativePath ''C:/a/../b?/. /c. ''))"
    using sanitized_path_harmless [of "''C:/a/../b?/. /c. ''"] by blast
  with eq show ?thesis by blast
qed


theorem deConflict_free_witness:
  "deConflict (\<lambda>p. p \<noteq> ''/in/f.txt'') ''/in/f.txt'' = ''/in/f (1).txt''"
proof -
  have c: "candidate ''/in/f.txt'' 1 = ''/in/f (1).txt''" by code_simp
  show ?thesis
    using deConflict_free [of "\<lambda>p. p \<noteq> ''/in/f.txt''" "''/in/f.txt''"]
    by (simp add: deConflict_def first_free.simps [of _ _ 1] c)
qed

end
