(* ===== verification/Binary.thy ===== *)
theory Binary
  imports GoText
begin

text \<open>
  Binary input and output: big-endian 32-bit integers (\<open>encoding/binary\<close>), CRC-32
  (\<open>hash/crc32\<close>, the bitwise algorithm of the IEEE polynomial), and the contract of a byte source
  that \<open>io.ReadFull\<close> reads from, which a memory buffer and the encrypted connection both meet.
\<close>

unbundle bit_operations_syntax

section \<open>Big-endian integers\<close>

definition PutUint32 :: "32 word \<Rightarrow> bytes" where
  "PutUint32 w = [ucast (drop_bit 24 w), ucast (drop_bit 16 w), ucast (drop_bit 8 w), ucast w]"

definition Uint32 :: "bytes \<Rightarrow> 32 word" where
  "Uint32 bs = ucast (bs ! 3) OR push_bit 8 (ucast (bs ! 2)) OR push_bit 16 (ucast (bs ! 1)) OR
     push_bit 24 (ucast (bs ! 0))"

lemma length_PutUint32 [simp]: "length (PutUint32 w) = 4"
  by (simp add: PutUint32_def)

lemma Uint32_Put [simp]: "Uint32 (PutUint32 w) = w"
proof (rule bit_word_eqI)
  fix n
  assume "n < LENGTH(32)"
  then have "n < 32" by simp
  then show "bit (Uint32 (PutUint32 w)) n = bit w n"
    by (cases "n < 24"; cases "n < 16") (auto simp: Uint32_def PutUint32_def bit_or_iff bit_push_bit_iff bit_ucast_iff
        bit_drop_bit_eq not_le not_less)
qed

section \<open>CRC-32\<close>

definition crc_poly :: "32 word" where
  "crc_poly = 0xEDB88320"

definition crc_bit :: "32 word \<Rightarrow> 32 word" where
  "crc_bit c = (if odd c then drop_bit 1 c XOR crc_poly else drop_bit 1 c)"

definition crc_byte :: "8 word \<Rightarrow> 32 word \<Rightarrow> 32 word" where
  "crc_byte b c = (crc_bit ^^ 8) (c XOR ucast b)"

definition ChecksumIEEE :: "bytes \<Rightarrow> 32 word" where
  "ChecksumIEEE bs = NOT (fold crc_byte bs (- 1))"

lemma xor_cancel: "a XOR p = b XOR p \<Longrightarrow> a = b" for a b p :: "'a::len word"
  by (metis xor.assoc xor_self_eq xor.right_neutral)

lemma crc_bit_top: "bit (crc_bit c) 31 \<longleftrightarrow> odd c"
proof -
  have p: "bit crc_poly 31" by (simp add: crc_poly_def)
  have "\<not> bit (drop_bit 1 c) 31" by (auto simp: bit_drop_bit_eq dest: bit_imp_le_length)
  with p show ?thesis by (simp add: crc_bit_def bit_xor_iff)
qed

lemma crc_bit_inj: "crc_bit c = crc_bit d \<Longrightarrow> c = d"
proof -
  assume eq: "crc_bit c = crc_bit d"
  then have o: "odd c \<longleftrightarrow> odd d" using crc_bit_top by metis
  have "drop_bit 1 c = drop_bit 1 d"
  proof (cases "odd c")
    case True
    with eq o have "drop_bit 1 c XOR crc_poly = drop_bit 1 d XOR crc_poly" by (simp add: crc_bit_def)
    then show ?thesis by (rule xor_cancel)
  next
    case False
    with eq o show ?thesis by (simp add: crc_bit_def)
  qed
  then have "bit c (Suc n) = bit d (Suc n)" for n by (metis bit_drop_bit_eq plus_1_eq_Suc comp_apply)
  with o show "c = d" by (intro bit_eqI) (metis bit_0 not0_implies_Suc)
qed

lemma crc_bits_inj: "(crc_bit ^^ n) c = (crc_bit ^^ n) d \<Longrightarrow> c = d"
  by (induction n arbitrary: c d) (auto dest: crc_bit_inj)

lemma crc_byte_inj: "crc_byte b c = crc_byte b d \<Longrightarrow> c = d"
  by (auto simp: crc_byte_def dest!: crc_bits_inj xor_cancel)

lemma crc_byte_diff: "crc_byte a c = crc_byte b c \<Longrightarrow> a = b"
proof -
  assume "crc_byte a c = crc_byte b c"
  then have "c XOR ucast a = c XOR (ucast b :: 32 word)" by (auto simp: crc_byte_def dest: crc_bits_inj)
  then have "(ucast a :: 32 word) = ucast b" by (metis xor.commute xor_cancel)
  then have eq: "bit (ucast a :: 32 word) n = bit (ucast b :: 32 word) n" for n by simp
  have "bit a n = bit b n" if "n < 8" for n using eq [of n] that by (simp add: bit_ucast_iff)
  then show "a = b" by (intro bit_word_eqI) simp
qed

lemma crc_fold_inj: "fold crc_byte bs c = fold crc_byte bs d \<Longrightarrow> c = d"
  by (induction bs arbitrary: c d) (auto dest: crc_byte_inj)

text \<open>Changing a single byte changes the checksum.\<close>

lemma crc_single_byte: "ChecksumIEEE (xs @ a # ys) = ChecksumIEEE (xs @ b # ys) \<Longrightarrow> a = b"
  by (auto simp: ChecksumIEEE_def dest!: crc_fold_inj crc_byte_diff)

section \<open>Byte sources\<close>

text \<open>\<open>rf n s\<close> is \<open>io.ReadFull\<close> of \<open>n\<close> bytes: the bytes, or \<open>None\<close> for an error.\<close>

definition mem_ReadFull :: "nat \<Rightarrow> bytes \<Rightarrow> bytes option \<times> bytes" where
  "mem_ReadFull n s = (if length s < n then (None, []) else (Some (take n s), drop n s))"

locale byte_source =
  fixes ok :: "'s \<Rightarrow> bool"
    and view :: "'s \<Rightarrow> bytes"
    and rf :: "nat \<Rightarrow> 's \<Rightarrow> bytes option \<times> 's"
  assumes rf_enough: "ok s \<Longrightarrow> view s = xs @ ys \<Longrightarrow>
    \<exists>s'. rf (length xs) s = (Some xs, s') \<and> view s' = ys \<and> ok s'"
begin

lemma rf_take: "ok s \<Longrightarrow> view s = xs @ ys \<Longrightarrow> n = length xs \<Longrightarrow>
    \<exists>s'. rf n s = (Some xs, s') \<and> view s' = ys \<and> ok s'"
  using rf_enough by blast

end

interpretation mem: byte_source "\<lambda>_. True" "\<lambda>s. s" mem_ReadFull
  by unfold_locales (simp add: mem_ReadFull_def)

end
