(* ===== verification/Frames.thy ===== *)
theory Frames
  imports Binary
begin

text \<open>
  The frame format of a multiplexed connection (\<open>core/transport/frame.go\<close>) and the contract every
  frame codec of the program meets: a codec is decoded by reading from a byte source, and reads back
  exactly what was encoded, leaving the rest of the input.
\<close>

section \<open>The codec contract\<close>

text \<open>Reading \<open>n\<close> frames off a source, up to the first error; the bytes of a list of frames.\<close>

fun read_frames :: "('s \<Rightarrow> ('e + 'f) \<times> 's) \<Rightarrow> nat \<Rightarrow> 's \<Rightarrow> 'f list \<times> 's" where
  "read_frames dec 0 s = ([], s)"
| "read_frames dec (Suc n) s = (case dec s of
      (Inl e, s') \<Rightarrow> ([], s')
    | (Inr f, s') \<Rightarrow> (let (fs, s'') = read_frames dec n s' in (f # fs, s'')))"

definition write_frames :: "('f \<Rightarrow> bytes option) \<Rightarrow> 'f list \<Rightarrow> bytes" where
  "write_frames enc fs = concat (map (\<lambda>f. case enc f of Some bs \<Rightarrow> bs | None \<Rightarrow> []) fs)"

locale frame_codec =
  fixes enc :: "'f \<Rightarrow> bytes option"
    and dec :: "bytes \<Rightarrow> ('e + 'f) \<times> bytes"
  assumes dec_enc: "enc f = Some bs \<Longrightarrow> dec (bs @ rest) = (Inr f, rest)"
begin

lemma read_write: "(\<forall>f \<in> set fs. enc f \<noteq> None) \<Longrightarrow>
    read_frames dec (length fs) (write_frames enc fs @ rest) = (fs, rest)"
proof (induction fs)
  case (Cons f fs)
  then obtain bs where "enc f = Some bs" by auto
  with Cons dec_enc [of f bs "write_frames enc fs @ rest"] show ?case by (simp add: write_frames_def)
qed (simp add: write_frames_def)

lemma enc_unique: "enc f = Some a \<Longrightarrow> enc g = Some b \<Longrightarrow> a @ r = b @ r' \<Longrightarrow> f = g \<and> r = r'"
  using dec_enc [of f a r] dec_enc [of g b r'] by simp

end

section \<open>Frames\<close>

definition FrameData :: "8 word" where "FrameData = 1"

definition FrameMeta :: "8 word" where "FrameMeta = 2"

definition FrameACK :: "8 word" where "FrameACK = 3"

definition FrameEnd :: "8 word" where "FrameEnd = 4"

definition FrameCancel :: "8 word" where "FrameCancel = 5"

definition FrameError :: "8 word" where "FrameError = 6"

definition FrameHeaderLen :: nat where
  "FrameHeaderLen = 16"

definition MaxPayloadLen :: nat where
  "MaxPayloadLen = 4194304 + 1024"

record Frame =
  fr_StreamID :: "32 word"
  fr_Type :: "8 word"
  fr_Payload :: bytes

datatype FrameErr = ErrCRCMismatch | ErrReservedNonzero | ErrPayloadTooLarge
  | ErrReadHeader | ErrReadPayload

text \<open>The 16 header bytes: \<open>make\<close> zeroes them, and bytes 5, 6 and 15 stay zero.\<close>

definition frame_header :: "Frame \<Rightarrow> bytes" where
  "frame_header f = PutUint32 (fr_StreamID f) @ [fr_Type f] @ [0, 0] @
     PutUint32 (word_of_nat (length (fr_Payload f))) @ PutUint32 (ChecksumIEEE (fr_Payload f)) @ [0]"

text \<open>What \<open>EncodeFrame\<close> hands to the writer, in one or two writes; \<open>None\<close> is its refusal.\<close>

definition EncodeFrame :: "Frame \<Rightarrow> bytes list option" where
  "EncodeFrame f =
    (if MaxPayloadLen < length (fr_Payload f) then None
     else Some ([frame_header f] @ (if 0 < length (fr_Payload f) then [fr_Payload f] else [])))"

definition DecodeFrame :: "(nat \<Rightarrow> 's \<Rightarrow> bytes option \<times> 's) \<Rightarrow> 's \<Rightarrow> (FrameErr + Frame) \<times> 's" where
  "DecodeFrame rf s = (case rf FrameHeaderLen s of
      (None, s1) \<Rightarrow> (Inl ErrReadHeader, s1)
    | (Some header, s1) \<Rightarrow>
        let f = \<lparr>fr_StreamID = Uint32 (take 4 header), fr_Type = header ! 4, fr_Payload = []\<rparr> in
        if header ! 5 \<noteq> 0 \<or> header ! 6 \<noteq> 0 then (Inl ErrReservedNonzero, s1)
        else let payloadLen = unat (Uint32 (take 4 (drop 7 header)));
                 wantCRC = Uint32 (take 4 (drop 11 header)) in
          if MaxPayloadLen < payloadLen then (Inl ErrPayloadTooLarge, s1)
          else if payloadLen = 0 then (Inr f, s1)
          else (case rf payloadLen s1 of
              (None, s2) \<Rightarrow> (Inl ErrReadPayload, s2)
            | (Some p, s2) \<Rightarrow>
                if ChecksumIEEE p \<noteq> wantCRC then (Inl ErrCRCMismatch, s2)
                else (Inr (f\<lparr>fr_Payload := p\<rparr>), s2)))"

text \<open>The bytes of a frame on the wire.\<close>

definition frame_bytes :: "Frame \<Rightarrow> bytes option" where
  "frame_bytes f = map_option concat (EncodeFrame f)"

lemma frame_bytes_Some: "frame_bytes f = Some bs \<longleftrightarrow>
    length (fr_Payload f) \<le> MaxPayloadLen \<and> bs = frame_header f @ fr_Payload f"
  by (auto simp: frame_bytes_def EncodeFrame_def)

lemma length_frame_header [simp]: "length (frame_header f) = FrameHeaderLen"
  by (simp add: frame_header_def FrameHeaderLen_def)

lemma PutUint32_cons: "\<exists>a b c d. PutUint32 w = [a, b, c, d]"
  by (simp add: PutUint32_def)

lemma header_fields:
  "take 4 (frame_header f) = PutUint32 (fr_StreamID f)"
  "frame_header f ! 4 = fr_Type f" "frame_header f ! 5 = 0" "frame_header f ! 6 = 0"
  "take 4 (drop 7 (frame_header f)) = PutUint32 (word_of_nat (length (fr_Payload f)))"
  "take 4 (drop 11 (frame_header f)) = PutUint32 (ChecksumIEEE (fr_Payload f))"
proof -
  obtain a b c d e g h i j k l m where
    "PutUint32 (fr_StreamID f) = [a, b, c, d]"
    "PutUint32 (word_of_nat (length (fr_Payload f))) = [e, g, h, i]"
    "PutUint32 (ChecksumIEEE (fr_Payload f)) = [j, k, l, m]"
    using PutUint32_cons by metis
  then show "take 4 (frame_header f) = PutUint32 (fr_StreamID f)"
    "frame_header f ! 4 = fr_Type f" "frame_header f ! 5 = 0" "frame_header f ! 6 = 0"
    "take 4 (drop 7 (frame_header f)) = PutUint32 (word_of_nat (length (fr_Payload f)))"
    "take 4 (drop 11 (frame_header f)) = PutUint32 (ChecksumIEEE (fr_Payload f))"
    by (simp_all add: frame_header_def)
qed

lemma unat_len: "n \<le> MaxPayloadLen \<Longrightarrow> unat (word_of_nat n :: 32 word) = n"
  by (simp add: MaxPayloadLen_def unat_of_nat take_bit_nat_eq_self_iff)

context byte_source
begin

lemma decode_frame:
  assumes ok: "ok s" and v: "view s = frame_header f @ p @ rest"
    and len: "length (fr_Payload f) \<le> MaxPayloadLen" "length p = length (fr_Payload f)"
  shows "\<exists>s'. DecodeFrame rf s = (if ChecksumIEEE p \<noteq> ChecksumIEEE (fr_Payload f) then Inl ErrCRCMismatch
      else Inr (f\<lparr>fr_Payload := p\<rparr>), s') \<and> view s' = rest \<and> ok s'"
proof -
  from rf_take [OF ok v, of FrameHeaderLen] obtain s1 where
    s1: "rf FrameHeaderLen s = (Some (frame_header f), s1)" "view s1 = p @ rest" "ok s1" by auto
  note D = DecodeFrame_def s1(1) header_fields Let_def
  show ?thesis
  proof (cases "fr_Payload f = []")
    case True
    with len have p: "p = []" by simp
    have "DecodeFrame rf s = (Inr (f\<lparr>fr_Payload := p\<rparr>), s1)"
      by (simp add: D True p) 
    with True p s1 show ?thesis by simp
  next
    case False
    from rf_take [OF s1(3,2), of "length (fr_Payload f)"] len(2) obtain s2 where
      s2: "rf (length (fr_Payload f)) s1 = (Some p, s2)" "view s2 = rest" "ok s2" by auto
    with False len show ?thesis by (auto simp: D unat_len)
  qed
qed

lemma decode_frames:
  "ok s \<Longrightarrow> view s = write_frames frame_bytes fs @ rest \<Longrightarrow>
    (\<forall>f \<in> set fs. length (fr_Payload f) \<le> MaxPayloadLen) \<Longrightarrow>
    \<exists>s'. read_frames (DecodeFrame rf) (length fs) s = (fs, s') \<and> view s' = rest \<and> ok s'"
proof (induction fs arbitrary: s)
  case (Cons f fs)
  then have "frame_bytes f = Some (frame_header f @ fr_Payload f)" by (simp add: frame_bytes_Some)
  with Cons.prems(2) have "view s = frame_header f @ fr_Payload f @ write_frames frame_bytes fs @ rest"
    by (simp add: write_frames_def)
  from decode_frame [OF Cons.prems(1) this] Cons.prems(3) obtain s1 where
    s1: "DecodeFrame rf s = (Inr f, s1)" "view s1 = write_frames frame_bytes fs @ rest" "ok s1" by auto
  from Cons.IH [OF s1(3,2)] Cons.prems(3) s1(1) show ?case by auto
qed (simp add: write_frames_def)

end

lemma DecodeFrame_mem: "frame_bytes f = Some bs \<Longrightarrow> DecodeFrame mem_ReadFull (bs @ rest) = (Inr f, rest)"
  using mem.decode_frame [of "bs @ rest" f "fr_Payload f" rest] by (auto simp: frame_bytes_Some)

interpretation frames: frame_codec frame_bytes "DecodeFrame mem_ReadFull"
  by unfold_locales (rule DecodeFrame_mem)

section \<open>Properties\<close>

text \<open>Frames survive the wire: any sequence of frames whose payloads fit the limit, encoded one
  after the other, is decoded back frame by frame, and the bytes that follow are left unread.\<close>

theorem frame_stream_roundtrip:
  assumes "\<forall>f \<in> set fs. length (fr_Payload f) \<le> MaxPayloadLen"
  shows "read_frames (DecodeFrame mem_ReadFull) (length fs) (write_frames frame_bytes fs @ rest) = (fs, rest)"
  using assms by (intro frames.read_write) (auto simp: frame_bytes_def EncodeFrame_def)

text \<open>C11: A frame whose payload was changed in any one byte on the way is always rejected with the
  CRC error, whatever the byte, its position and its new value.\<close>

theorem corrupted_byte_rejected:
  assumes "fr_Payload f = xs @ a # ys" "length (fr_Payload f) \<le> MaxPayloadLen" "b \<noteq> a"
  shows "fst (DecodeFrame mem_ReadFull (frame_header f @ xs @ b # ys @ rest)) = Inl ErrCRCMismatch"
proof -
  have "ChecksumIEEE (xs @ b # ys) \<noteq> ChecksumIEEE (fr_Payload f)"
    using assms crc_single_byte [of xs b ys a] by auto
  then show ?thesis
    using mem.decode_frame [of "frame_header f @ (xs @ b # ys) @ rest" f "xs @ b # ys" rest] assms
    by auto
qed

text \<open>The checksum does not cover the header: replacing the stream id, the frame type and the
  last of the 16 header bytes of a valid frame gives another frame that is accepted with the same
  payload.\<close>

theorem header_not_protected:
  assumes "length (fr_Payload f) \<le> MaxPayloadLen"
  shows "DecodeFrame mem_ReadFull
      (PutUint32 i @ [t] @ drop 5 (butlast (frame_header f)) @ [z] @ fr_Payload f @ rest) =
    (Inr (f\<lparr>fr_StreamID := i, fr_Type := t\<rparr>), rest)"
proof -
  let ?g = "f\<lparr>fr_StreamID := i, fr_Type := t\<rparr>"
  obtain a b c d e g h j k l m n where w:
    "PutUint32 i = [a, b, c, d]"
    "PutUint32 (word_of_nat (length (fr_Payload f))) = [e, g, h, j]"
    "PutUint32 (ChecksumIEEE (fr_Payload f)) = [k, l, m, n]"
    using PutUint32_cons by metis
  obtain a' b' c' d' where w': "PutUint32 (fr_StreamID f) = [a', b', c', d']"
    using PutUint32_cons by metis
  have hdr: "PutUint32 i @ [t] @ drop 5 (butlast (frame_header f)) @ [z] =
      [a, b, c, d, t, 0, 0, e, g, h, j, k, l, m, n, z]"
    by (simp add: frame_header_def w w')
  have u: "Uint32 [a, b, c, d] = i" "Uint32 [k, l, m, n] = ChecksumIEEE (fr_Payload f)"
    "unat (Uint32 [e, g, h, j]) = length (fr_Payload f)"
    using Uint32_Put [of i] Uint32_Put [of "ChecksumIEEE (fr_Payload f)"]
      Uint32_Put [of "word_of_nat (length (fr_Payload f))"] unat_len [OF assms] by (simp_all add: w)
  have "PutUint32 i @ [t] @ drop 5 (butlast (frame_header f)) @ [z] @ fr_Payload f @ rest =
      [a, b, c, d, t, 0, 0, e, g, h, j, k, l, m, n, z] @ fr_Payload f @ rest"
    using hdr by (metis append.assoc)
  moreover have "DecodeFrame mem_ReadFull
      ([a, b, c, d, t, 0, 0, e, g, h, j, k, l, m, n, z] @ fr_Payload f @ rest) =
    (Inr (f\<lparr>fr_StreamID := i, fr_Type := t\<rparr>), rest)"
    using assms by (simp add: DecodeFrame_def mem_ReadFull_def FrameHeaderLen_def u Let_def)
  ultimately show ?thesis by (simp only:)
qed

section \<open>Witnesses\<close>

definition demo_frame :: Frame where
  "demo_frame = \<lparr>fr_StreamID = 2, fr_Type = FrameData, fr_Payload = [7, 8]\<rparr>"

theorem frame_stream_roundtrip_witness:
  "read_frames (DecodeFrame mem_ReadFull) 2 (write_frames frame_bytes [demo_frame, demo_frame] @ [1]) =
    ([demo_frame, demo_frame], [1])"
  using frame_stream_roundtrip [of "[demo_frame, demo_frame]" "[1]"]
  by (simp add: demo_frame_def MaxPayloadLen_def numeral_2_eq_2)

theorem corrupted_byte_rejected_witness:
  "fst (DecodeFrame mem_ReadFull (frame_header demo_frame @ [7, 9])) = Inl ErrCRCMismatch"
  using corrupted_byte_rejected [of demo_frame "[7]" 8 "[]" 9 "[]"]
  by (simp add: demo_frame_def MaxPayloadLen_def)

theorem header_not_protected_witness:
  "DecodeFrame mem_ReadFull
      (PutUint32 9 @ [FrameEnd] @ drop 5 (butlast (frame_header demo_frame)) @ [255] @ [7, 8]) =
    (Inr \<lparr>fr_StreamID = 9, fr_Type = FrameEnd, fr_Payload = [7, 8]\<rparr>, [])"
  using header_not_protected [of demo_frame 9 FrameEnd 255 "[]"]
  by (simp add: demo_frame_def MaxPayloadLen_def)

end
