(* ===== verification/SecureConn.thy ===== *)
theory SecureConn
  imports Frames
begin

text \<open>
  The encrypted connection: the Noise handshake wrapper and the SAS code
  (\<open>core/transport/noise.go\<close>, \<open>core/transport/sas.go\<close>), dialling and accepting
  (\<open>core/net/dial.go\<close>, \<open>core/net/listen.go\<close>). The Noise library is a parameter: a record of its
  operations on its own state type. The connection is the bytes still to be read; what a side
  writes is returned.
\<close>

section \<open>Length-prefixed frames\<close>

datatype NetError = ErrNetHeader | ErrNetTooLarge | ErrNetBody | ErrDecrypt | ErrEncrypt | ErrWrite

definition maxNetFrame :: nat where
  "maxNetFrame = 16777216"

definition writeFrame :: "bytes \<Rightarrow> bytes" where
  "writeFrame data = PutUint32 (word_of_nat (length data)) @ data"

definition readFrame :: "(nat \<Rightarrow> 's \<Rightarrow> bytes option \<times> 's) \<Rightarrow> 's \<Rightarrow> (NetError + bytes) \<times> 's" where
  "readFrame rf s = (case rf 4 s of
      (None, s1) \<Rightarrow> (Inl ErrNetHeader, s1)
    | (Some header, s1) \<Rightarrow>
        let n = unat (Uint32 header) in
        if maxNetFrame < n then (Inl ErrNetTooLarge, s1)
        else (case rf n s1 of
            (None, s2) \<Rightarrow> (Inl ErrNetBody, s2)
          | (Some data, s2) \<Rightarrow> (Inr data, s2)))"

definition net_frame :: "bytes \<Rightarrow> bytes option" where
  "net_frame data = (if length data \<le> maxNetFrame then Some (writeFrame data) else None)"

lemma unat_net_len: "n \<le> maxNetFrame \<Longrightarrow> unat (word_of_nat n :: 32 word) = n"
  by (simp add: maxNetFrame_def unat_of_nat take_bit_nat_eq_self_iff)

lemma readFrame_write: "length data \<le> maxNetFrame \<Longrightarrow>
    readFrame mem_ReadFull (writeFrame data @ rest) = (Inr data, rest)"
  by (simp add: readFrame_def writeFrame_def mem_ReadFull_def unat_net_len)

interpretation net_frames: frame_codec net_frame "readFrame mem_ReadFull"
  by unfold_locales (auto simp: net_frame_def readFrame_write split: if_splits)

lemma readFrame_shorter: "readFrame mem_ReadFull w = (Inr f, rest) \<Longrightarrow> length rest < length w"
  by (auto simp: readFrame_def mem_ReadFull_def Let_def split: if_splits)

section \<open>The encrypted connection\<close>

type_synonym 'cs encrypt = "'cs \<Rightarrow> bytes \<Rightarrow> bytes option \<times> 'cs"

type_synonym 'cs decrypt = "'cs \<Rightarrow> bytes \<Rightarrow> bytes option \<times> 'cs"

record 'cs EncryptedConn =
  ec_in :: bytes
  ec_sendCS :: 'cs
  ec_recvCS :: 'cs
  ec_buf :: bytes

definition EC_Read :: "'cs decrypt \<Rightarrow> nat \<Rightarrow> 'cs EncryptedConn \<Rightarrow> (NetError + bytes) \<times> 'cs EncryptedConn" where
  "EC_Read dec k ec =
    (if 0 < length (ec_buf ec) then
       (Inr (take k (ec_buf ec)), ec\<lparr>ec_buf := drop k (ec_buf ec)\<rparr>)
     else (case readFrame mem_ReadFull (ec_in ec) of
         (Inl e, w) \<Rightarrow> (Inl e, ec\<lparr>ec_in := w\<rparr>)
       | (Inr frame, w) \<Rightarrow> (case dec (ec_recvCS ec) frame of
             (None, cs) \<Rightarrow> (Inl ErrDecrypt, ec\<lparr>ec_in := w, ec_recvCS := cs\<rparr>)
           | (Some plain, cs) \<Rightarrow>
               (Inr (take k plain),
                ec\<lparr>ec_in := w, ec_recvCS := cs,
                   ec_buf := (if k < length plain then drop k plain else ec_buf ec)\<rparr>))))"

text \<open>\<open>ok\<close> is whether the raw connection takes the bytes; the second component is what it takes.\<close>

definition EC_Write ::
  "'cs encrypt \<Rightarrow> bool \<Rightarrow> bytes \<Rightarrow> 'cs EncryptedConn \<Rightarrow> (NetError + nat) \<times> bytes \<times> 'cs EncryptedConn" where
  "EC_Write enc ok b ec = (case enc (ec_sendCS ec) b of
      (None, cs) \<Rightarrow> (Inl ErrEncrypt, [], ec\<lparr>ec_sendCS := cs\<rparr>)
    | (Some ct, cs) \<Rightarrow>
        if ok then (Inr (length b), writeFrame ct, ec\<lparr>ec_sendCS := cs\<rparr>)
        else (Inl ErrWrite, [], ec\<lparr>ec_sendCS := cs\<rparr>))"

lemma EC_Read_shorter: "EC_Read dec (Suc n) ec = (Inr bs, ec') \<Longrightarrow>
    length (ec_in ec') < length (ec_in ec) \<or>
    (length (ec_in ec') = length (ec_in ec) \<and> Suc n - length bs < Suc n)"
  by (auto simp: EC_Read_def split: if_splits sum.splits prod.splits option.splits
      dest: readFrame_shorter)

text \<open>\<open>io.ReadFull\<close> on the connection: \<open>Read\<close> until the buffer is full.\<close>

function EC_ReadFull :: "'cs decrypt \<Rightarrow> nat \<Rightarrow> 'cs EncryptedConn \<Rightarrow> bytes option \<times> 'cs EncryptedConn" where
  "EC_ReadFull dec 0 ec = (Some [], ec)"
| "EC_ReadFull dec (Suc n) ec = (case EC_Read dec (Suc n) ec of
      (Inl e, ec') \<Rightarrow> (None, ec')
    | (Inr bs, ec') \<Rightarrow> (case EC_ReadFull dec (Suc n - length bs) ec' of
          (None, ec'') \<Rightarrow> (None, ec'')
        | (Some r, ec'') \<Rightarrow> (Some (bs @ r), ec'')))"
  by pat_completeness auto
termination
  by (relation "measures [\<lambda>(dec, n, ec). length (ec_in ec), \<lambda>(dec, n, ec). n]")
    (auto dest!: EC_Read_shorter [OF sym])

text \<open>The plaintext that the unread wire bytes stand for.\<close>

function wire_plain :: "'cs decrypt \<Rightarrow> 'cs \<Rightarrow> bytes \<Rightarrow> bytes option" where
  "wire_plain dec cs w = (if w = [] then Some [] else case readFrame mem_ReadFull w of
      (Inl e, _) \<Rightarrow> None
    | (Inr f, w') \<Rightarrow> (case dec cs f of
          (None, _) \<Rightarrow> None
        | (Some p, cs') \<Rightarrow> map_option (\<lambda>r. p @ r) (wire_plain dec cs' w')))"
  by pat_completeness auto
termination
  by (relation "measure (\<lambda>(dec, cs, w). length w)") (auto dest!: readFrame_shorter [OF sym])

declare wire_plain.simps [simp del]

definition ec_ok :: "'cs decrypt \<Rightarrow> 'cs EncryptedConn \<Rightarrow> bool" where
  "ec_ok dec ec \<longleftrightarrow> wire_plain dec (ec_recvCS ec) (ec_in ec) \<noteq> None"

definition ec_view :: "'cs decrypt \<Rightarrow> 'cs EncryptedConn \<Rightarrow> bytes" where
  "ec_view dec ec = ec_buf ec @ the (wire_plain dec (ec_recvCS ec) (ec_in ec))"

lemma EC_Read_view:
  assumes "ec_ok dec ec" "ec_view dec ec \<noteq> []"
  shows "\<exists>bs ec'. EC_Read dec k ec = (Inr bs, ec') \<and> ec_ok dec ec' \<and>
    ec_view dec ec = bs @ ec_view dec ec' \<and> length bs \<le> k"
proof (cases "ec_buf ec = []")
  case False
  with assms(1) show ?thesis
    by (simp add: EC_Read_def ec_ok_def ec_view_def)
next
  case True
  with assms have "ec_in ec \<noteq> []" by (auto simp: ec_view_def wire_plain.simps)
  with assms(1) obtain f w p cs r where f: "readFrame mem_ReadFull (ec_in ec) = (Inr f, w)"
      "dec (ec_recvCS ec) f = (Some p, cs)" "wire_plain dec cs w = Some r"
      "wire_plain dec (ec_recvCS ec) (ec_in ec) = Some (p @ r)"
    by (auto simp: ec_ok_def wire_plain.simps [of dec "ec_recvCS ec" "ec_in ec"]
        split: sum.splits prod.splits option.splits)
  then show ?thesis
    using True by (simp add: EC_Read_def ec_ok_def ec_view_def)
qed

lemma EC_ReadFull_view:
  "ec_ok dec ec \<Longrightarrow> ec_view dec ec = xs @ ys \<Longrightarrow> n = length xs \<Longrightarrow>
    \<exists>ec'. EC_ReadFull dec n ec = (Some xs, ec') \<and> ec_view dec ec' = ys \<and> ec_ok dec ec'"
proof (induction dec n ec arbitrary: xs rule: EC_ReadFull.induct)
  case (2 dec n ec)
  then have "ec_view dec ec \<noteq> []" by auto
  from EC_Read_view [OF "2.prems"(1) this, of "Suc n"] obtain bs ec' where
    r: "EC_Read dec (Suc n) ec = (Inr bs, ec')" "ec_ok dec ec'"
      "ec_view dec ec = bs @ ec_view dec ec'" "length bs \<le> Suc n" by blast
  define xs' where "xs' = drop (length bs) xs"
  have eq: "bs @ ec_view dec ec' = xs @ ys" using r(3) "2.prems"(2) by simp
  have "length bs \<le> length xs" using r(4) "2.prems"(3) by simp
  with arg_cong [OF eq, of "take (length bs)"] arg_cong [OF eq, of "drop (length bs)"]
  have xs: "xs = bs @ xs'" "ec_view dec ec' = xs' @ ys"
    by (simp_all add: xs'_def) (metis append_take_drop_id)
  with "2.prems"(3) have "Suc n - length bs = length xs'" by simp
  with "2.IH" [OF r(1) [symmetric] refl r(2) xs(2)] obtain ec'' where
    "EC_ReadFull dec (Suc n - length bs) ec' = (Some xs', ec'')" "ec_view dec ec'' = ys" "ec_ok dec ec''"
    by auto
  with r(1) xs(1) show ?case by simp
qed auto

interpretation secure: byte_source "ec_ok dec" "ec_view dec" "EC_ReadFull dec"
  for dec :: "'cs decrypt"
  by unfold_locales (auto intro: EC_ReadFull_view)

text \<open>Several writes in a row, as the frame encoder makes them; \<open>None\<close> when one fails.\<close>

fun EC_WriteAll :: "'cs encrypt \<Rightarrow> bytes list \<Rightarrow> 'cs EncryptedConn \<Rightarrow> bytes option \<times> 'cs EncryptedConn" where
  "EC_WriteAll enc [] ec = (Some [], ec)"
| "EC_WriteAll enc (w # ws) ec = (case EC_Write enc True w ec of
      (Inl e, _, ec') \<Rightarrow> (None, ec')
    | (Inr _, out, ec') \<Rightarrow> (case EC_WriteAll enc ws ec' of
          (None, ec'') \<Rightarrow> (None, ec'')
        | (Some outs, ec'') \<Rightarrow> (Some (out @ outs), ec'')))"

text \<open>The documented behaviour of a pair of Noise cipher states, as far as the program relies on it:
  in step, what one encrypts the other decrypts, they stay in step, and the ciphertext is at most the
  16-byte tag longer.\<close>

definition cipher_pair :: "('cs \<Rightarrow> 'cs \<Rightarrow> bool) \<Rightarrow> 'cs encrypt \<Rightarrow> 'cs decrypt \<Rightarrow> bool" where
  "cipher_pair sync enc dec \<longleftrightarrow> (\<forall>s r p c s'. sync s r \<longrightarrow> enc s p = (Some c, s') \<longrightarrow>
     length c \<le> length p + 16 \<and> (\<exists>r'. dec r c = (Some p, r') \<and> sync s' r'))"

lemma WriteAll_plain:
  assumes pair: "cipher_pair sync enc dec"
  shows "sync (ec_sendCS ec) r \<Longrightarrow> (\<forall>w \<in> set ws. length w + 16 \<le> maxNetFrame) \<Longrightarrow>
    EC_WriteAll enc ws ec = (Some wire, ec') \<Longrightarrow> wire_plain dec r wire = Some (concat ws)"
proof (induction ws arbitrary: ec r wire)
  case Nil
  then show ?case by (simp add: wire_plain.simps)
next
  case (Cons w ws)
  from Cons.prems(3) obtain c cs outs where c: "enc (ec_sendCS ec) w = (Some c, cs)"
      "EC_WriteAll enc ws (ec\<lparr>ec_sendCS := cs\<rparr>) = (Some outs, ec')" "wire = writeFrame c @ outs"
    by (auto simp: EC_Write_def split: option.splits prod.splits sum.splits)
  with pair Cons.prems(1) obtain r' where r': "dec r c = (Some w, r')" "sync cs r'"
    "length c \<le> length w + 16" unfolding cipher_pair_def by blast
  have "length c \<le> maxNetFrame" using r'(3) Cons.prems(2) by auto
  then have "readFrame mem_ReadFull wire = (Inr c, outs)" using c(3) readFrame_write by simp
  moreover have "wire_plain dec r' outs = Some (concat ws)"
    using Cons.IH [OF _ _ c(2)] r'(2) Cons.prems(2) by simp
  moreover have "wire \<noteq> []" by (simp add: c(3) writeFrame_def PutUint32_def)
  ultimately show ?case using r'(1) by (simp add: wire_plain.simps [of dec r wire])
qed

section \<open>The handshake\<close>

datatype HandshakeRole = RoleInitiator | RoleResponder

record StaticKeys =
  sk_Private :: bytes
  sk_Public :: bytes

text \<open>The Noise library: a new state (the flag says initiator), and the two message functions with
  the cipher states they return at the end of the handshake.\<close>

record ('hs, 'cs) noise_lib =
  nl_new :: "bool \<Rightarrow> StaticKeys \<Rightarrow> 'hs option"
  nl_write :: "'hs \<Rightarrow> bytes \<Rightarrow> (bytes \<times> 'cs option \<times> 'cs option \<times> 'hs) option"
  nl_read :: "'hs \<Rightarrow> bytes \<Rightarrow> (bytes \<times> 'cs option \<times> 'cs option \<times> 'hs) option"
  nl_binding :: "'hs \<Rightarrow> bytes"
  nl_peer :: "'hs \<Rightarrow> bytes"

datatype HandshakeError = ErrHandshakeDone | ErrHandshakeIncomplete | ErrNoise | ErrKeySize

record ('hs, 'cs) Handshake =
  h_hs :: 'hs
  h_role :: HandshakeRole
  h_step :: int
  h_done :: bool
  h_sendCS :: "'cs option"
  h_recvCS :: "'cs option"

definition NewHandshake ::
  "('hs, 'cs) noise_lib \<Rightarrow> HandshakeRole \<Rightarrow> StaticKeys \<Rightarrow> HandshakeError + ('hs, 'cs) Handshake" where
  "NewHandshake nl role keys = (case nl_new nl (role = RoleInitiator) keys of
      None \<Rightarrow> Inl ErrNoise
    | Some hs \<Rightarrow> Inr \<lparr>h_hs = hs, h_role = role, h_step = 0, h_done = False,
        h_sendCS = None, h_recvCS = None\<rparr>)"

definition normalize :: "HandshakeRole \<Rightarrow> 'cs option \<Rightarrow> 'cs option \<Rightarrow> 'cs option \<times> 'cs option" where
  "normalize role cs1 cs2 =
    (if cs1 = None \<or> cs2 = None then (cs1, cs2)
     else if role = RoleInitiator then (cs1, cs2) else (cs2, cs1))"

text \<open>The common tail of the two message functions.\<close>

definition handshake_step ::
  "(bytes \<times> 'cs option \<times> 'cs option \<times> 'hs) option \<Rightarrow> ('hs, 'cs) Handshake \<Rightarrow>
    (HandshakeError + bytes \<times> 'cs option \<times> 'cs option) \<times> ('hs, 'cs) Handshake" where
  "handshake_step res h = (case res of
      None \<Rightarrow> (Inl ErrNoise, h)
    | Some (out, cs1, cs2, hs) \<Rightarrow>
        let h1 = h\<lparr>h_hs := hs, h_step := h_step h + 1\<rparr>;
            (send, recv) = normalize (h_role h) cs1 cs2 in
        (Inr (out, send, recv),
         if send \<noteq> None \<and> recv \<noteq> None
         then h1\<lparr>h_done := True, h_sendCS := send, h_recvCS := recv\<rparr> else h1))"

definition HS_WriteMessage ::
  "('hs, 'cs) noise_lib \<Rightarrow> bytes \<Rightarrow> ('hs, 'cs) Handshake \<Rightarrow>
    (HandshakeError + bytes \<times> 'cs option \<times> 'cs option) \<times> ('hs, 'cs) Handshake" where
  "HS_WriteMessage nl payload h =
    (if h_done h then (Inl ErrHandshakeDone, h) else handshake_step (nl_write nl (h_hs h) payload) h)"

definition HS_ReadMessage ::
  "('hs, 'cs) noise_lib \<Rightarrow> bytes \<Rightarrow> ('hs, 'cs) Handshake \<Rightarrow>
    (HandshakeError + bytes \<times> 'cs option \<times> 'cs option) \<times> ('hs, 'cs) Handshake" where
  "HS_ReadMessage nl message h =
    (if h_done h then (Inl ErrHandshakeDone, h) else handshake_step (nl_read nl (h_hs h) message) h)"

definition HS_Complete :: "('hs, 'cs) Handshake \<Rightarrow> bool" where
  "HS_Complete h = h_done h"

definition HS_ChannelBinding :: "('hs, 'cs) noise_lib \<Rightarrow> ('hs, 'cs) Handshake \<Rightarrow> HandshakeError + bytes" where
  "HS_ChannelBinding nl h =
    (if \<not> h_done h then Inl ErrHandshakeIncomplete else Inr (nl_binding nl (h_hs h)))"

definition HS_PeerStatic :: "('hs, 'cs) noise_lib \<Rightarrow> ('hs, 'cs) Handshake \<Rightarrow> bytes" where
  "HS_PeerStatic nl h = nl_peer nl (h_hs h)"

definition HS_CipherStates :: "('hs, 'cs) Handshake \<Rightarrow> HandshakeError + 'cs option \<times> 'cs option" where
  "HS_CipherStates h =
    (if \<not> h_done h then Inl ErrHandshakeIncomplete else Inr (h_sendCS h, h_recvCS h))"

text \<open>The static key pair from the identity key: SHA-512 of the seed, clamped; \<open>H\<close> is SHA-512 and
  \<open>base\<close> the scalar multiplication of the curve's base point.\<close>

definition DeriveStaticKeys :: "(bytes \<Rightarrow> bytes) \<Rightarrow> (bytes \<Rightarrow> bytes) \<Rightarrow> bytes \<Rightarrow> HandshakeError + StaticKeys" where
  "DeriveStaticKeys H base edPriv =
    (if length edPriv \<noteq> 64 then Inl ErrKeySize
     else let h = H (take 32 edPriv);
              h1 = h[0 := h ! 0 AND 248];
              h2 = h1[31 := h1 ! 31 AND 127];
              h3 = h2[31 := h2 ! 31 OR 64];
              priv = take 32 h3
          in Inr \<lparr>sk_Private = priv, sk_Public = base priv\<rparr>)"

section \<open>The SAS code\<close>

definition SASModulus :: nat where
  "SASModulus = 10000"

fun be_nat :: "nat \<Rightarrow> bytes \<Rightarrow> nat" where
  "be_nat acc [] = acc"
| "be_nat acc (b # bs) = be_nat (256 * acc + unat b) bs"

lemma be_nat_zeros: "be_nat 0 (replicate n 0 @ bs) = be_nat 0 bs"
  by (induction n) auto

definition pad4 :: "string \<Rightarrow> string" where
  "pad4 s = replicate (4 - length s) (CHR ''0'') @ s"

definition SASCode :: "(bytes \<Rightarrow> bytes) \<Rightarrow> bytes \<Rightarrow> string" where
  "SASCode H handshakeHash =
    pad4 (itoa_nat (be_nat 0 (take 8 (H handshakeHash)) mod SASModulus))"

section \<open>Dialling and accepting\<close>

record DialConfig =
  dc_Network :: string
  dc_Address :: string
  dc_Timeout :: int

definition DefaultDialTimeout :: int where
  "DefaultDialTimeout = 10 * 1000000000"

definition DialConfig_defaults :: "DialConfig \<Rightarrow> DialConfig" where
  "DialConfig_defaults c =
    (let c1 = (if dc_Network c = [] then c\<lparr>dc_Network := ''tcp''\<rparr> else c) in
     if dc_Timeout c1 \<le> 0 then c1\<lparr>dc_Timeout := DefaultDialTimeout\<rparr> else c1)"

datatype DialError = ErrDial | ErrNewHandshake | ErrWriteMsg nat | ErrSendMsg nat | ErrReadMsg nat
  | ErrProcessMsg nat

text \<open>\<open>raw\<close> is the dialled connection (\<open>None\<close> when dialling fails) as the bytes that arrive on it,
  \<open>wok i\<close> whether sending message \<open>i\<close> succeeds; the result comes with the bytes sent.\<close>

definition Dial ::
  "('hs, 'cs) noise_lib \<Rightarrow> StaticKeys \<Rightarrow> bytes option \<Rightarrow> (nat \<Rightarrow> bool) \<Rightarrow>
    (DialError + 'cs option EncryptedConn) \<times> bytes" where
  "Dial nl keys raw wok = (case raw of
      None \<Rightarrow> (Inl ErrDial, [])
    | Some w0 \<Rightarrow> (case NewHandshake nl RoleInitiator keys of
        Inl e \<Rightarrow> (Inl ErrNewHandshake, [])
      | Inr h0 \<Rightarrow> (case HS_WriteMessage nl [] h0 of
          (Inl e, h1) \<Rightarrow> (Inl (ErrWriteMsg 1), [])
        | (Inr (msg1, _, _), h1) \<Rightarrow>
            if \<not> wok 1 then (Inl (ErrSendMsg 1), [])
            else (case readFrame mem_ReadFull w0 of
                (Inl e, w1) \<Rightarrow> (Inl (ErrReadMsg 2), writeFrame msg1)
              | (Inr msg2, w1) \<Rightarrow> (case HS_ReadMessage nl msg2 h1 of
                    (Inl e, h2) \<Rightarrow> (Inl (ErrProcessMsg 2), writeFrame msg1)
                  | (Inr _, h2) \<Rightarrow> (case HS_WriteMessage nl [] h2 of
                        (Inl e, h3) \<Rightarrow> (Inl (ErrWriteMsg 3), writeFrame msg1)
                      | (Inr (msg3, sendCS, recvCS), h3) \<Rightarrow>
                          if \<not> wok 3 then (Inl (ErrSendMsg 3), writeFrame msg1)
                          else (Inr \<lparr>ec_in = w1, ec_sendCS = sendCS, ec_recvCS = recvCS, ec_buf = []\<rparr>,
                                writeFrame msg1 @ writeFrame msg3)))))))"

record 'cs AcceptResult =
  ar_Conn :: "'cs option EncryptedConn"
  ar_PeerStatic :: bytes

text \<open>The body of \<open>Accept\<close>'s loop for one raw connection: \<open>None\<close> closes it and continues.\<close>

definition Accept_conn ::
  "('hs, 'cs) noise_lib \<Rightarrow> StaticKeys \<Rightarrow> bytes \<Rightarrow> bool \<Rightarrow> 'cs AcceptResult option \<times> bytes" where
  "Accept_conn nl keys w0 wok = (case NewHandshake nl RoleResponder keys of
      Inl e \<Rightarrow> (None, [])
    | Inr h0 \<Rightarrow> (case readFrame mem_ReadFull w0 of
        (Inl e, w1) \<Rightarrow> (None, [])
      | (Inr msg1, w1) \<Rightarrow> (case HS_ReadMessage nl msg1 h0 of
          (Inl e, h1) \<Rightarrow> (None, [])
        | (Inr _, h1) \<Rightarrow> (case HS_WriteMessage nl [] h1 of
            (Inl e, h2) \<Rightarrow> (None, [])
          | (Inr (msg2, _, _), h2) \<Rightarrow>
              if \<not> wok then (None, [])
              else (case readFrame mem_ReadFull w1 of
                  (Inl e, w2) \<Rightarrow> (None, writeFrame msg2)
                | (Inr msg3, w2) \<Rightarrow> (case HS_ReadMessage nl msg3 h2 of
                      (Inl e, h3) \<Rightarrow> (None, writeFrame msg2)
                    | (Inr (_, sendCS, recvCS), h3) \<Rightarrow>
                        (Some \<lparr>ar_Conn = \<lparr>ec_in = w2, ec_sendCS = sendCS, ec_recvCS = recvCS, ec_buf = []\<rparr>,
                               ar_PeerStatic = HS_PeerStatic nl h3\<rparr>, writeFrame msg2)))))))"

text \<open>\<open>Accept\<close> over what the raw listener yields in turn: connections (with whether message 2 can be
  sent), or an error, with whether the listener had been closed. It returns the accepted connection,
  nothing after a close, or an error; \<open>None\<close> is waiting for more.\<close>

datatype incoming = IncConn bytes bool | IncErr bool

datatype 'cs accept_outcome = Accepted "'cs AcceptResult" | AcceptClosed | AcceptError

fun Listener_Accept ::
  "('hs, 'cs) noise_lib \<Rightarrow> StaticKeys \<Rightarrow> incoming list \<Rightarrow> 'cs accept_outcome option" where
  "Listener_Accept nl keys [] = None"
| "Listener_Accept nl keys (IncErr quit # rest) = Some (if quit then AcceptClosed else AcceptError)"
| "Listener_Accept nl keys (IncConn w wok # rest) = (case fst (Accept_conn nl keys w wok) of
      Some r \<Rightarrow> Some (Accepted r)
    | None \<Rightarrow> Listener_Accept nl keys rest)"

text \<open>The port picker; its state is the next port, zero before the first use.\<close>

definition PickPort :: "int \<Rightarrow> int \<times> int" where
  "PickPort base0 =
    (let base = (if base0 = 0 then 52100 else base0);
         next = (if 52999 < base + 1 then 52100 else base + 1)
     in (base, next))"

definition ResetPortPicker :: int where
  "ResetPortPicker = 0"

fun pick_ports :: "nat \<Rightarrow> int \<Rightarrow> int list" where
  "pick_ports 0 base = []"
| "pick_ports (Suc n) base = (let (p, base') = PickPort base in p # pick_ports n base')"

section \<open>Properties\<close>

text \<open>C24: Frames survive the encrypted connection: whatever frames one side's multiplexer encodes and
  writes through its encrypted connection, the other side, reading its own connection through any
  pattern of partial reads, decodes exactly those frames. The cipher is any pair of states that stay
  in step; payloads respect the frame limit, and the ciphertexts then respect the 16 MiB limit of the
  outer framing.\<close>

theorem secure_frames_roundtrip:
  assumes pair: "cipher_pair sync enc dec" and sync: "sync (ec_sendCS a) (ec_recvCS b)"
    and fs: "\<forall>f \<in> set fs. length (fr_Payload f) \<le> MaxPayloadLen"
    and sent: "EC_WriteAll enc (concat (map (\<lambda>f. the (EncodeFrame f)) fs)) a = (Some wire, a')"
    and b: "ec_in b = wire" "ec_buf b = []"
  shows "fst (read_frames (DecodeFrame (EC_ReadFull dec)) (length fs) b) = fs"
proof -
  let ?ws = "concat (map (\<lambda>f. the (EncodeFrame f)) fs)"
  have "length w + 16 \<le> maxNetFrame" if "w \<in> set ?ws" for w
    using that fs by (auto simp: EncodeFrame_def maxNetFrame_def MaxPayloadLen_def FrameHeaderLen_def
        split: if_splits)
  then have plain: "wire_plain dec (ec_recvCS b) wire = Some (concat ?ws)"
    using WriteAll_plain [OF pair sync _ sent] by blast
  have "concat ?ws = write_frames frame_bytes fs"
    using fs by (induction fs) (auto simp: write_frames_def frame_bytes_def EncodeFrame_def)
  with plain b have "ec_ok dec b" "ec_view dec b = write_frames frame_bytes fs @ []"
    by (simp_all add: ec_ok_def ec_view_def)
  from secure.decode_frames [OF this fs] show ?thesis by auto
qed

text \<open>The two ends of a handshake agree: when the Noise library runs the three-message XX pattern
  on both sides, with the dialler's messages reaching the listener and the listener's reaching the
  dialler, both return a connection, the dialler sends with the state the listener receives with and
  the other way round, the listener reports the static key the library learnt, and bytes that follow
  the handshake stay unread.\<close>

theorem handshake_connects:
  assumes new: "nl_new nl True ki = Some i0" "nl_new nl False kr = Some r0"
    and m1: "nl_write nl i0 [] = Some (m1, None, None, i1)" "nl_read nl r0 m1 = Some (x1, None, None, r1)"
    and m2: "nl_write nl r1 [] = Some (m2, None, None, r2)" "nl_read nl i1 m2 = Some (x2, None, None, i2)"
    and m3: "nl_write nl i2 [] = Some (m3, Some c1, Some c2, i3)" "nl_read nl r2 m3 = Some (x3, Some c1, Some c2, r3)"
    and len: "length m1 \<le> maxNetFrame" "length m2 \<le> maxNetFrame" "length m3 \<le> maxNetFrame"
    and wires: "w_i = writeFrame m2 @ rest_i" "w_r = writeFrame m1 @ writeFrame m3 @ rest_r"
  shows "Dial nl ki (Some w_i) (\<lambda>_. True) =
      (Inr \<lparr>ec_in = rest_i, ec_sendCS = Some c1, ec_recvCS = Some c2, ec_buf = []\<rparr>,
       writeFrame m1 @ writeFrame m3) \<and>
    Accept_conn nl kr w_r True =
      (Some \<lparr>ar_Conn = \<lparr>ec_in = rest_r, ec_sendCS = Some c2, ec_recvCS = Some c1, ec_buf = []\<rparr>,
         ar_PeerStatic = nl_peer nl r3\<rparr>, writeFrame m2)"
  using assms by (simp add: Dial_def Accept_conn_def NewHandshake_def HS_WriteMessage_def
      HS_ReadMessage_def handshake_step_def normalize_def readFrame_write HS_PeerStatic_def)

text \<open>A SAS code is always four decimal digits; it depends on the first eight bytes of the outer
  hash only, and so is not the documented reduction of the whole 256-bit hash: for a hash whose first
  eight bytes are zero and whose last byte is one the code is 0000, the documented one 0001.\<close>

theorem sas_code:
  "length (SASCode H hh) = 4 \<and> (\<forall>c. c \<in> set (SASCode H hh) \<longrightarrow> digit_val c \<noteq> None) \<and>
    (take 8 (H hh) = take 8 (H' hh') \<longrightarrow> SASCode H hh = SASCode H' hh') \<and>
    SASCode (\<lambda>_. replicate 31 0 @ [1]) hh = ''0000'' \<and>
    pad4 (itoa_nat (be_nat 0 (replicate 31 0 @ [1]) mod SASModulus)) = ''0001''"
proof -
  have len: "length (itoa_nat n) \<le> 4" if "n < 10000" for n
  proof -
    have "length (itoa_nat m) = (if m < 10 then 1 else Suc (length (itoa_nat (m div 10))))" for m
      by (subst itoa_nat.simps) simp
    from this [of n] this [of "n div 10"] this [of "n div 10 div 10"] this [of "n div 10 div 10 div 10"] that
    show ?thesis by (auto simp: div_mult2_eq [symmetric])
  qed
  have "length (SASCode H hh) = 4"
    using len [of "be_nat 0 (take 8 (H hh)) mod 10000"] by (simp add: SASCode_def pad4_def SASModulus_def)
  moreover have "digit_val (CHR ''0'') = Some 0" using digit_val_char [of 0] by (simp add: digit_char_def)
  then have "\<forall>c. c \<in> set (SASCode H hh) \<longrightarrow> digit_val c \<noteq> None"
    using itoa_nat_digits by (auto simp: SASCode_def pad4_def)
  moreover have z: "digit_char 0 = CHR ''0''" and o: "digit_char (Suc 0) = CHR ''1''"
    by (simp_all add: digit_char_def)
  have "SASCode (\<lambda>_. replicate 31 0 @ [1]) hh = ''0000''"
    using be_nat_zeros [of 8 "[]"] z by (simp add: SASCode_def itoa_nat.simps pad4_def take_replicate numeral_3_eq_3)
  moreover have "pad4 (itoa_nat (be_nat 0 (replicate 31 0 @ [1]) mod SASModulus)) = ''0001''"
    using be_nat_zeros [of 31 "[1]"] o by (simp add: SASModulus_def itoa_nat.simps pad4_def numeral_3_eq_3)
  ultimately show ?thesis by (simp add: SASCode_def)
qed

text \<open>The port picker hands out ports of 52100 to 52999 only, from the first one on in order, and
  comes back to the first after the last: the n-th port picked after a reset is 52100 + n mod 900.\<close>

theorem port_picker_cycles:
  "pick_ports n ResetPortPicker = map (\<lambda>i. 52100 + int (i mod 900)) [0..<n] \<and>
    (\<forall>p. p \<in> set (pick_ports n ResetPortPicker) \<longrightarrow> 52100 \<le> p \<and> p \<le> 52999)"
proof -
  have step: "PickPort (52100 + int (k mod 900)) = (52100 + int (k mod 900), 52100 + int (Suc k mod 900))" for k
  proof -
    have "Suc k mod 900 = (if Suc (k mod 900) = 900 then 0 else Suc (k mod 900))" by (rule mod_Suc)
    moreover have "k mod 900 < 900" by simp
    ultimately show ?thesis by (auto simp: PickPort_def Let_def)
  qed
  have run: "pick_ports n (52100 + int (k mod 900)) = map (\<lambda>i. 52100 + int (i mod 900)) [k..<k + n]" for n k
  proof (induction n arbitrary: k)
    case (Suc n)
    have "[k..<k + Suc n] = k # [Suc k..<Suc k + n]" by (simp add: upt_conv_Cons)
    with Suc.IH [of "Suc k"] step [of k] show ?case by simp
  qed simp
  have first: "PickPort ResetPortPicker = PickPort (52100 + int (0 mod 900))"
    by (simp add: PickPort_def ResetPortPicker_def)
  have eq: "pick_ports n ResetPortPicker = map (\<lambda>i. 52100 + int (i mod 900)) [0..<n]"
  proof (cases n)
    case (Suc m)
    then have "pick_ports n ResetPortPicker = pick_ports n (52100 + int (0 mod 900))"
      using first by simp
    with run [of n 0] show ?thesis by simp
  qed simp
  have "52100 + int (i mod 900) \<le> 52999" for i
    using mod_less_divisor [of 900 i] by linarith
  with eq show ?thesis by auto
qed

section \<open>Witnesses\<close>

definition toy_enc :: "nat encrypt" where
  "toy_enc s p = (Some (p @ [word_of_nat s]), Suc s)"

definition toy_dec :: "nat decrypt" where
  "toy_dec r c = (Some (butlast c), Suc r)"

definition toy_conn :: "bytes \<Rightarrow> nat EncryptedConn" where
  "toy_conn w = \<lparr>ec_in = w, ec_sendCS = 0, ec_recvCS = 0, ec_buf = []\<rparr>"

lemma toy_pair: "cipher_pair (=) toy_enc toy_dec"
  by (auto simp: cipher_pair_def toy_enc_def toy_dec_def)

theorem secure_frames_roundtrip_witness:
  "fst (read_frames (DecodeFrame (EC_ReadFull toy_dec)) 2
     (toy_conn (the (fst (EC_WriteAll toy_enc (concat (map (\<lambda>f. the (EncodeFrame f)) [demo_frame, demo_frame]))
       (toy_conn [])))))) = [demo_frame, demo_frame]"
proof -
  let ?ws = "concat (map (\<lambda>f. the (EncodeFrame f)) [demo_frame, demo_frame])"
  have "\<exists>out ec'. EC_WriteAll toy_enc ws ec = (Some out, ec')" for ws ec
  proof (induction ws arbitrary: ec)
    case (Cons w ws)
    from Cons.IH [of "ec\<lparr>ec_sendCS := Suc (ec_sendCS ec)\<rparr>"] show ?case
      by (auto simp: EC_Write_def toy_enc_def)
  qed simp
  then have "EC_WriteAll toy_enc ws ec = (Some (the (fst (EC_WriteAll toy_enc ws ec))),
      snd (EC_WriteAll toy_enc ws ec))" for ws ec
    by (metis fst_conv option.sel prod.collapse)
  from secure_frames_roundtrip [OF toy_pair _ _ this [of ?ws "toy_conn []"], of "toy_conn _"]
  show ?thesis by (simp add: toy_conn_def demo_frame_def MaxPayloadLen_def numeral_2_eq_2)
qed

definition toy_noise :: "(nat, nat) noise_lib" where
  "toy_noise = \<lparr>nl_new = (\<lambda>ini k. Some (if ini then 0 else 10)),
     nl_write = (\<lambda>hs p. Some ([word_of_nat hs], if hs = 2 then Some 1 else None,
        if hs = 2 then Some 2 else None, hs + 1)),
     nl_read = (\<lambda>hs m. Some ([], if hs = 12 then Some 1 else None,
        if hs = 12 then Some 2 else None, hs + 1)),
     nl_binding = (\<lambda>hs. []), nl_peer = (\<lambda>hs. [9])\<rparr>"

definition toy_keys :: StaticKeys where
  "toy_keys = \<lparr>sk_Private = replicate 32 0, sk_Public = replicate 32 0\<rparr>"

theorem handshake_connects_witness:
  "fst (Dial toy_noise toy_keys (Some (writeFrame [11] @ [1])) (\<lambda>_. True)) =
      Inr \<lparr>ec_in = [1], ec_sendCS = Some 1, ec_recvCS = Some 2, ec_buf = []\<rparr> \<and>
    map_option (ec_sendCS \<circ> ar_Conn) (fst (Accept_conn toy_noise toy_keys (writeFrame [0] @ writeFrame [2]) True))
      = Some (Some 2)"
  using handshake_connects [of toy_noise toy_keys 0 toy_keys 10 "[0]" 1 "[]" 11 "[11]" 12 "[]" 2 "[2]" 1 2 3 "[]" 13
      "writeFrame [11] @ [1]" "[1]" "writeFrame [0] @ writeFrame [2]" "[]"]
  by (simp add: toy_noise_def maxNetFrame_def)

theorem sas_code_witness:
  "SASCode (\<lambda>b. b) (replicate 8 0) = SASCode (\<lambda>b. b) (replicate 8 0 @ [5]) \<and>
    length (SASCode (\<lambda>b. b) [1]) = 4"
  using sas_code [of "\<lambda>b. b" "replicate 8 0" "\<lambda>b. b" "replicate 8 0 @ [5]"]
    sas_code [of "\<lambda>b. b" "[1]" "\<lambda>b. b" "[]"] by simp

theorem port_picker_cycles_witness:
  "pick_ports 3 ResetPortPicker = [52100, 52101, 52102] \<and> 52100 \<le> (52102 :: int)"
  using port_picker_cycles [of 3] by (simp add: upt_rec numeral_3_eq_3)

end
