(* ===== verification/Mux.thy ===== *)
theory Mux
  imports SecureConn Fifo
begin

text \<open>
  The stream multiplexer (\<open>core/transport/stream.go\<close>). Streams are pointers shared by the registry,
  the accept channel and the callers, so the state has a heap of streams addressed by handles. The
  read loop blocks on full channels, so its position is part of the state; where a \<open>select\<close> finds two
  cases ready, Go picks either, and a \<open>pick\<close> argument says which. \<open>None\<close> as the result of an
  operation means that it blocks. Frames written to the connection are collected in \<open>mx_out\<close>.
\<close>

section \<open>State\<close>

datatype MuxErr = ErrMuxClosed | ErrStreamClosed | ErrEOF | ErrDecode FrameErr | ErrTooLarge | ErrConnWrite

definition frameRecvBuf :: nat where
  "frameRecvBuf = 128"

definition acceptBuf :: nat where
  "acceptBuf = 16"

record Stream =
  st_id :: "32 word"
  st_rcvCh :: "Frame list"
  st_closed :: bool
  st_closeErr :: "MuxErr option"

datatype read_loop = Reading | WaitAccept nat Frame | WaitDeliver nat Frame | Stopped

record Mux =
  mx_role :: HandshakeRole
  mx_streams :: "(32 word, nat) gomap"
  mx_heap :: "Stream list"
  mx_nextID :: "32 word"
  mx_closed :: bool
  mx_closeErr :: "MuxErr option"
  mx_acceptCh :: "nat list"
  mx_out :: "Frame list"
  mx_loop :: read_loop

definition NewMux :: "HandshakeRole \<Rightarrow> Mux" where
  "NewMux role = \<lparr>mx_role = role, mx_streams = [], mx_heap = [],
     mx_nextID = (if role = RoleResponder then 1 else 0), mx_closed = False, mx_closeErr = None,
     mx_acceptCh = [], mx_out = [], mx_loop = Reading\<rparr>"

definition newStream :: "32 word \<Rightarrow> Stream" where
  "newStream i = \<lparr>st_id = i, st_rcvCh = [], st_closed = False, st_closeErr = None\<rparr>"

section \<open>Streams\<close>

definition upd_stream :: "nat \<Rightarrow> (Stream \<Rightarrow> Stream) \<Rightarrow> Mux \<Rightarrow> Mux" where
  "upd_stream h g m = m\<lparr>mx_heap := (mx_heap m)[h := g (mx_heap m ! h)]\<rparr>"

definition closed_stream :: "MuxErr option \<Rightarrow> Stream \<Rightarrow> Stream" where
  "closed_stream err s = s\<lparr>st_closed := True,
     st_closeErr := Some (case err of None \<Rightarrow> ErrStreamClosed | Some e \<Rightarrow> e)\<rparr>"

definition removeStream :: "32 word \<Rightarrow> Mux \<Rightarrow> Mux" where
  [simp]: "removeStream i m = m\<lparr>mx_streams := gdel i (mx_streams m)\<rparr>"

definition stream_close :: "nat \<Rightarrow> MuxErr option \<Rightarrow> Mux \<Rightarrow> Mux" where
  "stream_close h err m =
    (if st_closed (mx_heap m ! h) then m
     else removeStream (st_id (mx_heap m ! h)) (upd_stream h (closed_stream err) m))"

text \<open>\<open>shutdown\<close> closes the registered streams in the order \<open>range\<close> visits them.\<close>

definition shutdown :: "MuxErr \<Rightarrow> Mux \<Rightarrow> Mux" where
  "shutdown err m =
    (if mx_closed m then m
     else fold (\<lambda>h. stream_close h (Some err)) (map snd (mx_streams m))
       (m\<lparr>mx_closed := True, mx_closeErr := Some err\<rparr>))"

definition Mux_Close :: "Mux \<Rightarrow> Mux" where
  "Mux_Close m = shutdown ErrMuxClosed m"

text \<open>A stream's inbound channel: sending one frame into it, and receiving one when the \<open>select\<close> with
  the done signal allows.\<close>

definition push_frame :: "Frame \<Rightarrow> Stream \<Rightarrow> Stream" where
  "push_frame f s = s\<lparr>st_rcvCh := st_rcvCh s @ [f]\<rparr>"

definition pop_frame :: "bool \<Rightarrow> Stream \<Rightarrow> (Frame \<times> Stream) option" where
  "pop_frame pick s =
    (if st_rcvCh s \<noteq> [] \<and> (pick \<or> \<not> st_closed s)
     then Some (hd (st_rcvCh s), s\<lparr>st_rcvCh := tl (st_rcvCh s)\<rparr>) else None)"

interpretation rcv_channel: fifo "\<lambda>(_ :: unit) s. st_rcvCh s" "\<lambda>_. ()" push_frame pop_frame closed_stream
  by unfold_locales (auto simp: push_frame_def pop_frame_def closed_stream_def split: if_splits)

section \<open>The read loop\<close>

text \<open>\<open>deliver\<close> up to its \<open>select\<close>.\<close>

definition deliver_entry :: "nat \<Rightarrow> Frame \<Rightarrow> Mux \<Rightarrow> Mux" where
  "deliver_entry h f m =
    (if st_closed (mx_heap m ! h) then m\<lparr>mx_loop := Reading\<rparr> else m\<lparr>mx_loop := WaitDeliver h f\<rparr>)"

text \<open>\<open>dispatch\<close> up to its first blocking point.\<close>

definition dispatch :: "Frame \<Rightarrow> Mux \<Rightarrow> Mux" where
  "dispatch f m = (case map_of (mx_streams m) (fr_StreamID f) of
      Some h \<Rightarrow> deliver_entry h f m
    | None \<Rightarrow>
        if fr_Type f = FrameMeta then
          let h = length (mx_heap m) in
          m\<lparr>mx_heap := mx_heap m @ [newStream (fr_StreamID f)],
            mx_streams := gput (fr_StreamID f) h (mx_streams m),
            mx_loop := WaitAccept h f\<rparr>
        else m\<lparr>mx_loop := Reading\<rparr>)"

text \<open>\<open>Serve\<close> with what it has read: the decode error that ends it, or a frame for \<open>dispatch\<close>. The deferred second
  shutdown finds the mux closed.\<close>

definition Mux_Serve :: "FrameErr + Frame \<Rightarrow> Mux \<Rightarrow> Mux" where
  [simp]: "Mux_Serve inp m = (case inp of
      Inl e \<Rightarrow> (shutdown ErrEOF (shutdown (ErrDecode e) m))\<lparr>mx_loop := Stopped\<rparr>
    | Inr f \<Rightarrow> dispatch f m)"

text \<open>The read loop's next step; \<open>inp\<close> is the next frame or the decode error, \<open>pick\<close> prefers the
  channel over the done signal when both are ready.\<close>

definition serve_step :: "bool \<Rightarrow> FrameErr + Frame \<Rightarrow> Mux \<Rightarrow> Mux option" where
  "serve_step pick inp m = (case mx_loop m of
      Stopped \<Rightarrow> None
    | Reading \<Rightarrow> Some (Mux_Serve inp m)
    | WaitAccept h f \<Rightarrow>
        if length (mx_acceptCh m) < acceptBuf \<and> (pick \<or> \<not> mx_closed m)
        then Some (deliver_entry h f (m\<lparr>mx_acceptCh := mx_acceptCh m @ [h]\<rparr>))
        else if mx_closed m then Some ((stream_close h (Some ErrMuxClosed) m)\<lparr>mx_loop := Reading\<rparr>)
        else None
    | WaitDeliver h f \<Rightarrow>
        let s = mx_heap m ! h in
        if length (st_rcvCh s) < frameRecvBuf \<and> (pick \<or> \<not> st_closed s)
        then Some ((upd_stream h (push_frame f) m)\<lparr>mx_loop := Reading\<rparr>)
        else if st_closed s then Some (m\<lparr>mx_loop := Reading\<rparr>)
        else None)"

section \<open>Opening, accepting, receiving, sending\<close>

definition Open :: "Mux \<Rightarrow> (MuxErr + nat) \<times> Mux" where
  "Open m =
    (if mx_closed m then (Inl ErrMuxClosed, m)
     else let i = mx_nextID m; h = length (mx_heap m) in
       (Inr h, m\<lparr>mx_heap := mx_heap m @ [newStream i],
                 mx_streams := gput i h (mx_streams m), mx_nextID := i + 2\<rparr>))"

definition Accept :: "bool \<Rightarrow> Mux \<Rightarrow> ((MuxErr option + nat) \<times> Mux) option" where
  "Accept pick m =
    (if mx_acceptCh m \<noteq> [] \<and> (pick \<or> \<not> mx_closed m)
     then Some (Inr (hd (mx_acceptCh m)), m\<lparr>mx_acceptCh := tl (mx_acceptCh m)\<rparr>)
     else if mx_closed m then Some (Inl (mx_closeErr m), m)
     else None)"

definition is_teardown :: "8 word \<Rightarrow> bool" where
  "is_teardown ty \<longleftrightarrow> ty = FrameEnd \<or> ty = FrameCancel \<or> ty = FrameError"

definition RecvFrame :: "bool \<Rightarrow> nat \<Rightarrow> Mux \<Rightarrow> ((MuxErr option + Frame) \<times> Mux) option" where
  "RecvFrame pick h m = (case pop_frame pick (mx_heap m ! h) of
      Some (f, s) \<Rightarrow>
        let m1 = upd_stream h (\<lambda>_. s) m in
        Some (Inr f, if is_teardown (fr_Type f) then stream_close h None m1 else m1)
    | None \<Rightarrow>
        if st_closed (mx_heap m ! h) then Some (Inl (st_closeErr (mx_heap m ! h)), m) else None)"

text \<open>\<open>wok\<close> is whether the connection takes the bytes.\<close>

definition Mux_writeFrame :: "bool \<Rightarrow> Frame \<Rightarrow> Mux \<Rightarrow> MuxErr option \<times> Mux" where
  "Mux_writeFrame wok f m =
    (if mx_closed m then (Some ErrMuxClosed, m)
     else (case EncodeFrame f of
         None \<Rightarrow> (Some ErrTooLarge, shutdown ErrTooLarge m)
       | Some ws \<Rightarrow>
           if wok then (None, m\<lparr>mx_out := mx_out m @ [f]\<rparr>)
           else (Some ErrConnWrite, shutdown ErrConnWrite m)))"

definition SendFrame :: "bool \<Rightarrow> nat \<Rightarrow> 8 word \<Rightarrow> bytes \<Rightarrow> Mux \<Rightarrow> MuxErr option \<times> Mux" where
  "SendFrame wok h ty p m =
    (if st_closed (mx_heap m ! h) then (Some ErrStreamClosed, m)
     else Mux_writeFrame wok \<lparr>fr_StreamID = st_id (mx_heap m ! h), fr_Type = ty, fr_Payload = p\<rparr> m)"

definition SendData :: "bool \<Rightarrow> nat \<Rightarrow> bytes \<Rightarrow> Mux \<Rightarrow> MuxErr option \<times> Mux" where
  "SendData wok h p m = SendFrame wok h FrameData p m"

definition SendMeta :: "bool \<Rightarrow> nat \<Rightarrow> bytes \<Rightarrow> Mux \<Rightarrow> MuxErr option \<times> Mux" where
  "SendMeta wok h p m = SendFrame wok h FrameMeta p m"

definition SendACK :: "bool \<Rightarrow> nat \<Rightarrow> bytes \<Rightarrow> Mux \<Rightarrow> MuxErr option \<times> Mux" where
  "SendACK wok h p m = SendFrame wok h FrameACK p m"

definition SendTeardown :: "8 word \<Rightarrow> bool \<Rightarrow> nat \<Rightarrow> bytes \<Rightarrow> Mux \<Rightarrow> MuxErr option \<times> Mux" where
  "SendTeardown ty wok h p m = (case SendFrame wok h ty p m of
      (Some e, m') \<Rightarrow> (Some e, m')
    | (None, m') \<Rightarrow> (None, stream_close h None m'))"

definition SendEnd :: "bool \<Rightarrow> nat \<Rightarrow> bytes \<Rightarrow> Mux \<Rightarrow> MuxErr option \<times> Mux" where
  "SendEnd wok h p m = SendTeardown FrameEnd wok h p m"

definition SendCancel :: "bool \<Rightarrow> nat \<Rightarrow> bytes \<Rightarrow> Mux \<Rightarrow> MuxErr option \<times> Mux" where
  "SendCancel wok h p m = SendTeardown FrameCancel wok h p m"

definition SendError :: "bool \<Rightarrow> nat \<Rightarrow> bytes \<Rightarrow> Mux \<Rightarrow> MuxErr option \<times> Mux" where
  "SendError wok h p m = SendTeardown FrameError wok h p m"

definition Stream_Close :: "nat \<Rightarrow> Mux \<Rightarrow> Mux" where
  "Stream_Close h m = stream_close h None m"

section \<open>The step relation\<close>

inductive mux_step :: "Mux \<Rightarrow> Mux \<Rightarrow> bool" where
  serve: "serve_step pick inp m = Some m' \<Longrightarrow> mux_step m m'"
| opened: "Open m = (r, m') \<Longrightarrow> mux_step m m'"
| accept: "Accept pick m = Some (r, m') \<Longrightarrow> mux_step m m'"
| recv: "h < length (mx_heap m) \<Longrightarrow> RecvFrame pick h m = Some (r, m') \<Longrightarrow> mux_step m m'"
| send: "h < length (mx_heap m) \<Longrightarrow> SendFrame wok h ty p m = (r, m') \<Longrightarrow> mux_step m m'"
| teardown: "h < length (mx_heap m) \<Longrightarrow> is_teardown ty \<Longrightarrow> SendTeardown ty wok h p m = (r, m') \<Longrightarrow>
    mux_step m m'"
| close_stream: "h < length (mx_heap m) \<Longrightarrow> mux_step m (Stream_Close h m)"
| close_mux: "mux_step m (Mux_Close m)"

inductive_cases mux_stepE: "mux_step m m'"

inductive mux_reach :: "HandshakeRole \<Rightarrow> Mux \<Rightarrow> bool" for role where
  init: "mux_reach role (NewMux role)"
| step: "mux_reach role m \<Longrightarrow> mux_step m m' \<Longrightarrow> mux_reach role m'"

section \<open>The invariant\<close>

definition stream_ok :: "Stream \<Rightarrow> bool" where
  "stream_ok s \<longleftrightarrow> length (st_rcvCh s) \<le> frameRecvBuf \<and> (st_closed s \<longrightarrow> st_closeErr s \<noteq> None)"

definition registry_ok :: "Mux \<Rightarrow> bool" where
  "registry_ok m \<longleftrightarrow> gwf (mx_streams m) \<and> (\<forall>i h. map_of (mx_streams m) i = Some h \<longrightarrow>
     h < length (mx_heap m) \<and> st_id (mx_heap m ! h) = i \<and> \<not> st_closed (mx_heap m ! h))"

definition loop_ok :: "Mux \<Rightarrow> bool" where
  "loop_ok m \<longleftrightarrow> (case mx_loop m of WaitAccept h f \<Rightarrow> h < length (mx_heap m)
     | WaitDeliver h f \<Rightarrow> h < length (mx_heap m) | _ \<Rightarrow> True)"

definition mux_inv :: "HandshakeRole \<Rightarrow> Mux \<Rightarrow> bool" where
  "mux_inv role m \<longleftrightarrow> registry_ok m \<and> loop_ok m \<and> (\<forall>s \<in> set (mx_heap m). stream_ok s) \<and>
     (\<forall>h \<in> set (mx_acceptCh m). h < length (mx_heap m)) \<and> length (mx_acceptCh m) \<le> acceptBuf \<and>
     (mx_closed m \<longrightarrow> mx_closeErr m \<noteq> None) \<and> (even (mx_nextID m) \<longleftrightarrow> role = RoleInitiator)"

lemma stream_ok_intros [simp]: "stream_ok (newStream i)"
  "stream_ok s \<Longrightarrow> stream_ok (closed_stream e s)"
  "stream_ok s \<Longrightarrow> stream_ok (s\<lparr>st_rcvCh := tl (st_rcvCh s)\<rparr>)"
  "stream_ok s \<Longrightarrow> length (st_rcvCh s) < frameRecvBuf \<Longrightarrow> stream_ok (s\<lparr>st_rcvCh := st_rcvCh s @ [f]\<rparr>)"
  by (auto simp: stream_ok_def newStream_def closed_stream_def)

lemma upd_stream_simps [simp]:
  "mx_streams (upd_stream h g m) = mx_streams m" "mx_loop (upd_stream h g m) = mx_loop m"
  "mx_acceptCh (upd_stream h g m) = mx_acceptCh m" "mx_closed (upd_stream h g m) = mx_closed m"
  "mx_closeErr (upd_stream h g m) = mx_closeErr m" "mx_nextID (upd_stream h g m) = mx_nextID m"
  "mx_role (upd_stream h g m) = mx_role m" "mx_out (upd_stream h g m) = mx_out m"
  "mx_heap (upd_stream h g m) = (mx_heap m)[h := g (mx_heap m ! h)]"
  by (simp_all add: upd_stream_def)

lemma stream_close_simps [simp]:
  "mx_loop (stream_close h e m) = mx_loop m" "mx_acceptCh (stream_close h e m) = mx_acceptCh m"
  "mx_closed (stream_close h e m) = mx_closed m" "mx_closeErr (stream_close h e m) = mx_closeErr m"
  "mx_nextID (stream_close h e m) = mx_nextID m" "mx_role (stream_close h e m) = mx_role m"
  "mx_out (stream_close h e m) = mx_out m"
  "length (mx_heap (stream_close h e m)) = length (mx_heap m)"
  by (simp_all add: stream_close_def)

lemma upd_stream_inv:
  assumes inv: "mux_inv role m" and h: "h < length (mx_heap m)"
    and g: "stream_ok (g (mx_heap m ! h))" "st_id (g (mx_heap m ! h)) = st_id (mx_heap m ! h)"
      "st_closed (g (mx_heap m ! h)) = st_closed (mx_heap m ! h)"
  shows "mux_inv role (upd_stream h g m)"
proof -
  have "stream_ok s" if "s \<in> set ((mx_heap m)[h := g (mx_heap m ! h)])" for s
    using set_update_subset_insert [of "mx_heap m" h "g (mx_heap m ! h)"] that inv g(1)
    by (auto simp: mux_inv_def)
  moreover have "registry_ok (upd_stream h g m)"
    using inv h g by (auto simp: mux_inv_def registry_ok_def nth_list_update)
  ultimately show ?thesis using inv by (simp add: mux_inv_def loop_ok_def split: read_loop.splits)
qed

lemma stream_close_inv:
  assumes inv: "mux_inv role m" and h: "h < length (mx_heap m)"
  shows "mux_inv role (stream_close h e m)"
proof (cases "st_closed (mx_heap m ! h)")
  case True
  then show ?thesis using inv by (simp add: stream_close_def)
next
  case False
  have "stream_ok s" if "s \<in> set ((mx_heap m)[h := closed_stream e (mx_heap m ! h)])" for s
    using set_update_subset_insert [of "mx_heap m" h "closed_stream e (mx_heap m ! h)"] that inv h
    by (auto simp: mux_inv_def)
  moreover have "registry_ok (stream_close h e m)"
    unfolding registry_ok_def
  proof (intro conjI allI impI)
    have reg: "registry_ok m" using inv by (simp add: mux_inv_def)
    then show "gwf (mx_streams (stream_close h e m))"
      using False by (simp add: stream_close_def registry_ok_def)
    fix i j
    assume "map_of (mx_streams (stream_close h e m)) i = Some j"
    then have ij: "map_of (mx_streams m) i = Some j" "i \<noteq> st_id (mx_heap m ! h)"
      using False by (auto simp: stream_close_def map_of_gdel split: if_splits)
    then have j: "j < length (mx_heap m)" "st_id (mx_heap m ! j) = i" "\<not> st_closed (mx_heap m ! j)"
      using reg by (auto simp: registry_ok_def)
    with ij(2) have "j \<noteq> h" by auto
    with j show "j < length (mx_heap (stream_close h e m))"
      "st_id (mx_heap (stream_close h e m) ! j) = i" "\<not> st_closed (mx_heap (stream_close h e m) ! j)"
      by (simp_all add: stream_close_def)
  qed
  ultimately show ?thesis
    using inv False by (simp add: mux_inv_def loop_ok_def stream_close_def split: read_loop.splits)
qed

lemma fold_close_inv:
  "mux_inv role m \<Longrightarrow> (\<forall>h \<in> set hs. h < length (mx_heap m)) \<Longrightarrow>
    mux_inv role (fold (\<lambda>h. stream_close h e) hs m)"
  by (induction hs arbitrary: m) (simp_all add: stream_close_inv)

lemma fold_close_simps [simp]:
  "mx_closed (fold (\<lambda>h. stream_close h e) hs m) = mx_closed m"
  "mx_closeErr (fold (\<lambda>h. stream_close h e) hs m) = mx_closeErr m"
  "mx_loop (fold (\<lambda>h. stream_close h e) hs m) = mx_loop m"
  "mx_nextID (fold (\<lambda>h. stream_close h e) hs m) = mx_nextID m"
  "length (mx_heap (fold (\<lambda>h. stream_close h e) hs m)) = length (mx_heap m)"
  by (induction hs arbitrary: m) auto

lemma close_keeps: "st_closed (mx_heap m ! j) \<Longrightarrow> mx_heap (stream_close h e m) ! j = mx_heap m ! j"
  by (cases "j = h") (simp_all add: stream_close_def)

lemma close_sets: "h < length (mx_heap m) \<Longrightarrow> \<not> st_closed (mx_heap m ! h) \<Longrightarrow>
    mx_heap (stream_close h e m) ! h = closed_stream e (mx_heap m ! h)"
  by (simp add: stream_close_def)

lemma close_other: "j \<noteq> h \<Longrightarrow> mx_heap (stream_close h e m) ! j = mx_heap m ! j"
  by (simp add: stream_close_def)

lemma fold_close_keeps: "st_closed (mx_heap m ! j) \<Longrightarrow>
    mx_heap (fold (\<lambda>h. stream_close h e) hs m) ! j = mx_heap m ! j"
  by (induction hs arbitrary: m) (auto simp: close_keeps)

lemma fold_close_sets:
  "j \<in> set hs \<Longrightarrow> j < length (mx_heap m) \<Longrightarrow> \<not> st_closed (mx_heap m ! j) \<Longrightarrow>
    mx_heap (fold (\<lambda>h. stream_close h e) hs m) ! j = closed_stream e (mx_heap m ! j)"
proof (induction hs arbitrary: m)
  case (Cons h hs)
  show ?case
  proof (cases "h = j")
    case True
    with Cons.prems have "mx_heap (stream_close h e m) ! j = closed_stream e (mx_heap m ! j)"
      by (simp add: close_sets)
    then show ?thesis by (simp add: fold_close_keeps closed_stream_def)
  next
    case False
    with Cons.prems Cons.IH [of "stream_close h e m"] show ?thesis by (simp add: close_other)
  qed
qed simp

lemma close_streams_sub: "map_of (mx_streams (stream_close h e m)) i = Some x \<Longrightarrow> map_of (mx_streams m) i = Some x"
  by (auto simp: stream_close_def map_of_gdel split: if_splits)

lemma fold_close_streams_sub:
  "map_of (mx_streams (fold (\<lambda>h. stream_close h e) hs m)) i = Some x \<Longrightarrow> map_of (mx_streams m) i = Some x"
  by (induction hs arbitrary: m) (auto dest: close_streams_sub)

lemma registered_in: "gwf ms \<Longrightarrow> h \<in> set (map snd ms) \<longleftrightarrow> (\<exists>i. map_of ms i = Some h)"
  by (force simp: gwf_set_iff [symmetric])

lemma shutdown_twice [simp]: "shutdown e (shutdown e' m) = shutdown e' m"
proof -
  have "mx_closed (shutdown e' m)" by (simp add: shutdown_def)
  then show ?thesis by (simp add: shutdown_def [of e])
qed

lemma shutdown_inv: "mux_inv role m \<Longrightarrow> mux_inv role (shutdown e m)"
proof -
  assume inv: "mux_inv role m"
  then have "mux_inv role (m\<lparr>mx_closed := True, mx_closeErr := Some e\<rparr>)"
    by (auto simp: mux_inv_def registry_ok_def loop_ok_def split: read_loop.splits)
  moreover have "\<forall>h \<in> set (map snd (mx_streams m)). h < length (mx_heap m)"
    using inv registered_in [of "mx_streams m"] by (auto simp: mux_inv_def registry_ok_def)
  ultimately show ?thesis using inv by (simp add: shutdown_def fold_close_inv)
qed

lemma add_stream_inv:
  assumes inv: "mux_inv role m"
  shows "mux_inv role (m\<lparr>mx_heap := mx_heap m @ [newStream i],
      mx_streams := gput i (length (mx_heap m)) (mx_streams m)\<rparr>)"
proof -
  let ?m = "m\<lparr>mx_heap := mx_heap m @ [newStream i],
      mx_streams := gput i (length (mx_heap m)) (mx_streams m)\<rparr>"
  have "registry_ok ?m"
    using inv by (auto simp: mux_inv_def registry_ok_def map_of_gput nth_append newStream_def less_SucI)
  moreover have "loop_ok ?m" using inv by (auto simp: mux_inv_def loop_ok_def split: read_loop.splits)
  ultimately show ?thesis using inv by (auto simp: mux_inv_def)
qed

lemma loop_upd_inv: "mux_inv role m \<Longrightarrow> loop_ok (m\<lparr>mx_loop := l\<rparr>) \<Longrightarrow> mux_inv role (m\<lparr>mx_loop := l\<rparr>)"
  by (simp add: mux_inv_def registry_ok_def)

lemma deliver_entry_inv:
  "mux_inv role m \<Longrightarrow> h < length (mx_heap m) \<Longrightarrow> mux_inv role (deliver_entry h f m)"
  unfolding deliver_entry_def by (auto intro!: loop_upd_inv simp: loop_ok_def)

lemma dispatch_inv:
  assumes inv: "mux_inv role m"
  shows "mux_inv role (dispatch f m)"
proof (cases "map_of (mx_streams m) (fr_StreamID f)")
  case (Some h)
  then have "h < length (mx_heap m)" using inv by (auto simp: mux_inv_def registry_ok_def)
  with Some inv show ?thesis by (simp add: dispatch_def deliver_entry_inv)
next
  case None
  have "mux_inv role ((m\<lparr>mx_heap := mx_heap m @ [newStream (fr_StreamID f)],
      mx_streams := gput (fr_StreamID f) (length (mx_heap m)) (mx_streams m)\<rparr>)
      \<lparr>mx_loop := WaitAccept (length (mx_heap m)) f\<rparr>)"
    by (intro loop_upd_inv add_stream_inv [OF inv]) (simp add: loop_ok_def)
  moreover have "mux_inv role (m\<lparr>mx_loop := Reading\<rparr>)"
    by (intro loop_upd_inv inv) (simp add: loop_ok_def)
  ultimately show ?thesis using None by (simp add: dispatch_def Let_def)
qed

lemma serve_inv:
  assumes inv: "mux_inv role m" and s: "serve_step pick inp m = Some m'"
  shows "mux_inv role m'"
proof (cases "mx_loop m")
  case Reading
  have "mux_inv role ((shutdown e m)\<lparr>mx_loop := Stopped\<rparr>)" for e
    by (intro loop_upd_inv shutdown_inv inv) (simp add: loop_ok_def)
  with Reading s inv show ?thesis by (auto simp: serve_step_def dispatch_inv split: sum.splits)
next
  case (WaitAccept h f)
  then have h: "h < length (mx_heap m)" using inv by (simp add: mux_inv_def loop_ok_def)
  have push: "mux_inv role (m\<lparr>mx_acceptCh := mx_acceptCh m @ [h]\<rparr>)" if "length (mx_acceptCh m) < acceptBuf"
    using that inv h by (auto simp: mux_inv_def registry_ok_def loop_ok_def split: read_loop.splits)
  have "mux_inv role ((stream_close h (Some ErrMuxClosed) m)\<lparr>mx_loop := Reading\<rparr>)"
    by (intro loop_upd_inv stream_close_inv inv h) (simp add: loop_ok_def)
  with WaitAccept s push h show ?thesis
    by (auto simp: serve_step_def intro!: deliver_entry_inv split: if_splits)
next
  case (WaitDeliver h f)
  then have h: "h < length (mx_heap m)" using inv by (simp add: mux_inv_def loop_ok_def)
  then have ok: "stream_ok (mx_heap m ! h)" using inv by (simp add: mux_inv_def)
  have "mux_inv role ((upd_stream h (push_frame f) m)\<lparr>mx_loop := Reading\<rparr>)"
    if "length (st_rcvCh (mx_heap m ! h)) < frameRecvBuf"
    using that ok by (intro loop_upd_inv upd_stream_inv inv h) (simp_all add: loop_ok_def push_frame_def)
  moreover have "mux_inv role (m\<lparr>mx_loop := Reading\<rparr>)"
    by (intro loop_upd_inv inv) (simp add: loop_ok_def)
  ultimately show ?thesis using WaitDeliver s by (auto simp: serve_step_def Let_def split: if_splits)
next
  case Stopped
  then show ?thesis using s by (simp add: serve_step_def)
qed

lemma Open_inv:
  assumes inv: "mux_inv role m" and o: "Open m = (r, m')"
  shows "mux_inv role m'"
proof (cases "mx_closed m")
  case False
  have "mux_inv role (x\<lparr>mx_nextID := mx_nextID x + 2\<rparr>)" if "mux_inv role x" for x
    using that by (auto simp: mux_inv_def registry_ok_def loop_ok_def split: read_loop.splits)
  from this [OF add_stream_inv [OF inv, of "mx_nextID m"]] False o show ?thesis
    by (auto simp: Open_def Let_def)
qed (use inv o in \<open>simp add: Open_def\<close>)

lemma writeFrame_inv: "mux_inv role m \<Longrightarrow> mux_inv role (snd (Mux_writeFrame wok f m))"
proof -
  assume inv: "mux_inv role m"
  have "mux_inv role (m\<lparr>mx_out := fs\<rparr>)" for fs
    using inv by (cases "mx_loop m") (simp_all add: mux_inv_def registry_ok_def loop_ok_def)
  with inv shutdown_inv [OF inv] show ?thesis by (simp add: Mux_writeFrame_def split: option.split)
qed

lemma SendFrame_inv: "mux_inv role m \<Longrightarrow> mux_inv role (snd (SendFrame wok h ty p m))"
  by (simp add: SendFrame_def writeFrame_inv)

lemma shutdown_heap_length [simp]: "length (mx_heap (shutdown e m)) = length (mx_heap m)"
  by (simp add: shutdown_def)

lemma SendFrame_heap_length [simp]: "length (mx_heap (snd (SendFrame wok h ty p m))) = length (mx_heap m)"
  by (auto simp: SendFrame_def Mux_writeFrame_def split: option.split)

lemma RecvFrame_inv:
  assumes inv: "mux_inv role m" and h: "h < length (mx_heap m)" and r: "RecvFrame pick h m = Some (r, m')"
  shows "mux_inv role m'"
proof -
  have "stream_ok (mx_heap m ! h)" using inv h by (simp add: mux_inv_def)
  then have "mux_inv role (upd_stream h (\<lambda>_. s) m)"
    if "pop_frame pick (mx_heap m ! h) = Some (f, s)" for f s
    using that by (intro upd_stream_inv inv h) (auto simp: pop_frame_def split: if_splits)
  with r h inv show ?thesis
    by (auto simp: RecvFrame_def Let_def stream_close_inv split: option.splits if_splits)
qed

lemma mux_step_inv: "mux_step m m' \<Longrightarrow> mux_inv role m \<Longrightarrow> mux_inv role m'"
proof (induction rule: mux_step.induct)
  case (accept pick m r m')
  have "mux_inv role (m\<lparr>mx_acceptCh := tl (mx_acceptCh m)\<rparr>)"
    using accept(2) list.set_sel(2) [of "mx_acceptCh m"]
    by (cases "mx_loop m"; cases "mx_acceptCh m") (simp_all add: mux_inv_def registry_ok_def loop_ok_def)
  with accept show ?case by (auto simp: Accept_def split: if_splits)
next
  case (send h m wok ty p r m')
  then show ?case using SendFrame_inv [of role m wok h ty p] by simp
next
  case (teardown h m ty wok p r m')
  obtain r1 m1 where sf: "SendFrame wok h ty p m = (r1, m1)" by fastforce
  then have "mux_inv role m1" "h < length (mx_heap m1)"
    using SendFrame_inv [OF teardown(4), of wok h ty p] SendFrame_heap_length [of wok h ty p m] teardown(1)
    by simp_all
  then show ?case
    using teardown(3) sf by (auto simp: SendTeardown_def intro: stream_close_inv split: option.splits)
qed (auto intro: serve_inv Open_inv RecvFrame_inv stream_close_inv shutdown_inv
  simp: Stream_Close_def Mux_Close_def)

lemma reach_mux_inv: "mux_reach role m \<Longrightarrow> mux_inv role m"
proof (induction rule: mux_reach.induct)
  case init
  then show ?case
    by (cases role) (simp_all add: NewMux_def mux_inv_def registry_ok_def loop_ok_def)
qed (rule mux_step_inv)

section \<open>Properties\<close>

text \<open>Streams the two ends of a connection open never clash: in every reachable state a newly
  opened stream has an even id at the initiator and an odd one at the responder, also after the
  32-bit counter has wrapped around, and is registered under it.\<close>

theorem opened_ids_never_clash:
  assumes a: "mux_reach RoleInitiator a" "Open a = (Inr h, a')"
    and b: "mux_reach RoleResponder b" "Open b = (Inr k, b')"
  shows "even (st_id (mx_heap a' ! h)) \<and> odd (st_id (mx_heap b' ! k)) \<and>
    st_id (mx_heap a' ! h) \<noteq> st_id (mx_heap b' ! k) \<and>
    map_of (mx_streams a') (st_id (mx_heap a' ! h)) = Some h \<and>
    map_of (mx_streams b') (st_id (mx_heap b' ! k)) = Some k"
proof -
  have opened: "st_id (mx_heap m' ! j) = mx_nextID m \<and> map_of (mx_streams m') (mx_nextID m) = Some j"
    if "Open m = (Inr j, m')" for m j m'
    using that by (auto simp: Open_def Let_def newStream_def map_of_gput split: if_splits)
  have par: "even (mx_nextID a)" "odd (mx_nextID b)"
    using reach_mux_inv [OF a(1)] reach_mux_inv [OF b(1)] by (simp_all add: mux_inv_def)
  then have "mx_nextID a \<noteq> mx_nextID b" by metis
  with opened [OF a(2)] opened [OF b(2)] par show ?thesis by simp
qed


text \<open>Shutting down an open multiplexer in a reachable state closes every registered stream with
  the given error and empties the registry; later opens, and sends on any stream, are refused; a
  second shutdown, with whatever error, changes nothing.\<close>

theorem shutdown_closes_everything:
  assumes m: "mux_reach role m" "\<not> mx_closed m" and m': "m' = shutdown e m"
  shows "mx_streams m' = [] \<and> mx_closeErr m' = Some e \<and>
    (\<forall>i h. map_of (mx_streams m) i = Some h \<longrightarrow>
      st_closed (mx_heap m' ! h) \<and> st_closeErr (mx_heap m' ! h) = Some e) \<and>
    Open m' = (Inl ErrMuxClosed, m') \<and>
    (\<forall>h wok ty p. fst (SendFrame wok h ty p m') \<in> {Some ErrMuxClosed, Some ErrStreamClosed}) \<and>
    shutdown e2 m' = m'"
proof -
  have inv: "registry_ok m" using reach_mux_inv [OF m(1)] by (simp add: mux_inv_def)
  have inv': "registry_ok m'" using shutdown_inv [OF reach_mux_inv [OF m(1)]] m' by (simp add: mux_inv_def)
  have closed: "mx_closed m'" "mx_closeErr m' = Some e" using m m' by (simp_all add: shutdown_def)
  let ?m0 = "m\<lparr>mx_closed := True, mx_closeErr := Some e\<rparr>"
  have reg: "mx_heap m' ! h = closed_stream (Some e) (mx_heap m ! h)"
    if "map_of (mx_streams m) i = Some h" for i h
  proof -
    have "h \<in> set (map snd (mx_streams m))" using that inv registered_in [of "mx_streams m" h] by (auto simp: registry_ok_def)
    moreover have "h < length (mx_heap m)" "\<not> st_closed (mx_heap m ! h)"
      using that inv by (auto simp: registry_ok_def)
    ultimately show ?thesis
      using fold_close_sets [of h "map snd (mx_streams m)" ?m0 "Some e"] m m' by (simp add: shutdown_def)
  qed
  have "map_of (mx_streams m') i \<noteq> Some h" for i h
  proof
    assume r: "map_of (mx_streams m') i = Some h"
    then have "map_of (mx_streams m) i = Some h"
      using fold_close_streams_sub [of "Some e" "map snd (mx_streams m)" ?m0] m m'
      by (simp add: shutdown_def)
    then have "st_closed (mx_heap m' ! h)" using reg by (simp add: closed_stream_def)
    with inv' r show False by (simp add: registry_ok_def)
  qed
  then have "map_of (mx_streams m') = Map.empty" by (intro ext) (metis not_None_eq)
  then have "mx_streams m' = []" by simp
  with closed reg show ?thesis
    by (auto simp: closed_stream_def Open_def SendFrame_def Mux_writeFrame_def shutdown_def)
qed

text \<open>A stream yields the frames delivered to it in order and without loss or duplication: after
  any sequence of deliveries, receives and closes of its channel, the frames received followed by the
  frames still buffered are the frames buffered at first followed by the frames delivered.\<close>

theorem stream_frames_in_order:
  assumes "fifo_run push_frame pop_frame closed_stream ops s = (received, s')"
  shows "received @ st_rcvCh s' = st_rcvCh s @ fifo_inputs ops"
  using rcv_channel.run_fifo [OF assms, of "()"] by simp

text \<open>Sending END, CANCEL or ERROR is final: afterwards the local stream is closed and
  unregistered, sends on it fail, once its buffer is empty a receive reports \<open>ErrStreamClosed\<close> (not
  end of file), and further frames of the peer for it, such as the acknowledgement of the last chunk,
  are dropped.\<close>

theorem teardown_is_final:
  assumes "mux_reach role m" "map_of (mx_streams m) i = Some h" "SendTeardown ty wok h p m = (None, m')"
  shows "st_closed (mx_heap m' ! h) \<and> map_of (mx_streams m') i = None \<and>
    fst (SendFrame wok' h ty' p' m') = Some ErrStreamClosed \<and>
    (st_rcvCh (mx_heap m ! h) = [] \<longrightarrow>
      RecvFrame pick h m' = Some (Inl (Some ErrStreamClosed), m')) \<and>
    (fr_StreamID f = i \<and> fr_Type f \<noteq> FrameMeta \<longrightarrow> dispatch f m' = m'\<lparr>mx_loop := Reading\<rparr>)"
proof -
  have reg: "h < length (mx_heap m)" "st_id (mx_heap m ! h) = i" "\<not> st_closed (mx_heap m ! h)"
    using reach_mux_inv [OF assms(1)] assms(2) by (auto simp: mux_inv_def registry_ok_def)
  obtain m1 where m1: "SendFrame wok h ty p m = (None, m1)" "m' = stream_close h None m1"
    using assms(3) by (auto simp: SendTeardown_def split: prod.splits option.splits)
  then have "mx_heap m1 = mx_heap m"
    by (auto simp: SendFrame_def Mux_writeFrame_def split: if_splits option.splits)
  with m1(2) reg have heap: "mx_heap m' ! h = closed_stream None (mx_heap m ! h)"
    and str: "map_of (mx_streams m') i = None"
    by (simp_all add: stream_close_def map_of_gdel)
  then show ?thesis
    by (auto simp: closed_stream_def SendFrame_def RecvFrame_def pop_frame_def dispatch_def FrameMeta_def)
qed

text \<open>The parity of ids is not checked on the way in: when the peer opens a stream with the very
  id the local side would use next, the local \<open>Open\<close> takes over its registry entry, and the accepted
  stream stays open but no frame can reach it any more.\<close>

theorem peer_parity_not_checked:
  assumes m: "map_of (mx_streams m) (mx_nextID m) = None" "\<not> mx_closed m"
    and f: "fr_StreamID f = mx_nextID m" "fr_Type f = FrameMeta"
    and o: "Open (dispatch f m) = (Inr k, m')"
  shows "k \<noteq> length (mx_heap m) \<and> \<not> st_closed (mx_heap m' ! length (mx_heap m)) \<and>
    map_of (mx_streams m') (mx_nextID m) = Some k \<and> mx_loop (dispatch f m) = WaitAccept (length (mx_heap m)) f"
  using assms by (auto simp: dispatch_def Let_def Open_def map_of_gput nth_append newStream_def)

section \<open>Witnesses\<close>

definition meta_frame :: "32 word \<Rightarrow> Frame" where
  "meta_frame i = \<lparr>fr_StreamID = i, fr_Type = FrameMeta, fr_Payload = []\<rparr>"

lemmas mux_eval = NewMux_def Open_def Let_def newStream_def dispatch_def deliver_entry_def
  serve_step_def meta_frame_def FrameMeta_def FrameEnd_def FrameData_def stream_close_def upd_stream_def
  closed_stream_def push_frame_def pop_frame_def shutdown_def Mux_Close_def acceptBuf_def frameRecvBuf_def
  SendFrame_def Mux_writeFrame_def SendTeardown_def RecvFrame_def EncodeFrame_def MaxPayloadLen_def

definition demo_mux :: Mux where
  "demo_mux = snd (Open (NewMux RoleInitiator))"

lemma demo_mux_reach: "mux_reach RoleInitiator demo_mux"
  unfolding demo_mux_def
  by (rule mux_reach.step [OF mux_reach.init mux_step.opened, OF prod.collapse [symmetric]])

lemma demo_mux_eval: "demo_mux = \<lparr>mx_role = RoleInitiator, mx_streams = [(0, 0)],
    mx_heap = [newStream 0], mx_nextID = 2, mx_closed = False, mx_closeErr = None, mx_acceptCh = [],
    mx_out = [], mx_loop = Reading\<rparr>"
  by (simp add: demo_mux_def mux_eval)

theorem opened_ids_never_clash_witness:
  "st_id (mx_heap (snd (Open demo_mux)) ! 1) \<noteq> st_id (mx_heap (snd (Open (NewMux RoleResponder))) ! 0)"
proof -
  have "Open demo_mux = (Inr 1, snd (Open demo_mux))"
    "Open (NewMux RoleResponder) = (Inr 0, snd (Open (NewMux RoleResponder)))"
    by (simp_all add: demo_mux_eval mux_eval)
  from opened_ids_never_clash [OF demo_mux_reach this(1) mux_reach.init this(2)] show ?thesis by blast
qed


theorem shutdown_closes_everything_witness:
  "st_closeErr (mx_heap (shutdown ErrEOF demo_mux) ! 0) = Some ErrEOF \<and>
    mx_streams (shutdown ErrEOF demo_mux) = []"
  using shutdown_closes_everything [OF demo_mux_reach _ refl, of ErrEOF] by (simp add: demo_mux_eval)

theorem stream_frames_in_order_witness:
  "fst (fifo_run push_frame pop_frame closed_stream
     [Enq (meta_frame 1), Enq demo_frame, Deq True, Upd None, Deq False, Deq True] (newStream 1))
   = [meta_frame 1, demo_frame]"
  using stream_frames_in_order [of "[Enq (meta_frame 1), Enq demo_frame, Deq True, Upd None, Deq False, Deq True]"
      "newStream 1", OF prod.collapse [symmetric]]
  by (simp add: mux_eval)

theorem teardown_is_final_witness:
  "RecvFrame True 0 (snd (SendTeardown FrameEnd True 0 [] demo_mux)) =
    Some (Inl (Some ErrStreamClosed), snd (SendTeardown FrameEnd True 0 [] demo_mux))"
proof -
  have "SendTeardown FrameEnd True 0 [] demo_mux = (None, snd (SendTeardown FrameEnd True 0 [] demo_mux))"
    by (simp add: demo_mux_eval mux_eval)
  from teardown_is_final [OF demo_mux_reach _ this, of 0 True FrameEnd "[]" True] show ?thesis
    by (simp add: demo_mux_eval newStream_def)
qed

theorem peer_parity_not_checked_witness:
  "map_of (mx_streams (snd (Open (dispatch (meta_frame 2) demo_mux)))) 2 = Some 2 \<and>
    \<not> st_closed (mx_heap (snd (Open (dispatch (meta_frame 2) demo_mux))) ! 1)"
proof -
  have "Open (dispatch (meta_frame 2) demo_mux) = (Inr 2, snd (Open (dispatch (meta_frame 2) demo_mux)))"
    by (simp add: demo_mux_eval mux_eval)
  from peer_parity_not_checked [OF _ _ _ _ this] show ?thesis
    by (simp add: demo_mux_eval meta_frame_def)
qed

text \<open>Shutdown can miss a stream: when the multiplexer is closed after the read loop has decoded a
  META frame and before it dispatches it, the stream it registers afterwards outlives the read loop.
  There is a reachable state with the multiplexer closed, the loop stopped, a registered open stream
  whose buffer is empty, and a \<open>RecvFrame\<close> on it that blocks for ever.\<close>

theorem shutdown_can_miss_a_stream:
  "\<exists>m. mux_reach RoleInitiator m \<and> mx_closed m \<and> mx_loop m = Stopped \<and>
    map_of (mx_streams m) 1 = Some 0 \<and> \<not> st_closed (mx_heap m ! 0) \<and> (\<forall>pick. RecvFrame pick 0 m = None) \<and>
    (\<forall>pick inp. serve_step pick inp m = None)"
proof -
  let ?f = "meta_frame 1"
  let ?m = "\<lambda>ss hp ac lp. \<lparr>mx_role = RoleInitiator, mx_streams = ss, mx_heap = hp, mx_nextID = 0,
     mx_closed = True, mx_closeErr = Some ErrMuxClosed, mx_acceptCh = ac, mx_out = [], mx_loop = lp\<rparr>"
  let ?m1 = "Mux_Close (NewMux RoleInitiator)"
  let ?m2 = "?m [(1, 0)] [newStream 1] [] (WaitAccept 0 ?f)"
  let ?m3 = "?m [(1, 0)] [newStream 1] [0] (WaitDeliver 0 ?f)"
  let ?m4 = "?m [(1, 0)] [push_frame ?f (newStream 1)] [0] Reading"
  let ?m5 = "?m [(1, 0)] [push_frame ?f (newStream 1)] [] Reading"
  let ?m6 = "?m [(1, 0)] [newStream 1] [] Reading"
  let ?m7 = "?m [(1, 0)] [newStream 1] [] Stopped"
  note ev = mux_eval Accept_def is_teardown_def FrameCancel_def FrameError_def
  have s: "serve_step True (Inr ?f) ?m1 = Some ?m2" "serve_step True (Inr ?f) ?m2 = Some ?m3"
    "serve_step True (Inr ?f) ?m3 = Some ?m4"
    "Accept True ?m4 = Some (Inr 0, ?m5)" "RecvFrame True 0 ?m5 = Some (Inr ?f, ?m6)"
    "serve_step True (Inl ErrReadHeader) ?m6 = Some ?m7" "0 < length (mx_heap ?m5)"
    by (simp_all add: ev)
  have "mux_reach RoleInitiator ?m7"
    by (rule mux_reach.step [OF mux_reach.step [OF mux_reach.step [OF mux_reach.step [OF mux_reach.step
        [OF mux_reach.step [OF mux_reach.step [OF mux_reach.init mux_step.close_mux]
          mux_step.serve [OF s(1)]] mux_step.serve [OF s(2)]] mux_step.serve [OF s(3)]]
        mux_step.accept [OF s(4)]] mux_step.recv [OF s(7,5)]] mux_step.serve [OF s(6)]])
  moreover have "mx_closed ?m7 \<and> mx_loop ?m7 = Stopped \<and> map_of (mx_streams ?m7) 1 = Some 0 \<and>
      \<not> st_closed (mx_heap ?m7 ! 0) \<and> st_rcvCh (mx_heap ?m7 ! 0) = []"
    by (simp add: ev)
  moreover from this have "RecvFrame pick 0 ?m7 = None" "serve_step pick inp ?m7 = None" for pick inp
    by (simp_all add: RecvFrame_def pop_frame_def serve_step_def)
  ultimately show ?thesis by blast
qed

end
