(* ===== verification/ReceiveManager.thy ===== *)
theory ReceiveManager
  imports Slots TransferState
begin

text \<open>
  The incoming-transfer manager (\<open>core/receive/manager.go\<close>): its table, every operation, and the
  notification channel of 64 ids that operations send to without blocking. Clock readings and fresh
  uuids are arguments; a \<open>range\<close> over the table is in the order of the association list.
\<close>

section \<open>Data\<close>

datatype RStatus = RPending | RPrompting | RAccepting | RReceiving | RCompleted | RFailed
  | RRejected | RCancelled | RExpired

fun RStatus_text :: "RStatus \<Rightarrow> string" where
  "RStatus_text RPending = ''pending''"
| "RStatus_text RPrompting = ''prompting''"
| "RStatus_text RAccepting = ''accepting''"
| "RStatus_text RReceiving = ''receiving''"
| "RStatus_text RCompleted = ''completed''"
| "RStatus_text RFailed = ''failed''"
| "RStatus_text RRejected = ''rejected''"
| "RStatus_text RCancelled = ''cancelled''"
| "RStatus_text RExpired = ''expired''"

record Incoming =
  in_ID :: string
  in_PeerID :: string
  in_PeerName :: string
  in_FileName :: string
  in_FileSize :: int
  in_SavePath :: string
  in_ReceivedBytes :: int
  in_Status :: RStatus
  in_Error :: string
  in_CreatedAt :: int
  in_ExpiresAt :: int
  in_UpdatedAt :: int

datatype ReceiveError = ErrNotFound | ErrLimitReached | ErrCannotAccept | ErrCannotReject
  | ErrCannotCancel | ErrInvalidTransition RStatus RStatus

definition newIncoming :: "string \<Rightarrow> int \<Rightarrow> string \<Rightarrow> string \<Rightarrow> string \<Rightarrow> int \<Rightarrow> int \<Rightarrow> Incoming" where
  "newIncoming uuid now peerID peerName fileName fileSize expiry =
    \<lparr>in_ID = uuid, in_PeerID = peerID, in_PeerName = peerName, in_FileName = fileName,
     in_FileSize = fileSize, in_SavePath = [], in_ReceivedBytes = 0, in_Status = RPending,
     in_Error = [], in_CreatedAt = now, in_ExpiresAt = now + expiry, in_UpdatedAt = now\<rparr>"

definition RDefaultMaxConcurrent :: int where
  "RDefaultMaxConcurrent = 3"

definition DefaultPromptExpiry :: int where
  "DefaultPromptExpiry = 30 * 1000000000"

definition notifyBuf :: nat where
  "notifyBuf = 64"

record RManager =
  rm_incomings :: "(string, Incoming) gomap"
  rm_maxActive :: int
  rm_notify :: "string list"

definition NewRManager :: "int \<Rightarrow> RManager" where
  "NewRManager maxActive =
    \<lparr>rm_incomings = [], rm_maxActive = (if maxActive \<le> 0 then RDefaultMaxConcurrent else maxActive),
     rm_notify = []\<rparr>"

section \<open>Operations\<close>

definition registerActive :: "Incoming \<Rightarrow> bool" where
  "registerActive inc \<longleftrightarrow> in_Status inc = RPrompting \<or> in_Status inc = RAccepting \<or> in_Status inc = RReceiving"

definition activeNow :: "Incoming \<Rightarrow> bool" where
  "activeNow inc \<longleftrightarrow> in_Status inc = RPending \<or> in_Status inc = RPrompting \<or>
     in_Status inc = RAccepting \<or> in_Status inc = RReceiving"

definition Recv_Register ::
  "string \<Rightarrow> int \<Rightarrow> string \<Rightarrow> string \<Rightarrow> string \<Rightarrow> int \<Rightarrow> int \<Rightarrow> RManager \<Rightarrow> ReceiveError + Incoming \<times> RManager" where
  "Recv_Register uuid now peerID peerName fileName fileSize expiry0 m =
    (if rm_maxActive m \<le> int (gcount registerActive (rm_incomings m)) then Inl ErrLimitReached
     else let expiry = (if expiry0 \<le> 0 then DefaultPromptExpiry else expiry0);
              inc = newIncoming uuid now peerID peerName fileName fileSize expiry
          in Inr (inc, m\<lparr>rm_incomings := gput (in_ID inc) inc (rm_incomings m)\<rparr>))"

definition Recv_Get :: "string \<Rightarrow> RManager \<Rightarrow> ReceiveError + Incoming" where
  "Recv_Get i m = (case map_of (rm_incomings m) i of None \<Rightarrow> Inl ErrNotFound | Some inc \<Rightarrow> Inr inc)"

definition Recv_List :: "RManager \<Rightarrow> Incoming list" where
  "Recv_List m = map snd (rm_incomings m)"

text \<open>Store the entry, and send the id to the channel unless it is full.\<close>

definition put_inc :: "string \<Rightarrow> Incoming \<Rightarrow> RManager \<Rightarrow> RManager" where
  "put_inc i inc m = m\<lparr>rm_incomings := gput i inc (rm_incomings m)\<rparr>"

definition try_notify :: "string \<Rightarrow> RManager \<Rightarrow> RManager" where
  "try_notify i m =
    (if length (rm_notify m) < notifyBuf then m\<lparr>rm_notify := rm_notify m @ [i]\<rparr> else m)"

definition Recv_Accept :: "int \<Rightarrow> string \<Rightarrow> string \<Rightarrow> RManager \<Rightarrow> ReceiveError + Incoming \<times> RManager" where
  "Recv_Accept now i savePath m = (case map_of (rm_incomings m) i of
      None \<Rightarrow> Inl ErrNotFound
    | Some inc \<Rightarrow>
        if in_Status inc \<noteq> RPending \<and> in_Status inc \<noteq> RPrompting then Inl ErrCannotAccept
        else let inc' = inc\<lparr>in_Status := RAccepting, in_SavePath := savePath, in_UpdatedAt := now\<rparr>
          in Inr (inc', try_notify i (put_inc i inc' m)))"

definition Recv_Reject :: "int \<Rightarrow> string \<Rightarrow> RManager \<Rightarrow> ReceiveError + Incoming \<times> RManager" where
  "Recv_Reject now i m = (case map_of (rm_incomings m) i of
      None \<Rightarrow> Inl ErrNotFound
    | Some inc \<Rightarrow>
        if in_Status inc = RCompleted \<or> in_Status inc = RReceiving then Inl ErrCannotReject
        else let inc' = inc\<lparr>in_Status := RRejected, in_UpdatedAt := now\<rparr>
          in Inr (inc', try_notify i (put_inc i inc' m)))"

fun isValidTransition :: "RStatus \<Rightarrow> RStatus \<Rightarrow> bool" where
  "isValidTransition RPending t \<longleftrightarrow> t = RPrompting \<or> t = RAccepting \<or> t = RCancelled \<or> t = RExpired"
| "isValidTransition RPrompting t \<longleftrightarrow> t = RAccepting \<or> t = RRejected \<or> t = RCancelled \<or> t = RExpired"
| "isValidTransition RAccepting t \<longleftrightarrow> t = RReceiving \<or> t = RFailed \<or> t = RCancelled"
| "isValidTransition RReceiving t \<longleftrightarrow> t = RCompleted \<or> t = RFailed \<or> t = RCancelled"
| "isValidTransition _ t \<longleftrightarrow> False"

definition Recv_UpdateStatus ::
  "int \<Rightarrow> string \<Rightarrow> RStatus \<Rightarrow> string \<Rightarrow> RManager \<Rightarrow> ReceiveError + Incoming \<times> RManager" where
  "Recv_UpdateStatus now i st errMsg m = (case map_of (rm_incomings m) i of
      None \<Rightarrow> Inl ErrNotFound
    | Some inc \<Rightarrow>
        if st \<noteq> in_Status inc \<and> \<not> isValidTransition (in_Status inc) st
        then Inl (ErrInvalidTransition (in_Status inc) st)
        else let inc1 = inc\<lparr>in_Status := st, in_UpdatedAt := now\<rparr>;
                 inc2 = (if errMsg \<noteq> [] then inc1\<lparr>in_Error := errMsg\<rparr> else inc1)
          in Inr (inc2, try_notify i (put_inc i inc2 m)))"

definition Recv_UpdateProgress :: "int \<Rightarrow> string \<Rightarrow> int \<Rightarrow> RManager \<Rightarrow> ReceiveError + Incoming \<times> RManager" where
  "Recv_UpdateProgress now i receivedBytes m = (case map_of (rm_incomings m) i of
      None \<Rightarrow> Inl ErrNotFound
    | Some inc \<Rightarrow>
        let inc' = inc\<lparr>in_ReceivedBytes := receivedBytes, in_UpdatedAt := now\<rparr>
        in Inr (inc', put_inc i inc' m))"

definition Recv_Remove :: "string \<Rightarrow> RManager \<Rightarrow> bool \<times> RManager" where
  "Recv_Remove i m =
    (if map_of (rm_incomings m) i \<noteq> None then (True, m\<lparr>rm_incomings := gdel i (rm_incomings m)\<rparr>)
     else (False, m))"

definition Recv_ActiveCount :: "RManager \<Rightarrow> nat" where
  "Recv_ActiveCount m = gcount activeNow (rm_incomings m)"

definition Recv_Cancel :: "int \<Rightarrow> string \<Rightarrow> RManager \<Rightarrow> ReceiveError + Incoming \<times> RManager" where
  "Recv_Cancel now i m = (case map_of (rm_incomings m) i of
      None \<Rightarrow> Inl ErrNotFound
    | Some inc \<Rightarrow>
        if in_Status inc = RCompleted then Inl ErrCannotCancel
        else let inc' = inc\<lparr>in_Status := RCancelled, in_UpdatedAt := now\<rparr>
          in Inr (inc', try_notify i (put_inc i inc' m)))"

definition to_expire :: "int \<Rightarrow> Incoming \<Rightarrow> bool" where
  "to_expire now inc \<longleftrightarrow>
     (in_Status inc = RPending \<or> in_Status inc = RPrompting) \<and> in_ExpiresAt inc < now"

definition expire_one :: "int \<Rightarrow> Incoming \<Rightarrow> Incoming" where
  "expire_one now inc =
    (if to_expire now inc then inc\<lparr>in_Status := RExpired, in_UpdatedAt := now\<rparr> else inc)"

definition Recv_ExpireExpired :: "int \<Rightarrow> RManager \<Rightarrow> string list \<times> RManager" where
  "Recv_ExpireExpired now m =
    (map fst (filter (\<lambda>kv. to_expire now (snd kv)) (rm_incomings m)),
     m\<lparr>rm_incomings := map (\<lambda>(k, inc). (k, expire_one now inc)) (rm_incomings m)\<rparr>)"

section \<open>Runs\<close>

datatype rop = ORegister string int string string string int int | OAccept int string string
  | OReject int string | OUpdateStatus int string RStatus string | OUpdateProgress int string int
  | ORemove string | OCancel int string | OExpire int

definition ok_or :: "'m \<Rightarrow> 'e + 'a \<times> 'm \<Rightarrow> 'm" where
  "ok_or m r = (case r of Inl _ \<Rightarrow> m | Inr (_, m') \<Rightarrow> m')"

fun rstep :: "rop \<Rightarrow> RManager \<Rightarrow> RManager" where
  "rstep (ORegister u now p pn fn sz ex) m = ok_or m (Recv_Register u now p pn fn sz ex m)"
| "rstep (OAccept now i sp) m = ok_or m (Recv_Accept now i sp m)"
| "rstep (OReject now i) m = ok_or m (Recv_Reject now i m)"
| "rstep (OUpdateStatus now i st e) m = ok_or m (Recv_UpdateStatus now i st e m)"
| "rstep (OUpdateProgress now i n) m = ok_or m (Recv_UpdateProgress now i n m)"
| "rstep (ORemove i) m = snd (Recv_Remove i m)"
| "rstep (OCancel now i) m = ok_or m (Recv_Cancel now i m)"
| "rstep (OExpire now) m = snd (Recv_ExpireExpired now m)"

definition rrun :: "rop list \<Rightarrow> RManager \<Rightarrow> RManager" where
  "rrun ops m = fold rstep ops m"

section \<open>Contracts\<close>

definition rTerminal :: "RStatus \<Rightarrow> bool" where
  "rTerminal s \<longleftrightarrow> s = RCompleted \<or> s = RFailed \<or> s = RRejected \<or> s = RCancelled \<or> s = RExpired"

interpretation rsm: lifecycle isValidTransition rTerminal
proof unfold_locales
  show "\<not> isValidTransition s t" if "rTerminal s" for s t
    using that by (cases s) (auto simp: rTerminal_def)
  show "\<not> isValidTransition s s" for s by (cases s) auto
qed

definition register_count :: "RManager \<Rightarrow> nat" where
  "register_count m = gcount registerActive (rm_incomings m)"

definition admit_incoming ::
  "string \<times> int \<times> string \<times> string \<times> string \<times> int \<times> int \<Rightarrow> RManager \<Rightarrow> ReceiveError + RManager" where
  "admit_incoming a m = (case a of (u, now, p, pn, fn, sz, ex) \<Rightarrow>
     map_sum (\<lambda>e. e) snd (Recv_Register u now p pn fn sz ex m))"

interpretation incomings: slot_table register_count rm_maxActive admit_incoming
proof unfold_locales
  fix a m m'
  assume adm: "admit_incoming a m = Inr m'"
  obtain u now p pn fn sz ex where a: "a = (u, now, p, pn, fn, sz, ex)" by (cases a) auto
  have r: "\<not> rm_maxActive m \<le> int (register_count m)"
    and m': "\<exists>inc. m' = m\<lparr>rm_incomings := gput (in_ID inc) inc (rm_incomings m)\<rparr>"
    using adm by (auto simp: admit_incoming_def a Recv_Register_def register_count_def Let_def split: if_splits)
  from r show "int (register_count m) < rm_maxActive m" by simp
  from m' show "register_count m' \<le> Suc (register_count m)" "rm_maxActive m' = rm_maxActive m"
    by (auto simp: register_count_def gcount_gput_le)
qed

section \<open>Status histories\<close>

definition status_of :: "string \<Rightarrow> RManager \<Rightarrow> RStatus option" where
  "status_of i m = map_option in_Status (map_of (rm_incomings m) i)"

lemma notify_incomings [simp]: "rm_incomings (try_notify i m) = rm_incomings m"
  by (simp add: try_notify_def)

lemma put_incomings [simp]: "rm_incomings (put_inc i inc m) = gput i inc (rm_incomings m)"
  by (simp add: put_inc_def)

lemma status_put [simp]: "status_of j (try_notify k (put_inc i inc m)) =
    (if j = i then Some (in_Status inc) else status_of j m)"
  "status_of j (put_inc i inc m) = (if j = i then Some (in_Status inc) else status_of j m)"
  by (simp_all add: status_of_def map_of_gput)

lemma status_expire: "status_of j (snd (Recv_ExpireExpired now m)) =
    map_option (\<lambda>inc. if to_expire now inc then RExpired else in_Status inc) (map_of (rm_incomings m) j)"
proof -
  have "map_of (map (\<lambda>(k, inc). (k, g inc)) ms) j = map_option g (map_of ms j)" for g :: "Incoming \<Rightarrow> Incoming" and ms
    by (induction ms) auto
  moreover have "in_Status (expire_one now inc) = (if to_expire now inc then RExpired else in_Status inc)" for inc
    by (simp add: expire_one_def)
  ultimately show ?thesis
    by (simp add: status_of_def Recv_ExpireExpired_def option.map_comp comp_def)
qed

lemmas recv_defs = Recv_Register_def Recv_Accept_def Recv_Reject_def Recv_UpdateStatus_def
  Recv_UpdateProgress_def Recv_Remove_def Recv_Cancel_def newIncoming_def Let_def ok_or_def

text \<open>Where a status can have come from in one operation.\<close>

lemma step_to_completed: "status_of i (rstep op m) = Some RCompleted \<Longrightarrow>
    status_of i m = Some RCompleted \<or> status_of i m = Some RReceiving"
proof (cases op)
  case (OUpdateStatus now j st e)
  assume "status_of i (rstep op m) = Some RCompleted"
  moreover have "isValidTransition a RCompleted \<Longrightarrow> a = RReceiving" for a by (cases a) auto
  ultimately show ?thesis
    using OUpdateStatus by (auto simp: recv_defs status_of_def map_of_gput split: option.splits if_splits)
next
  case (OExpire now)
  moreover assume "status_of i (rstep op m) = Some RCompleted"
  ultimately show ?thesis by (auto simp: status_expire) (auto simp: status_of_def split: if_splits)
qed (auto simp: recv_defs status_of_def map_of_gput map_of_gdel split: option.splits if_splits)

lemma step_to_receiving: "status_of i (rstep op m) = Some RReceiving \<Longrightarrow>
    status_of i m = Some RReceiving \<or> status_of i m = Some RAccepting"
proof (cases op)
  case (OUpdateStatus now j st e)
  assume "status_of i (rstep op m) = Some RReceiving"
  moreover have "isValidTransition a RReceiving \<Longrightarrow> a = RAccepting" for a by (cases a) auto
  ultimately show ?thesis
    using OUpdateStatus by (auto simp: recv_defs status_of_def map_of_gput split: option.splits if_splits)
next
  case (OExpire now)
  moreover assume "status_of i (rstep op m) = Some RReceiving"
  ultimately show ?thesis by (auto simp: status_expire) (auto simp: status_of_def split: if_splits)
qed (auto simp: recv_defs status_of_def map_of_gput map_of_gdel split: option.splits if_splits)

lemma rrun_snoc: "rrun (ops @ [op]) m = rstep op (rrun ops m)"
  by (simp add: rrun_def)

lemma reached_before:
  assumes "\<forall>op m. status_of i (rstep op m) = Some b \<longrightarrow> status_of i m = Some b \<or> status_of i m = Some a"
    and "status_of i m0 \<noteq> Some b"
  shows "status_of i (rrun ops m0) = Some b \<Longrightarrow>
    \<exists>xs ys. ops = xs @ ys \<and> status_of i (rrun xs m0) = Some a"
proof (induction ops rule: rev_induct)
  case Nil
  with assms(2) show ?case by (simp add: rrun_def)
next
  case (snoc op ops)
  from assms(1) snoc.prems have "status_of i (rrun ops m0) = Some b \<or> status_of i (rrun ops m0) = Some a"
    by (simp add: rrun_snoc)
  then show ?case
  proof
    assume "status_of i (rrun ops m0) = Some b"
    with snoc.IH obtain xs ys where "ops = xs @ ys" "status_of i (rrun xs m0) = Some a" by blast
    then show ?thesis by (intro exI [of _ xs] exI [of _ "ys @ [op]"]) simp
  next
    assume "status_of i (rrun ops m0) = Some a"
    then show ?thesis by (intro exI [of _ ops] exI [of _ "[op]"]) simp
  qed
qed

section \<open>Properties\<close>

text \<open>C26: An incoming file is never reported complete without consent: whatever operations a fresh
  manager sees, an incoming that is completed was receiving before, and before that accepted.\<close>

theorem completed_only_after_accept:
  assumes "status_of i (rrun ops (NewRManager n)) = Some RCompleted"
  shows "\<exists>xs ys zs. ops = xs @ ys @ zs \<and> status_of i (rrun xs (NewRManager n)) = Some RAccepting \<and>
    status_of i (rrun (xs @ ys) (NewRManager n)) = Some RReceiving"
proof -
  have fresh: "status_of i (NewRManager n) = None" by (simp add: status_of_def NewRManager_def)
  have "\<forall>op m. status_of i (rstep op m) = Some RCompleted \<longrightarrow>
      status_of i m = Some RCompleted \<or> status_of i m = Some RReceiving"
    using step_to_completed by blast
  from reached_before [OF this _ assms] fresh
  obtain us zs where u: "ops = us @ zs" "status_of i (rrun us (NewRManager n)) = Some RReceiving" by auto
  have "\<forall>op m. status_of i (rstep op m) = Some RReceiving \<longrightarrow>
      status_of i m = Some RReceiving \<or> status_of i m = Some RAccepting"
    using step_to_receiving by blast
  from reached_before [OF this _ u(2)] fresh
  obtain xs ys where "us = xs @ ys" "status_of i (rrun xs (NewRManager n)) = Some RAccepting" by auto
  with u show ?thesis by auto
qed

text \<open>Registration: it is refused exactly when the incomings that are prompting, accepting or
  receiving have reached the limit; otherwise the new incoming is pending, found under its id, and
  expires after the given time, or 30 seconds when none is given.\<close>

theorem Register_admission:
  "(\<exists>e. Recv_Register u now p pn fn sz ex m = Inl e) = (rm_maxActive m \<le> int (register_count m)) \<and>
    (case Recv_Register u now p pn fn sz ex m of
       Inl e \<Rightarrow> e = ErrLimitReached
     | Inr (inc, m') \<Rightarrow> Recv_Get u m' = Inr inc \<and> in_Status inc = RPending \<and>
         in_ExpiresAt inc = now + (if ex \<le> 0 then 30000000000 else ex) \<and>
         register_count m' \<le> Suc (register_count m))"
  using incomings.admit_one [of "(u, now, p, pn, fn, sz, ex)" m]
  by (auto simp: Recv_Register_def register_count_def newIncoming_def Recv_Get_def map_of_gput
      DefaultPromptExpiry_def Let_def admit_incoming_def)

text \<open>The limit does not hold: pending incomings are not counted at registration, so with a limit
  of one two incomings can be registered and then both be prompting, and both be accepted and receive
  at the same time.\<close>

theorem receive_limit_exceeded:
  "\<exists>ops m. m = rrun ops (NewRManager 1) \<and> rm_maxActive m = 1 \<and> Recv_ActiveCount m = 2 \<and>
    status_of ''a'' m = Some RReceiving \<and> status_of ''b'' m = Some RReceiving"
proof -
  let ?ops = "[ORegister ''a'' 0 ''p'' ''n'' ''f'' 1 0, ORegister ''b'' 0 ''p'' ''n'' ''g'' 1 0,
    OUpdateStatus 0 ''a'' RPrompting '''', OUpdateStatus 0 ''b'' RPrompting '''',
    OAccept 1 ''a'' ''x'', OAccept 1 ''b'' ''y'',
    OUpdateStatus 2 ''a'' RReceiving '''', OUpdateStatus 2 ''b'' RReceiving '''']"
  have "rm_maxActive (rrun ?ops (NewRManager 1)) = 1 \<and> Recv_ActiveCount (rrun ?ops (NewRManager 1)) = 2 \<and>
    status_of ''a'' (rrun ?ops (NewRManager 1)) = Some RReceiving \<and>
    status_of ''b'' (rrun ?ops (NewRManager 1)) = Some RReceiving"
    by (simp add: rrun_def recv_defs NewRManager_def registerActive_def Recv_ActiveCount_def activeNow_def
        status_of_def try_notify_def put_inc_def notifyBuf_def)
  then show ?thesis by blast
qed

text \<open>Expiry is exact: \<open>ExpireExpired\<close> moves to expired exactly the pending and prompting
  incomings whose deadline has passed, leaves every other status alone, and returns their ids; it
  sends no notification, so a handler waiting for the decision is not woken.\<close>

theorem expiry_exact:
  assumes "gwf (rm_incomings m)" "Recv_ExpireExpired now m = (ids, m')"
  shows "set ids = {i. \<exists>inc. Recv_Get i m = Inr inc \<and> to_expire now inc} \<and>
    (\<forall>i. status_of i m' = (if i \<in> set ids then Some RExpired else status_of i m)) \<and>
    rm_notify m' = rm_notify m"
proof -
  have ids: "set ids = {i. \<exists>inc. map_of (rm_incomings m) i = Some inc \<and> to_expire now inc}"
    using assms by (force simp: Recv_ExpireExpired_def gwf_set_iff [symmetric])
  have "status_of i m' = (if i \<in> set ids then Some RExpired else status_of i m)" for i
    using status_expire [of i now m] assms(2)
    by (cases "map_of (rm_incomings m) i") (auto simp: ids status_of_def)
  moreover have "rm_notify m' = rm_notify m" using assms(2) by (auto simp: Recv_ExpireExpired_def)
  ultimately show ?thesis by (auto simp: ids Recv_Get_def split: option.splits)
qed

text \<open>Terminal states are not final: \<open>Reject\<close> turns an expired, failed or cancelled incoming into
  a rejected one, and \<open>Cancel\<close> an expired, failed or rejected one into a cancelled one, transitions
  that \<open>UpdateStatus\<close> refuses.\<close>

theorem reject_rewrites_terminal:
  assumes "status_of i m = Some s"
  shows "(s \<in> {RExpired, RFailed, RCancelled} \<longrightarrow>
      status_of i (rstep (OReject now i) m) = Some RRejected \<and>
      status_of i (rstep (OUpdateStatus now i RRejected e) m) = Some s) \<and>
    (s \<in> {RExpired, RFailed, RRejected} \<longrightarrow>
      status_of i (rstep (OCancel now i) m) = Some RCancelled \<and>
      status_of i (rstep (OUpdateStatus now i RCancelled e) m) = Some s)"
  using assms by (auto simp: recv_defs status_of_def map_of_gput split: option.splits)

section \<open>Witnesses\<close>

definition demo_rops :: "rop list" where
  "demo_rops = [ORegister ''a'' 0 ''p'' ''n'' ''f'' 1 0, OAccept 1 ''a'' ''x'',
    OUpdateStatus 2 ''a'' RReceiving '''', OUpdateStatus 3 ''a'' RCompleted '''']"

lemmas rrun_eval = rrun_def recv_defs NewRManager_def registerActive_def status_of_def try_notify_def
  put_inc_def notifyBuf_def DefaultPromptExpiry_def RDefaultMaxConcurrent_def

theorem completed_only_after_accept_witness:
  "\<exists>xs ys zs. demo_rops = xs @ ys @ zs \<and> status_of ''a'' (rrun xs (NewRManager 0)) = Some RAccepting"
proof -
  have "status_of ''a'' (rrun demo_rops (NewRManager 0)) = Some RCompleted"
    by (simp add: demo_rops_def rrun_eval)
  from completed_only_after_accept [OF this] show ?thesis by blast
qed

definition demo_waiting :: RManager where
  "demo_waiting = rrun [ORegister ''a'' 0 ''p'' ''n'' ''f'' 1 0, OUpdateStatus 1 ''a'' RPrompting '''']
     (NewRManager 0)"

lemma demo_waiting_eval: "rm_incomings demo_waiting = [(''a'', \<lparr>in_ID = ''a'', in_PeerID = ''p'',
    in_PeerName = ''n'', in_FileName = ''f'', in_FileSize = 1, in_SavePath = [], in_ReceivedBytes = 0,
    in_Status = RPrompting, in_Error = [], in_CreatedAt = 0, in_ExpiresAt = 30000000000, in_UpdatedAt = 1\<rparr>)]"
  by (simp add: demo_waiting_def rrun_eval)

theorem expiry_exact_witness:
  "status_of ''a'' (snd (Recv_ExpireExpired 30000000001 demo_waiting)) = Some RExpired \<and>
    status_of ''a'' (snd (Recv_ExpireExpired 30000000000 demo_waiting)) = Some RPrompting"
proof -
  have wf: "gwf (rm_incomings demo_waiting)" by (simp add: demo_waiting_eval)
  show ?thesis
    using expiry_exact [OF wf prod.collapse [symmetric], of 30000000001]
      expiry_exact [OF wf prod.collapse [symmetric], of 30000000000]
    by (simp add: Recv_Get_def demo_waiting_eval to_expire_def status_of_def)
qed

theorem reject_rewrites_terminal_witness:
  "status_of ''a'' (rstep (OReject 9 ''a'') (snd (Recv_ExpireExpired 30000000001 demo_waiting))) = Some RRejected"
proof -
  have "status_of ''a'' (snd (Recv_ExpireExpired 30000000001 demo_waiting)) = Some RExpired"
    by (simp add: status_expire demo_waiting_eval to_expire_def)
  from reject_rewrites_terminal [OF this] show ?thesis by simp
qed

section \<open>The expiry loop\<close>

definition DefaultExpiryInterval :: int where "DefaultExpiryInterval = 5000000000"

definition expiry_interval :: "int \<Rightarrow> int" where
  "expiry_interval interval = (if interval \<le> 0 then DefaultExpiryInterval else interval)"

text \<open>The goroutine of \<open>StartExpiryLoop\<close>: a tick with its time, or the stop channel (None), after which it returns.\<close>

fun expiry_loop :: "int option list \<Rightarrow> RManager \<Rightarrow> RManager" where
  "expiry_loop [] m = m"
| "expiry_loop (Some now # evs) m = expiry_loop evs (snd (Recv_ExpireExpired now m))"
| "expiry_loop (None # evs) m = m"

lemma expire_lookup: "map_of (rm_incomings (snd (Recv_ExpireExpired now m))) i =
    map_option (expire_one now) (map_of (rm_incomings m) i)"
  by (simp add: Recv_ExpireExpired_def map_of_map)

text \<open>An offer that nobody answers ends: at the first tick after its deadline it is expired, and it stays so; the loop
  does to the manager what a run of \<open>ExpireExpired\<close> does.\<close>

theorem unanswered_offer_expires:
  assumes "map_of (rm_incomings m) i = Some inc" "in_Status inc = RPending \<or> in_Status inc = RPrompting \<or> in_Status inc = RExpired"
    and "Some now \<in> set (takeWhile (\<lambda>e. e \<noteq> None) evs)" "in_ExpiresAt inc < now"
  shows "status_of i (expiry_loop evs m) = Some RExpired \<and>
    expiry_loop evs m = rrun (map (\<lambda>e. OExpire (the e)) (takeWhile (\<lambda>e. e \<noteq> None) evs)) m"
proof -
  have run: "expiry_loop evs m = rrun (map (\<lambda>e. OExpire (the e)) (takeWhile (\<lambda>e. e \<noteq> None) evs)) m" for m
    by (induction evs m rule: expiry_loop.induct) (simp_all add: rrun_def)
  have stays: "status_of i (expiry_loop evs m) = Some RExpired" if "status_of i m = Some RExpired" for evs m
    using that
  proof (induction evs m rule: expiry_loop.induct)
    case (2 t evs m)
    have "status_of i (snd (Recv_ExpireExpired t m)) = Some RExpired"
      using "2.prems" by (cases "map_of (rm_incomings m) i") (simp_all add: status_of_def expire_lookup expire_one_def)
    with "2.IH" show ?case by simp
  qed simp_all
  have "status_of i (expiry_loop evs m) = Some RExpired"
    using assms
  proof (induction evs m arbitrary: inc rule: expiry_loop.induct)
    case (2 t evs m)
    show ?case
    proof (cases "in_ExpiresAt inc < t \<or> in_Status inc = RExpired")
      case True
      then have "status_of i (snd (Recv_ExpireExpired t m)) = Some RExpired"
        using "2.prems"(1,2) by (auto simp: expire_lookup expire_one_def to_expire_def status_of_def)
      then show ?thesis by (simp add: stays)
    next
      case False
      then have "map_of (rm_incomings (snd (Recv_ExpireExpired t m))) i = Some inc"
        using "2.prems"(1) by (simp add: expire_lookup expire_one_def to_expire_def)
      moreover have "Some now \<in> set (takeWhile (\<lambda>e. e \<noteq> None) evs)" using "2.prems"(3,4) False by auto
      ultimately show ?thesis using "2.IH" "2.prems"(2,4) by auto
    qed
  qed simp_all
  with run show ?thesis by simp
qed

lemma unanswered_offer_expires_witness:
  "\<exists>inc. map_of (rm_incomings demo_waiting) ''a'' = Some inc \<and>
    status_of ''a'' (expiry_loop [Some 30000000000, Some 35000000000, None] demo_waiting) = Some RExpired"
proof -
  let ?evs = "[Some 30000000000, Some 35000000000, None] :: int option list"
  obtain inc where inc: "map_of (rm_incomings demo_waiting) ''a'' = Some inc" "in_Status inc = RPrompting" "in_ExpiresAt inc = 30000000000"
    by (simp add: demo_waiting_eval)
  then have "in_Status inc = RPending \<or> in_Status inc = RPrompting \<or> in_Status inc = RExpired" "in_ExpiresAt inc < 35000000000" by simp_all
  moreover have "Some 35000000000 \<in> set (takeWhile (\<lambda>e. e \<noteq> None) ?evs)" by simp
  ultimately have "status_of ''a'' (expiry_loop ?evs demo_waiting) = Some RExpired"
    using unanswered_offer_expires [OF inc(1), of 35000000000 ?evs] by blast
  with inc(1) show ?thesis by blast
qed

end
