(* ===== verification/FileTransfer.thy ===== *)
theory FileTransfer
  imports SecureConn ReceiveManager GoPath
begin

text \<open>
  The file protocol on one connection: the header and body the sender writes
  (\<open>sendHeader\<close> and \<open>streamFile\<close> of \<open>core/usecase/send.go\<close>), and the receiving side
  (\<open>core/receive/server.go\<close>): \<open>ReadHeader\<close> through a \<open>bufio.Reader\<close> of 4096 bytes, \<open>SaveFile\<close>,
  waiting for the user's decision, and the connection handler. A reader is a function \<open>rd\<close> of the
  buffer length on its own state that returns the bytes read and an error; the loops over an
  arbitrary reader need not end, so they are partial functions whose value is None when they do not.
\<close>

section \<open>Readers\<close>

datatype read_err = REOF | ROther

type_synonym 's reader = "nat \<Rightarrow> 's \<Rightarrow> (bytes \<times> read_err option) \<times> 's"

text \<open>Reading an encrypted connection. Its errors are wrapped (\<open>fmt.Errorf\<close> with \<open>%w\<close>), so none of
  them is the value \<open>io.EOF\<close> itself.\<close>

definition ec_reader :: "'cs decrypt \<Rightarrow> 'cs EncryptedConn reader" where
  "ec_reader dec k ec = (case EC_Read dec k ec of
      (Inl e, ec') \<Rightarrow> (([], Some ROther), ec')
    | (Inr bs, ec') \<Rightarrow> ((bs, None), ec'))"

text \<open>A reader that yields given chunks and then \<open>io.EOF\<close>, as a file or a plain connection does.\<close>

fun chunk_reader :: "bytes list reader" where
  "chunk_reader k [] = (([], Some REOF), [])"
| "chunk_reader k (c # cs) = (if length c \<le> k then ((c, None), cs) else ((take k c, None), drop k c # cs))"

section \<open>Buffered lines\<close>

definition bufSize :: nat where
  "bufSize = 4096"

record 's Buf =
  br_buf :: bytes
  br_err :: "read_err option"
  br_src :: 's

text \<open>\<open>fill\<close>: read until something arrives, at most 100 times.\<close>

fun bufio_fill :: "nat \<Rightarrow> 's reader \<Rightarrow> 's Buf \<Rightarrow> 's Buf" where
  "bufio_fill 0 rd b = b\<lparr>br_err := Some ROther\<rparr>"
| "bufio_fill (Suc n) rd b = (case rd (bufSize - length (br_buf b)) (br_src b) of
      ((bs, e), s) \<Rightarrow>
        let b' = b\<lparr>br_buf := br_buf b @ bs, br_src := s\<rparr> in
        if e \<noteq> None then b'\<lparr>br_err := e\<rparr>
        else if bs \<noteq> [] then b' else bufio_fill n rd b')"

definition lf :: "8 word" where
  "lf = 10"

partial_function (option) ReadString ::
  "'s reader \<Rightarrow> 's Buf \<Rightarrow> bytes \<Rightarrow> ((read_err + bytes) \<times> 's Buf) option" where
  "ReadString rd b acc =
    (if lf \<in> set (br_buf b) then
       Some (Inr (acc @ takeWhile (\<lambda>x. x \<noteq> lf) (br_buf b) @ [lf]),
             b\<lparr>br_buf := tl (dropWhile (\<lambda>x. x \<noteq> lf) (br_buf b))\<rparr>)
     else (case br_err b of
         Some e \<Rightarrow> Some (Inl e, b\<lparr>br_buf := [], br_err := None\<rparr>)
       | None \<Rightarrow>
           if bufSize \<le> length (br_buf b) then ReadString rd (b\<lparr>br_buf := []\<rparr>) (acc @ br_buf b)
           else ReadString rd (bufio_fill 100 rd b) acc))"

section \<open>The header\<close>

datatype HeaderError = ErrReadMagic | ErrUnknownProtocol | ErrReadID | ErrReadSize | ErrParseSize
  | ErrInvalidSize | ErrReadName | ErrNameLength

definition headerMagic :: string where
  "headerMagic = ''LANOS_FILEv1''"

text \<open>\<open>sendHeader\<close>: the one write it makes, or its refusal.\<close>

definition sendHeader :: "string \<Rightarrow> string \<Rightarrow> int \<Rightarrow> bytes option" where
  "sendHeader transferID fileName fileSize =
    (if LF \<in> set fileName \<or> CHR 0x0D \<in> set fileName then None
     else Some (str_bytes (headerMagic @ [LF] @ transferID @ [LF] @ Itoa fileSize @ [LF] @ fileName @ [LF])))"

definition ReadHeader ::
  "'s reader \<Rightarrow> 's \<Rightarrow> ((HeaderError + string \<times> string \<times> int) \<times> 's) option" where
  "ReadHeader rd s =
    Option.bind (ReadString rd \<lparr>br_buf = [], br_err = None, br_src = s\<rparr> []) (\<lambda>(l1, b1). case l1 of
      Inl e \<Rightarrow> Some (Inl ErrReadMagic, br_src b1)
    | Inr magic \<Rightarrow>
      if TrimSpace (bytes_str magic) \<noteq> headerMagic then Some (Inl ErrUnknownProtocol, br_src b1)
      else Option.bind (ReadString rd b1 []) (\<lambda>(l2, b2). case l2 of
        Inl e \<Rightarrow> Some (Inl ErrReadID, br_src b2)
      | Inr idl \<Rightarrow> Option.bind (ReadString rd b2 []) (\<lambda>(l3, b3). case l3 of
          Inl e \<Rightarrow> Some (Inl ErrReadSize, br_src b3)
        | Inr sizeLine \<Rightarrow> (case Atoi (TrimSpace (bytes_str sizeLine)) of
            None \<Rightarrow> Some (Inl ErrParseSize, br_src b3)
          | Some fileSize \<Rightarrow>
              if fileSize < 0 then Some (Inl ErrInvalidSize, br_src b3)
              else Option.bind (ReadString rd b3 []) (\<lambda>(l4, b4). case l4 of
                Inl e \<Rightarrow> Some (Inl ErrReadName, br_src b4)
              | Inr name \<Rightarrow>
                  let fileName = TrimSpace (bytes_str name) in
                  if length fileName = 0 \<or> 4096 < length fileName
                  then Some (Inl ErrNameLength, br_src b4)
                  else Some (Inr (TrimSpace (bytes_str idl), fileName, fileSize), br_src b4))))))"

section \<open>Saving the body\<close>

datatype SaveError = ErrCreate | ErrFileWrite | ErrFileRead | ErrSizeMismatch

definition progressInterval :: int where
  "progressInterval = 256 * 1024"

text \<open>\<open>wok\<close> tells, from the bytes already in the file, whether the next write succeeds; \<open>clock\<close> is the
  clock reading when so many bytes have arrived. The result is the error, the total and the bytes of
  the file, with the reader's and the manager's state.\<close>

partial_function (option) save_loop ::
  "'s reader \<Rightarrow> (bytes \<Rightarrow> bool) \<Rightarrow> (int \<Rightarrow> int) \<Rightarrow> string \<Rightarrow> 's \<Rightarrow> bytes \<Rightarrow> int \<Rightarrow> int \<Rightarrow> RManager \<Rightarrow>
    (SaveError option \<times> int \<times> bytes \<times> 's \<times> RManager) option" where
  "save_loop rd wok clock i s out tot prev m = (case rd (256 * 1024) s of ((bs, e), s') \<Rightarrow>
     if bs \<noteq> [] \<and> \<not> wok out then Some (Some ErrFileWrite, tot, out, s', m)
     else
       let out' = out @ bs;
           tot' = tot + int (length bs);
           prog = (bs \<noteq> [] \<and> progressInterval \<le> tot' - prev);
           m' = (if prog then ok_or m (Recv_UpdateProgress (clock tot') i tot' m) else m);
           prev' = (if prog then tot' else prev)
       in case e of
            Some REOF \<Rightarrow> Some (None, tot', out', s', m')
          | Some ROther \<Rightarrow> Some (Some ErrFileRead, tot', out', s', m')
          | None \<Rightarrow> save_loop rd wok clock i s' out' tot' prev' m')"

definition SaveFile ::
  "'s reader \<Rightarrow> (bytes \<Rightarrow> bool) \<Rightarrow> (int \<Rightarrow> int) \<Rightarrow> bool \<Rightarrow> int \<Rightarrow> string \<Rightarrow> 's \<Rightarrow> RManager \<Rightarrow>
    (SaveError option \<times> int \<times> bytes \<times> 's \<times> RManager) option" where
  "SaveFile rd wok clock created expectedSize i s m =
    (if \<not> created then Some (Some ErrCreate, 0, [], s, m)
     else map_option (\<lambda>(e, tot, out, s', m').
         (if e = None \<and> 0 < expectedSize \<and> tot \<noteq> expectedSize then Some ErrSizeMismatch else e,
          tot, out, s', m'))
       (save_loop rd wok clock i s [] 0 0 m))"

section \<open>Waiting for the decision\<close>

datatype wait_event = Wake RManager | CtxDone | QuitClosed

datatype wait_result = Decided RStatus | WaitLost | WaitCtx

definition decided :: "RStatus \<Rightarrow> bool" where
  "decided s \<longleftrightarrow> s = RAccepting \<or> s = RRejected \<or> s = RCancelled \<or> s = RExpired"

text \<open>The waiting loop, from the manager's state at its first look and the events of its \<open>select\<close>; a
  wake-up carries the manager's state at the next look. The result comes with the state of the last
  look; \<open>None\<close>: still waiting.\<close>

fun waitForAccept :: "string \<Rightarrow> RManager \<Rightarrow> wait_event list \<Rightarrow> (wait_result \<times> RManager) option" where
  "waitForAccept i m evs = (case Recv_Get i m of
      Inl e \<Rightarrow> Some (WaitLost, m)
    | Inr inc \<Rightarrow>
        if decided (in_Status inc) then Some (Decided (in_Status inc), m)
        else (case evs of
            [] \<Rightarrow> None
          | CtxDone # _ \<Rightarrow> Some (WaitCtx, m)
          | QuitClosed # _ \<Rightarrow> Some (Decided RCancelled, m)
          | Wake m' # rest \<Rightarrow> waitForAccept i m' rest))"

declare waitForAccept.simps [simp del]

section \<open>The connection handler\<close>

datatype handle_result = HBadHeader HeaderError | HRefused ReceiveError | HNoDecision wait_result
  | HTurnedDown RStatus | HLost | HSaveFailed SaveError | HReceived

text \<open>\<open>handleConn\<close>: other goroutines act on the manager while it waits (the events), not during the
  copying. It ends with the result, the path and bytes of the file it wrote, and the manager. The
  text of a save error, which the code stores with the failed status, is a fixed string here.\<close>

definition receive_accepted ::
  "'s reader \<Rightarrow> (bytes \<Rightarrow> bool) \<Rightarrow> (int \<Rightarrow> int) \<Rightarrow> bool \<Rightarrow> string \<Rightarrow> string \<Rightarrow> int \<Rightarrow> string \<Rightarrow> int \<Rightarrow>
    's \<Rightarrow> RManager \<Rightarrow> (handle_result \<times> (string \<times> bytes) option \<times> RManager) option" where
  "receive_accepted rd wok clock created tempDir uuid now fileName fileSize s m3 =
    (let m4 = ok_or m3 (Recv_UpdateStatus now uuid RReceiving [] m3) in
     case Recv_Get uuid m4 of
       Inl e \<Rightarrow> Some (HLost, None,
         ok_or m4 (Recv_UpdateStatus now uuid RFailed ''transfer lost during accept'' m4))
     | Inr inc2 \<Rightarrow>
       let savePath = (if in_SavePath inc2 = [] then PathJoin tempDir (Base fileName)
                       else in_SavePath inc2) in
       map_option (\<lambda>(e, received, out, s2, m5). case e of
           Some e \<Rightarrow> (HSaveFailed e, Some (savePath, out),
             ok_or m5 (Recv_UpdateStatus now uuid RFailed ''save failed'' m5))
         | None \<Rightarrow>
             let m6 = ok_or m5 (Recv_UpdateProgress now uuid received m5)
             in (HReceived, Some (savePath, out), ok_or m6 (Recv_UpdateStatus now uuid RCompleted [] m6)))
         (SaveFile rd wok clock created fileSize uuid s m4))"

definition handleConn ::
  "'s reader \<Rightarrow> (bytes \<Rightarrow> bool) \<Rightarrow> (int \<Rightarrow> int) \<Rightarrow> bool \<Rightarrow> string \<Rightarrow> string \<Rightarrow> int \<Rightarrow> bytes \<Rightarrow> wait_event list \<Rightarrow>
    's \<Rightarrow> RManager \<Rightarrow> (handle_result \<times> (string \<times> bytes) option \<times> RManager) option" where
  "handleConn rd wok clock created tempDir uuid now peerStatic evs s m =
    (case ReadHeader rd s of
      None \<Rightarrow> None
    | Some (Inl e, s1) \<Rightarrow> Some (HBadHeader e, None, m)
    | Some (Inr (_, fileName, fileSize), s1) \<Rightarrow>
      (case Recv_Register uuid now (EncodeToString (take 8 peerStatic)) ''unknown'' fileName fileSize 0 m of
        Inl e \<Rightarrow> Some (HRefused e, None, m)
      | Inr (inc, m1) \<Rightarrow>
        (case waitForAccept uuid (ok_or m1 (Recv_UpdateStatus now uuid RPrompting [] m1)) evs of
          None \<Rightarrow> None
        | Some (w, m3) \<Rightarrow>
          if w = Decided RAccepting
          then receive_accepted rd wok clock created tempDir uuid now fileName fileSize s1 m3
          else (case w of Decided st \<Rightarrow> Some (HTurnedDown st, None, m3)
                | _ \<Rightarrow> Some (HNoDecision w, None, m3)))))"

section \<open>Several handlers and one channel\<close>

record Hub =
  hub_mgr :: RManager
  hub_waiting :: "string list"

text \<open>Handlers that found no decision sleep on the shared channel; one of them, any, takes its next
  id (the value is ignored), looks at its own incoming and leaves or sleeps again.\<close>

definition hub_look :: "string \<Rightarrow> RManager \<Rightarrow> string list \<Rightarrow> string list" where
  "hub_look i m ws = (case Recv_Get i m of
      Inl e \<Rightarrow> remove1 i ws
    | Inr inc \<Rightarrow> if decided (in_Status inc) then remove1 i ws else ws)"

inductive hub_step :: "Hub \<Rightarrow> Hub \<Rightarrow> bool" where
  op: "hub_step h (h\<lparr>hub_mgr := rstep op (hub_mgr h)\<rparr>)"
| enter: "i \<notin> set (hub_waiting h) \<Longrightarrow>
    hub_step h (h\<lparr>hub_waiting := hub_look i (hub_mgr h) (i # hub_waiting h)\<rparr>)"
| wake: "i \<in> set (hub_waiting h) \<Longrightarrow> rm_notify (hub_mgr h) = x # xs \<Longrightarrow>
    hub_step h (h\<lparr>hub_mgr := (hub_mgr h)\<lparr>rm_notify := xs\<rparr>,
      hub_waiting := hub_look i (hub_mgr h) (hub_waiting h)\<rparr>)"

inductive hub_reach :: "int \<Rightarrow> Hub \<Rightarrow> bool" for n where
  init: "hub_reach n \<lparr>hub_mgr = NewRManager n, hub_waiting = []\<rparr>"
| step: "hub_reach n h \<Longrightarrow> hub_step h h' \<Longrightarrow> hub_reach n h'"

section \<open>Reading lines\<close>

lemma str_bytes_LF: "str_bytes [LF] = [lf]"
  by (simp add: str_bytes_def LF_def lf_def)

lemma str_bytes_lf: "(lf \<in> set (str_bytes s)) = (LF \<in> set s)"
proof -
  have "(word_of_nat (of_char c) :: 8 word) = lf \<longleftrightarrow> c = LF" for c
  proof
    assume "(word_of_nat (of_char c) :: 8 word) = lf"
    then have "str_bytes [c] = str_bytes [LF]" by (simp only: str_bytes_LF) simp
    then show "c = LF" by (metis bytes_str_bytes list.inject)
  qed (simp add: LF_def lf_def)
  then show ?thesis by (auto simp: str_bytes_def image_iff) metis+
qed

lemma line_in_buffer:
  assumes "lf \<notin> set l" "br_buf b = l @ [lf] @ r"
  shows "ReadString rd b acc = Some (Inr (acc @ l @ [lf]), b\<lparr>br_buf := r\<rparr>)"
proof -
  have "takeWhile (\<lambda>x. x \<noteq> lf) (l @ [lf] @ r) = l" "dropWhile (\<lambda>x. x \<noteq> lf) (l @ [lf] @ r) = lf # r"
    using assms(1) by (induction l) auto
  then show ?thesis using assms(2) by (subst ReadString.simps) simp
qed

text \<open>When the first read yields the whole header, all four lines come out of the buffer.\<close>

lemma ReadHeader_one_read:
  assumes rd: "rd bufSize s = ((hdr @ body, None), s')"
    and hdr: "sendHeader tid name sz = Some hdr" and len: "length (hdr @ body) \<le> bufSize"
    and tid: "TrimSpace tid = tid" "tid \<noteq> []" "LF \<notin> set tid"
    and name: "TrimSpace name = name" "name \<noteq> []" "length name \<le> 4096"
    and sz: "0 \<le> sz" "sz < 2 ^ 63"
  shows "ReadHeader rd s = Some (Inr (tid, name, sz), s')"
proof -
  have nl: "LF \<notin> set name" and hdr': "hdr = str_bytes headerMagic @ [lf] @ str_bytes tid @ [lf] @
      str_bytes (Itoa sz) @ [lf] @ str_bytes name @ [lf]"
    using hdr by (auto simp: sendHeader_def str_bytes_LF [simplified] split: if_splits)
  have ml: "LF \<notin> set headerMagic" by (simp add: headerMagic_def LF_def)
  have "digit_val LF = None" by (simp add: LF_def digit_val_def less_eq_char_def)
  then have il: "LF \<notin> set (Itoa sz)" using itoa_nat_digits [of LF "nat sz"] sz(1) by (auto simp: Itoa_def)
  have digits: "trimmed (Itoa sz)" "Itoa sz \<noteq> []"
    using itoa_nat_digits [of _ "nat sz"] sz(1) by (auto simp: Itoa_def intro!: trimmed_digits)
  have in64: "in64 sz" using sz by (simp add: in64_def)
  let ?init = "\<lparr>br_buf = [], br_err = None, br_src = s\<rparr>"
  let ?b = "\<lambda>bs. \<lparr>br_buf = bs, br_err = None, br_src = s'\<rparr>"
  have fill: "bufio_fill 100 rd ?init = ?b (hdr @ body)"
    using rd by (simp add: numeral_eq_Suc hdr')
  have lines: "lf \<notin> set l \<Longrightarrow> ReadString rd (?b (l @ lf # r)) [] = Some (Inr (l @ [lf]), ?b r)" for l r
    using line_in_buffer [of l "?b (l @ lf # r)" r rd "[]"] by simp
  have l1: "ReadString rd ?init [] = Some (Inr (str_bytes headerMagic @ [lf]),
      ?b (str_bytes tid @ lf # str_bytes (Itoa sz) @ lf # str_bytes name @ lf # body))"
  proof -
    have "ReadString rd ?init [] = ReadString rd (?b (hdr @ body)) []"
      by (subst ReadString.simps) (simp add: fill bufSize_def)
    also have "hdr @ body = str_bytes headerMagic @ lf # (str_bytes tid @ lf # str_bytes (Itoa sz) @
        lf # str_bytes name @ lf # body)" by (simp add: hdr')
    finally show ?thesis using lines ml str_bytes_lf by simp
  qed
  have str: "bytes_str (str_bytes l @ [lf]) = l @ [LF]" for l
    by (metis bytes_str_bytes str_bytes_LF str_bytes_simps(3))
  have mt: "TrimSpace (headerMagic @ [LF]) = headerMagic"
    by (intro TrimSpace_line ml) (simp_all add: headerMagic_def trimmed_def space_seqs_def)
  have tt: "TrimSpace (tid @ [LF]) = tid" "TrimSpace (name @ [LF]) = name"
    "TrimSpace (Itoa sz @ [LF]) = Itoa sz"
    using tid name nl il digits by (auto intro!: TrimSpace_line simp: TrimSpace_trimmed)
  note l2 = lines [of "str_bytes tid"] and l3 = lines [of "str_bytes (Itoa sz)"]
    and l4 = lines [of "str_bytes name"]
  show ?thesis
    unfolding ReadHeader_def l1
    using l2 l3 l4 tid(3) il nl name sz(1) in64
    by (simp add: str_bytes_lf str mt tt)
qed

section \<open>Saving\<close>

lemma status_progress: "status_of j (ok_or m (Recv_UpdateProgress now i n m)) = status_of j m"
  by (auto simp: Recv_UpdateProgress_def ok_or_def Let_def status_of_def map_of_gput split: option.split)

lemma save_step:
  assumes "rd (256 * 1024) s = ((bs, None), s')" "bs = [] \<or> wok out"
  shows "\<exists>prev' m'. save_loop rd wok clock i s out tot prev m =
      save_loop rd wok clock i s' (out @ bs) (tot + int (length bs)) prev' m' \<and>
    (\<forall>j. status_of j m' = status_of j m)"
proof -
  define prog where "prog = (bs \<noteq> [] \<and> progressInterval \<le> tot + int (length bs) - prev)"
  define m1 where "m1 = (if prog then ok_or m (Recv_UpdateProgress (clock (tot + int (length bs))) i
     (tot + int (length bs)) m) else m)"
  have "save_loop rd wok clock i s out tot prev m =
      save_loop rd wok clock i s' (out @ bs) (tot + int (length bs))
        (if prog then tot + int (length bs) else prev) m1"
    using assms by (subst save_loop.simps) (auto simp: Let_def prog_def m1_def)
  moreover have "status_of j m1 = status_of j m" for j by (simp add: m1_def status_progress)
  ultimately show ?thesis by blast
qed

lemma save_chunks:
  "\<exists>m'. save_loop chunk_reader (\<lambda>_. True) clock i cs out tot prev m =
      Some (None, tot + int (length (concat cs)), out @ concat cs, [], m') \<and>
    (\<forall>j. status_of j m' = status_of j m)"
proof (induction "length cs + length (concat cs)" arbitrary: cs out tot prev m rule: less_induct)
  case less
  show ?case
  proof (cases cs)
    case Nil
    then show ?thesis by (subst save_loop.simps) (simp add: Let_def)
  next
    case (Cons c cs')
    obtain bs cs2 where rd: "chunk_reader (256 * 1024) cs = ((bs, None), cs2)"
      and eq: "concat cs = bs @ concat cs2"
      and sm: "length cs2 + length (concat cs2) < length cs + length (concat cs)"
      by (cases "c = []"; cases "length c \<le> 256 * 1024") (auto simp: Cons)
    from save_step [where rd = chunk_reader and s = cs, OF rd, of "\<lambda>_. True" out clock i tot prev m] obtain prev' m1 where
      st: "save_loop chunk_reader (\<lambda>_. True) clock i cs out tot prev m =
        save_loop chunk_reader (\<lambda>_. True) clock i cs2 (out @ bs) (tot + int (length bs)) prev' m1"
        "\<forall>j. status_of j m1 = status_of j m" by blast
    from less [OF sm, of "out @ bs" "tot + int (length bs)" prev' m1] show ?thesis
      unfolding st(1) eq using st(2) by (auto simp: add.assoc)
  qed
qed

lemma readFrame_Nil [simp]: "readFrame mem_ReadFull [] = (Inl ErrNetHeader, [])"
  by (simp add: readFrame_def mem_ReadFull_def)

lemma ec_read_ok:
  assumes "EC_Read dec (256 * 1024) ec = (Inr bs, ec')" "ec_ok dec ec"
  shows "ec_ok dec ec' \<and> ec_view dec ec = bs @ ec_view dec ec'"
proof (cases "ec_view dec ec = []")
  case False
  from EC_Read_view [OF assms(2) this, of "256 * 1024"] assms(1) show ?thesis by auto
next
  case True
  then have buf: "ec_buf ec = []" "wire_plain dec (ec_recvCS ec) (ec_in ec) = Some []"
    using assms(2) by (auto simp: ec_ok_def ec_view_def)
  with assms(1) show ?thesis
    by (auto simp: EC_Read_def ec_ok_def ec_view_def wire_plain.simps [of dec "ec_recvCS ec" "ec_in ec"]
        split: if_splits sum.splits prod.splits option.splits)
qed

lemma ec_read_fail: "EC_Read dec k ec = (Inl e, ec') \<Longrightarrow> ec_ok dec ec \<Longrightarrow> ec_view dec ec = []"
  by (auto simp: EC_Read_def ec_ok_def ec_view_def wire_plain.simps [of dec "ec_recvCS ec" "ec_in ec"]
      split: if_splits sum.splits prod.splits option.splits)

lemma ec_read_shrinks: "EC_Read dec (256 * 1024) ec = (Inr bs, ec') \<Longrightarrow>
    (ec', ec) \<in> measures [\<lambda>ec. length (ec_in ec), \<lambda>ec. length (ec_buf ec)]"
  by (auto simp: EC_Read_def split: if_splits sum.splits prod.splits option.splits dest: readFrame_shorter)

text \<open>Saving from an encrypted connection always ends with an error.\<close>

lemma save_ec:
  "\<exists>e tot' out' ec' m'. save_loop (ec_reader dec) wok clock i ec out tot prev m =
      Some (Some e, tot', out', ec', m') \<and> (\<forall>j. status_of j m' = status_of j m) \<and>
    ((\<forall>x. wok x) \<and> ec_ok dec ec \<longrightarrow> e = ErrFileRead \<and> out' = out @ ec_view dec ec \<and>
      tot' = tot + int (length (ec_view dec ec)))"
proof (induction ec arbitrary: out tot prev m
    rule: wf_induct_rule [OF wf_measures [of "[\<lambda>ec. length (ec_in ec), \<lambda>ec. length (ec_buf ec)]"]])
  case (1 ec)
  obtain r ec' where r: "EC_Read dec (256 * 1024) ec = (r, ec')" by fastforce
  show ?case
  proof (cases r)
    case (Inl e)
    with r ec_read_fail [of dec "256 * 1024" ec e ec'] show ?thesis
      by (subst save_loop.simps) (auto simp: ec_reader_def Let_def)
  next
    case (Inr bs)
    note IH = "1.IH" [OF ec_read_shrinks [OF r [unfolded Inr]]]
    show ?thesis
    proof (cases "bs \<noteq> [] \<and> \<not> wok out")
      case True
      then show ?thesis
        using r Inr by (subst save_loop.simps) (auto simp: ec_reader_def Let_def)
    next
      case False
      have "ec_reader dec (256 * 1024) ec = ((bs, None), ec')" using r Inr by (simp add: ec_reader_def)
      from save_step [where rd = "ec_reader dec" and s = ec, OF this, of wok out clock i tot prev m] False
      obtain prev' m1 where
        st: "save_loop (ec_reader dec) wok clock i ec out tot prev m =
          save_loop (ec_reader dec) wok clock i ec' (out @ bs) (tot + int (length bs)) prev' m1"
          "\<forall>j. status_of j m1 = status_of j m" by blast
      moreover have "ec_ok dec ec \<Longrightarrow> ec_ok dec ec' \<and> ec_view dec ec = bs @ ec_view dec ec'"
        using ec_read_ok r Inr by metis
      ultimately show ?thesis
        using IH [of "out @ bs" "tot + int (length bs)" prev' m1] by (auto simp: add.assoc)
    qed
  qed
qed

lemma save_encrypted:
  "\<exists>e tot out ec' m'. SaveFile (ec_reader dec) wok clock created expected i ec m =
      Some (Some e, tot, out, ec', m') \<and> (\<forall>j. status_of j m' = status_of j m) \<and>
    ((\<forall>x. wok x) \<and> created \<and> ec_ok dec ec \<longrightarrow> e = ErrFileRead \<and> out = ec_view dec ec)"
proof (cases created)
  case True
  from save_ec [of dec wok clock i ec "[]" 0 0 m] obtain e tot out ec' m' where
    "save_loop (ec_reader dec) wok clock i ec [] 0 0 m = Some (Some e, tot, out, ec', m')"
    "\<forall>j. status_of j m' = status_of j m"
    "(\<forall>x. wok x) \<and> ec_ok dec ec \<longrightarrow> e = ErrFileRead \<and> out = [] @ ec_view dec ec \<and>
      tot = 0 + int (length (ec_view dec ec))" by blast
  then show ?thesis
    by (intro exI [of _ e] exI [of _ tot] exI [of _ out] exI [of _ ec'] exI [of _ m'])
      (simp add: SaveFile_def True)
qed (simp add: SaveFile_def)

lemma status_update: "status_of j m = Some s \<Longrightarrow> isValidTransition s t \<Longrightarrow>
    status_of j (ok_or m (Recv_UpdateStatus now j t e m)) = Some t"
  by (auto simp: Recv_UpdateStatus_def ok_or_def Let_def status_of_def map_of_gput split: option.splits)

lemma wait_accepting:
  "waitForAccept i m evs = Some (Decided RAccepting, m') \<Longrightarrow> status_of i m' = Some RAccepting"
proof (induction evs arbitrary: m)
  case Nil
  then show ?case
    by (subst (asm) waitForAccept.simps)
      (auto simp: Recv_Get_def status_of_def split: option.splits if_splits sum.splits)
next
  case (Cons e evs)
  then show ?case
    by (subst (asm) waitForAccept.simps, cases e)
      (auto simp: Recv_Get_def status_of_def split: option.splits if_splits sum.splits)
qed

lemma accepted_fails:
  assumes acc: "status_of uuid m3 = Some RAccepting"
  shows "\<exists>e f m'. receive_accepted (ec_reader dec) wok clock created tmp uuid now fn fs s1 m3 =
      Some (HSaveFailed e, f, m') \<and> status_of uuid m' = Some RFailed"
proof -
  let ?m4 = "ok_or m3 (Recv_UpdateStatus now uuid RReceiving [] m3)"
  have m4: "status_of uuid ?m4 = Some RReceiving" by (rule status_update [OF acc]) simp
  then obtain inc where inc: "Recv_Get uuid ?m4 = Inr inc" by (auto simp: Recv_Get_def status_of_def)
  from save_encrypted [of dec wok clock created fs uuid s1 ?m4] obtain e tot out ec' m5 where
    sv: "SaveFile (ec_reader dec) wok clock created fs uuid s1 ?m4 = Some (Some e, tot, out, ec', m5)"
      "status_of uuid m5 = Some RReceiving" using m4 by auto
  have "status_of uuid (ok_or m5 (Recv_UpdateStatus now uuid RFailed ''save failed'' m5)) = Some RFailed"
    by (rule status_update [OF sv(2)]) simp
  with inc sv(1) show ?thesis by (simp add: receive_accepted_def Let_def)
qed

section \<open>Properties\<close>

text \<open>The header survives the connection: when the sender's header was accepted for sending, fits
  the 4096-byte buffer and arrives as one encrypted frame, the receiver reads back the transfer id,
  the file name and the size, and exactly the frames that follow stay on the connection for the body.
  The id and the name carry no white space at their ends.\<close>

theorem header_roundtrip:
  assumes hdr: "sendHeader tid name sz = Some hdr" "length hdr \<le> bufSize"
    and conn: "ec_in ec = writeFrame c @ w" "ec_buf ec = []" "length c \<le> maxNetFrame"
      "dec (ec_recvCS ec) c = (Some hdr, cs)"
    and tid: "TrimSpace tid = tid" "tid \<noteq> []" "LF \<notin> set tid"
    and name: "TrimSpace name = name" "name \<noteq> []" "length name \<le> 4096"
    and sz: "0 \<le> sz" "sz < 2 ^ 63"
  shows "ReadHeader (ec_reader dec) ec =
    Some (Inr (tid, name, sz), ec\<lparr>ec_in := w, ec_recvCS := cs, ec_buf := []\<rparr>)"
proof -
  have "ec_reader dec bufSize ec = ((hdr @ [], None), ec\<lparr>ec_in := w, ec_recvCS := cs, ec_buf := []\<rparr>)"
    using conn hdr(2) by (simp add: ec_reader_def EC_Read_def readFrame_write)
  then show ?thesis by (rule ReadHeader_one_read) (use hdr tid name sz in simp_all)
qed

text \<open>The header reader reads ahead: on a connection that delivers the header and the beginning of
  the body in one read, those body bytes end up in the header's buffer and are lost to \<open>SaveFile\<close>.\<close>

theorem header_reader_loses_body:
  assumes hdr: "sendHeader tid name sz = Some hdr" "length (hdr @ body) \<le> bufSize"
    and tid: "TrimSpace tid = tid" "tid \<noteq> []" "LF \<notin> set tid"
    and name: "TrimSpace name = name" "name \<noteq> []" "length name \<le> 4096"
    and sz: "0 \<le> sz" "sz < 2 ^ 63"
  shows "ReadHeader chunk_reader ((hdr @ body) # rest) = Some (Inr (tid, name, sz), rest)"
  by (rule ReadHeader_one_read) (use assms in \<open>simp_all add: bufSize_def\<close>)

text \<open>Saving from a reader that ends with \<open>io.EOF\<close> writes exactly the bytes the reader yields, in
  any chunking, and succeeds exactly when their number is the announced size or no positive size was
  announced; otherwise it reports the mismatch. It always returns.\<close>

theorem SaveFile_exact:
  "\<exists>m'. SaveFile chunk_reader (\<lambda>_. True) clock True expected i cs m =
      Some (if 0 < expected \<and> int (length (concat cs)) \<noteq> expected then Some ErrSizeMismatch else None,
            int (length (concat cs)), concat cs, [], m')"
proof -
  from save_chunks [of clock i cs "[]" 0 0 m] show ?thesis by (auto simp: SaveFile_def)
qed

text \<open>C28: Saving from an encrypted connection never succeeds: whatever arrives, and whether or not it is
  complete, \<open>SaveFile\<close> returns an error, because the connection reports its end as a wrapped error and
  the loop only stops cleanly at the value \<open>io.EOF\<close>. With an intact connection and a working disk the
  file then holds every byte that was sent, and the read error is reported all the same.\<close>

theorem SaveFile_never_succeeds_encrypted:
  "\<exists>e tot out ec' m'. SaveFile (ec_reader dec) wok clock created expected i ec m =
      Some (Some e, tot, out, ec', m') \<and>
    ((\<forall>x. wok x) \<and> created \<and> ec_ok dec ec \<longrightarrow> e = ErrFileRead \<and> out = ec_view dec ec)"
proof -
  from save_encrypted [of dec wok clock created expected i ec m] show ?thesis by blast
qed

text \<open>Hence no inbound transfer over an encrypted connection is ever completed by the connection
  handler: it never reports success, and once the user has accepted, it stores what arrives and
  always ends with the incoming failed.\<close>

theorem handler_never_completes:
  assumes "handleConn (ec_reader dec) wok clock created tmp uuid now peer evs ec m = Some (r, f, m')"
  shows "r \<noteq> HReceived \<and> (f \<noteq> None \<longrightarrow> status_of uuid m' = Some RFailed)"
proof -
  have acc: "r \<noteq> HReceived \<and> status_of uuid m' = Some RFailed"
    if "receive_accepted (ec_reader dec) wok clock created tmp uuid now fn fs s1 m3 = Some (r, f, m')"
      "waitForAccept uuid m2 evs = Some (Decided RAccepting, m3)" for fn fs s1 m2 m3 r f m'
    using accepted_fails [OF wait_accepting [OF that(2)], of dec wok clock created tmp now fn fs s1] that(1)
    by auto
  from assms show ?thesis
    unfolding handleConn_def
    by (auto dest: acc split: option.splits sum.splits prod.splits if_splits wait_result.splits)
qed

text \<open>Wake-ups can be lost: all handlers sleep on one notification channel and ignore the id they
  take from it. There is a reachable state in which an incoming has been accepted, the handler that
  waits for it sleeps, and the channel is empty, because another handler took the notification.\<close>

theorem wakeup_can_be_lost:
  "\<exists>h. hub_reach 3 h \<and> status_of ''a'' (hub_mgr h) = Some RAccepting \<and>
    ''a'' \<in> set (hub_waiting h) \<and> rm_notify (hub_mgr h) = []"
proof -
  let ?reg = "\<lambda>i. ORegister i 0 ''p'' ''n'' ''f'' 1 0"
  let ?inc = "\<lambda>i. newIncoming i 0 ''p'' ''n'' ''f'' 1 DefaultPromptExpiry"
  let ?h = "\<lambda>incs ns ws. \<lparr>hub_mgr = \<lparr>rm_incomings = incs, rm_maxActive = 3, rm_notify = ns\<rparr>, hub_waiting = ws\<rparr>"
  let ?acc = "(?inc ''a'')\<lparr>in_Status := RAccepting, in_SavePath := ''x'', in_UpdatedAt := 1\<rparr>"
  let ?h1 = "?h [(''a'', ?inc ''a'')] [] []"
  let ?h2 = "?h [(''a'', ?inc ''a''), (''b'', ?inc ''b'')] [] []"
  let ?h3 = "?h [(''a'', ?inc ''a''), (''b'', ?inc ''b'')] [] [''a'']"
  let ?h4 = "?h [(''a'', ?inc ''a''), (''b'', ?inc ''b'')] [] [''b'', ''a'']"
  let ?h5 = "?h [(''a'', ?acc), (''b'', ?inc ''b'')] [''a''] [''b'', ''a'']"
  let ?h6 = "?h [(''a'', ?acc), (''b'', ?inc ''b'')] [] [''b'', ''a'']"
  note ev = recv_defs NewRManager_def registerActive_def hub_look_def Recv_Get_def decided_def
    put_inc_def try_notify_def notifyBuf_def DefaultPromptExpiry_def
  have s0: "hub_step \<lparr>hub_mgr = NewRManager 3, hub_waiting = []\<rparr> ?h1"
    using hub_step.op [of "\<lparr>hub_mgr = NewRManager 3, hub_waiting = []\<rparr>" "?reg ''a''"] by (simp add: ev)
  have s1: "hub_step ?h1 ?h2" using hub_step.op [of ?h1 "?reg ''b''"] by (simp add: ev)
  have s2: "hub_step ?h2 ?h3" using hub_step.enter [of "''a''" ?h2] by (simp add: ev)
  have s3: "hub_step ?h3 ?h4" using hub_step.enter [of "''b''" ?h3] by (simp add: ev)
  have s4: "hub_step ?h4 ?h5" using hub_step.op [of ?h4 "OAccept 1 ''a'' ''x''"] by (simp add: ev)
  have s5: "hub_step ?h5 ?h6" using hub_step.wake [of "''b''" ?h5 "''a''" "[]"] by (simp add: ev)
  have "hub_reach 3 ?h6"
    by (rule hub_reach.step [OF hub_reach.step [OF hub_reach.step [OF hub_reach.step [OF hub_reach.step
      [OF hub_reach.step [OF hub_reach.init s0] s1] s2] s3] s4] s5])
  then show ?thesis by (intro exI [of _ ?h6]) (simp add: status_of_def)
qed

section \<open>Witnesses\<close>

definition demo_hdr :: bytes where
  "demo_hdr = the (sendHeader ''id'' ''f.txt'' 2)"

lemma demo_hdr: "sendHeader ''id'' ''f.txt'' 2 = Some demo_hdr" "length demo_hdr = 24"
proof -
  show s: "sendHeader ''id'' ''f.txt'' 2 = Some demo_hdr"
    by (simp add: demo_hdr_def sendHeader_def LF_def)
  have i: "Itoa 2 = ''2''" by (simp add: Itoa_def itoa_nat.simps digit_char_def)
  have "demo_hdr = str_bytes (headerMagic @ [LF] @ ''id'' @ [LF] @ Itoa 2 @ [LF] @ ''f.txt'' @ [LF])"
    using s by (auto simp only: sendHeader_def option.inject option.distinct split: if_splits)
  then have "length demo_hdr = length (headerMagic @ [LF] @ ''id'' @ [LF] @ Itoa 2 @ [LF] @ ''f.txt'' @ [LF])"
    by (metis str_bytes_def length_map)
  then show "length demo_hdr = 24" by (simp add: headerMagic_def i)
qed

lemma demo_trims: "TrimSpace ''id'' = ''id''" "TrimSpace ''f.txt'' = ''f.txt''" "LF \<notin> set ''id''"
  by (code_simp, code_simp, simp add: LF_def)

definition id_dec :: "unit decrypt" where
  "id_dec u c = (Some c, u)"

definition demo_in :: "bytes \<Rightarrow> unit EncryptedConn" where
  "demo_in w = \<lparr>ec_in = w, ec_sendCS = (), ec_recvCS = (), ec_buf = []\<rparr>"

theorem header_roundtrip_witness:
  "ReadHeader (ec_reader id_dec) (demo_in (writeFrame demo_hdr @ writeFrame [7, 8])) =
    Some (Inr (''id'', ''f.txt'', 2), demo_in (writeFrame [7, 8]))"
  using header_roundtrip [OF demo_hdr(1), of "demo_in (writeFrame demo_hdr @ writeFrame [7, 8])" demo_hdr
      "writeFrame [7, 8]" id_dec "()"] demo_trims demo_hdr(2)
  by (simp add: bufSize_def demo_in_def maxNetFrame_def id_dec_def)

theorem header_reader_loses_body_witness:
  "ReadHeader chunk_reader [demo_hdr @ [7, 8]] = Some (Inr (''id'', ''f.txt'', 2), [])"
  using header_reader_loses_body [OF demo_hdr(1), of "[7, 8]" "[]"] demo_trims demo_hdr(2)
  by (simp add: bufSize_def)

theorem SaveFile_never_succeeds_encrypted_witness:
  "\<exists>tot ec' m'. SaveFile (ec_reader id_dec) (\<lambda>_. True) (\<lambda>t. 0) True 2 ''id''
      (demo_in (writeFrame [7, 8])) (NewRManager 0) = Some (Some ErrFileRead, tot, [7, 8], ec', m')"
proof -
  have "readFrame mem_ReadFull (writeFrame [7, 8]) = (Inr [7, 8], [])"
    using readFrame_write [of "[7, 8]" "[]"] by (simp add: maxNetFrame_def)
  moreover have "writeFrame [7, 8] \<noteq> []" by (simp add: writeFrame_def)
  ultimately have "wire_plain id_dec () (writeFrame [7, 8]) = Some [7, 8]"
    by (simp add: wire_plain.simps [of id_dec "()" "writeFrame [7, 8]"] id_dec_def
        wire_plain.simps [of id_dec "()" "[]"])
  then have "ec_ok id_dec (demo_in (writeFrame [7, 8]))"
    "ec_view id_dec (demo_in (writeFrame [7, 8])) = [7, 8]"
    by (simp_all add: ec_ok_def ec_view_def demo_in_def)
  with SaveFile_never_succeeds_encrypted [of id_dec "\<lambda>_. True" "\<lambda>t. 0" True 2 "''id''"
      "demo_in (writeFrame [7, 8])" "NewRManager 0"]
  show ?thesis by auto
qed

lemma demo_header_read:
  "ReadHeader (ec_reader id_dec) (demo_in (writeFrame demo_hdr @ w)) = Some (Inr (''id'', ''f.txt'', 2), demo_in w)"
proof (rule ReadHeader_one_read [OF _ demo_hdr(1), of _ _ "[]"])
  show "ec_reader id_dec bufSize (demo_in (writeFrame demo_hdr @ w)) = ((demo_hdr @ [], None), demo_in w)"
    using demo_hdr(2) by (simp add: ec_reader_def EC_Read_def demo_in_def readFrame_write maxNetFrame_def
        id_dec_def bufSize_def)
qed (use demo_trims demo_hdr(2) in \<open>simp_all add: bufSize_def\<close>)

theorem handler_never_completes_witness:
  "\<exists>r f m'. handleConn (ec_reader id_dec) (\<lambda>_. True) (\<lambda>t. 0) True ''/tmp'' ''a'' 0 (replicate 32 1)
      [Wake (rstep (OAccept 1 ''a'' ''/x'') demo_waiting)]
      (demo_in (writeFrame demo_hdr @ writeFrame [7, 8])) (NewRManager 0) = Some (r, f, m') \<and>
    f \<noteq> None \<and> status_of ''a'' m' = Some RFailed"
proof -
  let ?m = "rstep (OAccept 1 ''a'' ''/x'') demo_waiting"
  have acc: "status_of ''a'' ?m = Some RAccepting"
    by (simp add: status_of_def demo_waiting_eval recv_defs put_inc_def try_notify_def)
  let ?r = "Recv_Register ''a'' 0 (EncodeToString (take 8 (replicate 32 1))) ''unknown'' ''f.txt'' 2 0 (NewRManager 0)"
  obtain inc m1 where reg: "?r = Inr (inc, m1)" "status_of ''a'' m1 = Some RPending"
    by (simp add: rrun_eval)
  have m2: "status_of ''a'' (ok_or m1 (Recv_UpdateStatus 0 ''a'' RPrompting [] m1)) = Some RPrompting"
    by (rule status_update [OF reg(2)]) simp
  have w: "waitForAccept ''a'' (ok_or m1 (Recv_UpdateStatus 0 ''a'' RPrompting [] m1)) [Wake ?m] =
      Some (Decided RAccepting, ?m)"
  proof -
    have "waitForAccept ''a'' ?m [] = Some (Decided RAccepting, ?m)"
      using acc by (subst waitForAccept.simps) (auto simp: Recv_Get_def status_of_def decided_def split: option.splits)
    then show ?thesis
      using m2 by (subst waitForAccept.simps)
        (auto simp: Recv_Get_def status_of_def decided_def split: option.splits)
  qed
  let ?a = "receive_accepted (ec_reader id_dec) (\<lambda>_. True) (\<lambda>t. 0) True ''/tmp'' ''a'' 0 ''f.txt'' 2
      (demo_in (writeFrame [7, 8])) ?m"
  have h: "handleConn (ec_reader id_dec) (\<lambda>_. True) (\<lambda>t. 0) True ''/tmp'' ''a'' 0 (replicate 32 1)
      [Wake ?m] (demo_in (writeFrame demo_hdr @ writeFrame [7, 8])) (NewRManager 0) = ?a"
    by (simp only: handleConn_def demo_header_read option.case prod.case sum.case reg(1) w simp_thms if_True)
  obtain e path out m' where a: "?a = Some (HSaveFailed e, Some (path, out), m')"
    using accepted_fails [OF acc, of id_dec "\<lambda>_. True" "\<lambda>t. 0" True "''/tmp''" 0 "''f.txt''" 2
        "demo_in (writeFrame [7, 8])"]
    by (auto simp: receive_accepted_def Let_def split: sum.splits option.splits)
  from handler_never_completes [OF trans [OF h a]] h a show ?thesis by auto
qed

end
