(* ===== verification/UseCases.thy ===== *)
theory UseCases
  imports TransferManager FileTransfer
begin

text \<open>
  The two use cases (\<open>core/usecase/send.go\<close>, \<open>core/usecase/receive.go\<close>): sending a file through the
  transfer manager, and receiving one through the receive manager. They run beside other goroutines
  that act on the same managers: before every access of a manager the run takes one turn of the
  others, a list of manager operations. The file system and the connection are the outcomes of their
  calls: what \<open>Stat\<close> and \<open>Dial\<close> return, which writes succeed, the chunks the file reader yields.
\<close>

section \<open>The send use case\<close>

record SendConfig =
  sc_PeerID :: string
  sc_PeerName :: string
  sc_FilePath :: string
  sc_TransferID :: string

record FileStat =
  fst_IsDir :: bool
  fst_Name :: string
  fst_Size :: int

definition PeerNotRespondingMsg :: string where
  \<comment> \<open>UTF-8\<close>
  "PeerNotRespondingMsg = map char_of [0xE5 :: nat, 0xAF, 0xB9, 0xE6, 0x96, 0xB9, 0xE6, 0x9C, 0xAA,
     0xE5, 0x93, 0x8D, 0xE5, 0xBA, 0x94]"

datatype SendError = SErrStat | SErrDirectory | SErrGet | SErrCreate TransferManager.ManagerError
  | SErrUpdate TransferManager.ManagerError | SErrCancelled | SErrNotResponding
  | SErrNewline | SErrHeaderWrite | SErrOpen | SErrWrite | SErrRead

text \<open>A turn of the other goroutines: their manager operations, whether the caller's context is
  cancelled meanwhile, and the clock.\<close>

record Turn =
  tn_ops :: "MgrOp list"
  tn_parent :: bool
  tn_now :: int

record Run =
  ru_mgr :: Manager
  ru_done :: bool
  ru_now :: int
  ru_turns :: "Turn list"
  ru_out :: "bytes list"

text \<open>The context of the run is done when an operation called its cancel function, the handle \<open>h\<close>.\<close>

definition env_op :: "nat \<Rightarrow> MgrOp \<Rightarrow> Manager \<times> bool \<Rightarrow> Manager \<times> bool" where
  "env_op h x md = (mgr_step x (fst md), snd md \<or> (case x of
      OpCancel tid now \<Rightarrow> (case Manager_Cancel tid now (fst md) of
          Inl e \<Rightarrow> False
        | Inr (_, _, fx) \<Rightarrow> CallCancel h \<in> set fx)
    | _ \<Rightarrow> False))"

definition sync :: "nat \<Rightarrow> Run \<Rightarrow> Run" where
  "sync h r = (case ru_turns r of
      [] \<Rightarrow> r
    | t # ts \<Rightarrow>
        let md = fold (env_op h) (tn_ops t) (ru_mgr r, ru_done r \<or> tn_parent t)
        in r\<lparr>ru_mgr := fst md, ru_done := snd md, ru_now := tn_now t, ru_turns := ts\<rparr>)"

text \<open>A status or progress update whose error the code ignores.\<close>

definition upd_status :: "nat \<Rightarrow> string \<Rightarrow> Status \<Rightarrow> string \<Rightarrow> Run \<Rightarrow> Run" where
  "upd_status h tid st msg r0 = (let r = sync h r0 in
     r\<lparr>ru_mgr := ok_or (ru_mgr r) (Manager_UpdateStatus tid st msg (ru_now r) (ru_mgr r))\<rparr>)"

definition upd_progress :: "nat \<Rightarrow> string \<Rightarrow> int \<Rightarrow> Run \<Rightarrow> Run" where
  "upd_progress h tid n r0 = (let r = sync h r0 in
     r\<lparr>ru_mgr := ok_or (ru_mgr r) (Manager_UpdateProgress tid n (ru_now r) (ru_mgr r))\<rparr>)"

definition conn_write :: "bytes \<Rightarrow> Run \<Rightarrow> Run" where
  "conn_write bs r = r\<lparr>ru_out := ru_out r @ [bs]\<rparr>"

text \<open>\<open>streamFile\<close>'s loop: \<open>cs\<close> are the reads still to come, then end of file or a read error;
  \<open>wok k\<close> tells whether the \<open>k\<close>-th write succeeds (the header is write 0).\<close>

fun stream_loop ::
  "nat \<Rightarrow> (nat \<Rightarrow> bool) \<Rightarrow> string \<Rightarrow> bool \<Rightarrow> nat \<Rightarrow> int \<Rightarrow> int \<Rightarrow> bytes list \<Rightarrow> Run \<Rightarrow>
    (SendError option \<times> int) \<times> Run" where
  "stream_loop h wok tid ferr k tot prev [] r0 = (let r = sync h r0 in
     if ru_done r then ((Some SErrCancelled, tot), r)
     else if ferr then ((Some SErrRead, tot), r)
     else ((None, tot), r))"
| "stream_loop h wok tid ferr k tot prev (c # cs) r0 = (let r = sync h r0 in
     if ru_done r then ((Some SErrCancelled, tot), r)
     else if c = [] then stream_loop h wok tid ferr k tot prev cs r
     else if \<not> wok k then ((Some SErrWrite, tot), r)
     else let r1 = conn_write c r; tot' = tot + int (length c) in
       if progressInterval \<le> tot' - prev
       then stream_loop h wok tid ferr (k + 1) tot' tot' cs (upd_progress h tid tot' r1)
       else stream_loop h wok tid ferr (k + 1) tot' prev cs r1)"

record Disk =
  dk_stat :: "FileStat option"
  dk_opens :: bool
  dk_chunks :: "bytes list"
  dk_readErr :: bool

definition streamFile ::
  "nat \<Rightarrow> (nat \<Rightarrow> bool) \<Rightarrow> Disk \<Rightarrow> string \<Rightarrow> Run \<Rightarrow> (SendError option \<times> int) \<times> Run" where
  "streamFile h wok d tid r =
    (if \<not> dk_opens d then ((Some SErrOpen, 0), r)
     else stream_loop h wok tid (dk_readErr d) 1 0 0 (dk_chunks d) r)"

text \<open>The part of \<open>Execute\<close> after the registration. \<open>etext\<close> is the text of an error.\<close>

definition send_connected ::
  "nat \<Rightarrow> (SendError \<Rightarrow> string) \<Rightarrow> (nat \<Rightarrow> bool) \<Rightarrow> Disk \<Rightarrow> FileStat \<Rightarrow> string \<Rightarrow> Run \<Rightarrow>
    SendError option \<times> Run" where
  "send_connected h etext wok d info tid r0 =
    (let r = upd_status h tid StatusTransferring [] r0 in
     case sendHeader tid (fst_Name info) (fst_Size info) of
       None \<Rightarrow> (Some SErrNewline, upd_status h tid StatusFailed (etext SErrNewline) r)
     | Some hdr \<Rightarrow>
       if \<not> wok 0 then (Some SErrHeaderWrite, upd_status h tid StatusFailed (etext SErrHeaderWrite) r)
       else (case streamFile h wok d tid (conn_write hdr r) of
           ((Some e, sent), r1) \<Rightarrow>
             let r2 = sync h r1 in
             if ru_done r2 then (Some SErrCancelled, upd_status h tid StatusCancelled [] r2)
             else (Some e, upd_status h tid StatusFailed (etext e) r2)
         | ((None, sent), r1) \<Rightarrow>
             (None, upd_status h tid StatusCompleted [] (upd_progress h tid sent r1))))"

definition send_registered ::
  "nat \<Rightarrow> (SendError \<Rightarrow> string) \<Rightarrow> bool \<Rightarrow> (nat \<Rightarrow> bool) \<Rightarrow> Disk \<Rightarrow> FileStat \<Rightarrow> string \<Rightarrow> Run \<Rightarrow>
    SendError option \<times> Run" where
  "send_registered h etext dials wok d info tid r0 =
    (let r = sync h r0 in
     case Manager_UpdateStatus tid StatusConnecting [] (ru_now r) (ru_mgr r) of
       Inl e \<Rightarrow> (Some (SErrUpdate e), r)
     | Inr (_, m) \<Rightarrow>
       if \<not> dials then
         (let r2 = sync h (r\<lparr>ru_mgr := m\<rparr>) in
          if ru_done r2 then (Some SErrCancelled, upd_status h tid StatusCancelled [] r2)
          else (Some SErrNotResponding, upd_status h tid StatusFailed PeerNotRespondingMsg r2))
       else send_connected h etext wok d info tid (r\<lparr>ru_mgr := m\<rparr>))"

definition set_reg :: "CancelRegistry \<Rightarrow> Run \<Rightarrow> Run" where
  "set_reg g r = r\<lparr>ru_mgr := (ru_mgr r)\<lparr>mg_CancelReg := g\<rparr>\<rparr>"

text \<open>\<open>Execute\<close>: \<open>dials\<close> tells whether \<open>net.Dial\<close> succeeds, \<open>uid\<close> is the id a new transfer gets. The
  deferred \<open>Complete\<close> runs on every return after the registration.\<close>

definition send_Execute ::
  "nat \<Rightarrow> string \<Rightarrow> (SendError \<Rightarrow> string) \<Rightarrow> SendConfig \<Rightarrow> Disk \<Rightarrow> bool \<Rightarrow> (nat \<Rightarrow> bool) \<Rightarrow> Run \<Rightarrow>
    SendError option \<times> Run" where
  "send_Execute h uid etext cfg d dials wok r0 = (case dk_stat d of
      None \<Rightarrow> (Some SErrStat, r0)
    | Some info \<Rightarrow>
      if fst_IsDir info then (Some SErrDirectory, r0)
      else
        let r = sync h r0 in
        case (if sc_TransferID cfg \<noteq> [] then
                (case Manager_Get (sc_TransferID cfg) (ru_mgr r) of
                   Inl e \<Rightarrow> Inl SErrGet | Inr t \<Rightarrow> Inr (tr_ID t, ru_mgr r))
              else
                (case Manager_Create uid (ru_now r) (sc_PeerID cfg) (sc_PeerName cfg) (sc_FilePath cfg)
                        (fst_Name info) (fst_Size info) (ru_mgr r) of
                   Inl e \<Rightarrow> Inl (SErrCreate e) | Inr (t, m) \<Rightarrow> Inr (tr_ID t, m))) of
          Inl e \<Rightarrow> (Some e, r)
        | Inr (tid, m) \<Rightarrow>
          let r1 = sync h (r\<lparr>ru_mgr := m\<rparr>);
              r2 = set_reg (fst (Reg_Register tid (Some h) None (mg_CancelReg (ru_mgr r1)))) r1;
              (res, r3) = send_registered h etext dials wok d info tid r2;
              r4 = sync h r3
          in (res, set_reg (Reg_Complete tid (mg_CancelReg (ru_mgr r4))) r4))"

section \<open>The receive use case\<close>

record ReceiveConfig =
  rc_PeerID :: string
  rc_PeerName :: string
  rc_SaveDir :: string

text \<open>\<open>RPanic\<close> is the nil dereference after a refused \<open>Accept\<close>, which has overwritten \<open>inc\<close> with nil.\<close>

datatype ReceiveResult = RErrDial | RErrHeader HeaderError | RErrRegister ReceiveError | RPanic
  | RErrSave SaveError | ROk

text \<open>\<open>conn\<close> is the dialled connection (\<open>None\<close>: dialling failed); \<open>env 0\<close> are the other goroutines'
  operations between \<open>Register\<close> and \<open>Accept\<close>, \<open>env 1\<close> those after it. None: the header never ends.\<close>

definition receive_Execute ::
  "'s reader \<Rightarrow> (bytes \<Rightarrow> bool) \<Rightarrow> (int \<Rightarrow> int) \<Rightarrow> bool \<Rightarrow> (SaveError \<Rightarrow> string) \<Rightarrow> ReceiveConfig \<Rightarrow> string \<Rightarrow>
    int \<Rightarrow> (nat \<Rightarrow> rop list) \<Rightarrow> 's option \<Rightarrow> RManager \<Rightarrow>
    (ReceiveResult \<times> (string \<times> bytes) option \<times> RManager) option" where
  "receive_Execute rd wok clock created etext cfg uuid now env conn m = (case conn of
      None \<Rightarrow> Some (RErrDial, None, m)
    | Some s \<Rightarrow> (case ReadHeader rd s of
        None \<Rightarrow> None
      | Some (Inl e, s1) \<Rightarrow> Some (RErrHeader e, None, m)
      | Some (Inr (transferID, fileName, fileSize), s1) \<Rightarrow>
        (case Recv_Register uuid now (rc_PeerID cfg) (rc_PeerName cfg) fileName fileSize 0 m of
          Inl e \<Rightarrow> Some (RErrRegister e, None, m)
        | Inr (inc, m1) \<Rightarrow>
          let savePath = PathJoin (rc_SaveDir cfg) (Base fileName);
              m2 = rrun (env 0) m1 in
          (case Recv_Accept now (in_ID inc) savePath m2 of
            Inl e \<Rightarrow> Some (RPanic, None, m2)
          | Inr (inc, m3) \<Rightarrow>
            let m4 = rrun (env 1) m3;
                m5 = ok_or m4 (Recv_UpdateStatus now (in_ID inc) RReceiving [] m4) in
            map_option (\<lambda>(e, received, out, s2, m6). case e of
                Some e \<Rightarrow> (RErrSave e, Some (savePath, out),
                  ok_or m6 (Recv_UpdateStatus now (in_ID inc) RFailed (etext e) m6))
              | None \<Rightarrow>
                  let m7 = ok_or m6 (Recv_UpdateProgress now (in_ID inc) received m6)
                  in (ROk, Some (savePath, out),
                      ok_or m7 (Recv_UpdateStatus now (in_ID inc) RCompleted [] m7)))
              (SaveFile rd wok clock created fileSize (in_ID inc) s1 m5)))))"

section \<open>Runs beside other goroutines\<close>

lemma env_fold: "fst (fold (env_op h) xs md) = mgr_run xs (fst md)"
  by (induction xs arbitrary: md) (simp_all add: mgr_run_def env_op_def)

lemma sync_out [simp]: "ru_out (sync h r) = ru_out r"
  by (simp add: sync_def Let_def split: list.split)

lemma upd_out [simp]: "ru_out (upd_status h tid st msg r) = ru_out r" "ru_out (upd_progress h tid n r) = ru_out r"
  by (simp_all add: upd_status_def upd_progress_def Let_def)

lemma conn_write_out [simp]: "ru_out (conn_write bs r) = ru_out r @ [bs]"
  by (simp add: conn_write_def)

lemma set_reg_simps [simp]: "ru_out (set_reg g r) = ru_out r" "ru_turns (set_reg g r) = ru_turns r"
  "mg_transfers (ru_mgr (set_reg g r)) = mg_transfers (ru_mgr r)" "mgr_wf (ru_mgr (set_reg g r)) = mgr_wf (ru_mgr r)"
  by (simp_all add: set_reg_def)

text \<open>The transfer, if it is still there, has the status \<open>s\<close>.\<close>

definition kept :: "string \<Rightarrow> Status \<Rightarrow> Manager \<Rightarrow> bool" where
  "kept tid s m \<longleftrightarrow> mgr_wf m \<and> (case map_of (mg_transfers m) tid of None \<Rightarrow> True | Some t \<Rightarrow> tr_Status t = s)"

lemma kept_reg [simp]: "kept tid s (ru_mgr (set_reg g r)) = kept tid s (ru_mgr r)"
  by (simp add: kept_def)

lemma kept_run:
  assumes "kept tid s m" "IsTerminal (NewStateMachine s)" "Some tid \<notin> creates ` set xs"
  shows "kept tid s (mgr_run xs m)"
proof (cases "map_of (mg_transfers m) tid")
  case None
  with run_absent_entry [OF None assms(3)] assms(1) show ?thesis by (simp add: kept_def mgr_run_wf)
next
  case (Some t)
  with assms run_finished_entry [of m tid t xs] show ?thesis by (auto simp: kept_def mgr_run_wf)
qed

text \<open>No turn creates a transfer under the id; ids are fresh uuids.\<close>

definition calm :: "string \<Rightarrow> Run \<Rightarrow> bool" where
  "calm tid r \<longleftrightarrow> (\<forall>t \<in> set (ru_turns r). Some tid \<notin> creates ` set (tn_ops t))"

lemma kept_sync:
  assumes "kept tid s (ru_mgr r)" "IsTerminal (NewStateMachine s)" "calm tid r"
  shows "kept tid s (ru_mgr (sync h r)) \<and> calm tid (sync h r)"
  using assms by (auto simp: sync_def Let_def env_fold calm_def intro: kept_run split: list.split)

lemma calm_reg [simp]: "calm tid (set_reg g r) = calm tid r"
  by (simp add: calm_def)

lemma kept_refuses:
  assumes "kept tid s m" "IsTerminal (NewStateMachine s)" "s \<noteq> st"
  shows "\<exists>e. Manager_UpdateStatus tid st msg now m = Inl e"
proof (cases "map_of (mg_transfers m) tid")
  case (Some t)
  with assms(1) have "transfer_ok tid t" "tr_Status t = s" by (auto simp: kept_def dest: mgr_wf_lookup)
  with Some assms show ?thesis
    by (simp add: Manager_UpdateStatus_def transfer_ok_def Transition_New tsm.final_stuck)
qed (simp add: Manager_UpdateStatus_def)

lemma registered_kept:
  assumes k: "kept tid s (ru_mgr r)" "IsTerminal (NewStateMachine s)" "calm tid r" "s \<noteq> StatusConnecting"
  shows "\<exists>e r'. send_registered h etext dials wok d info tid r = (Some e, r') \<and> ru_out r' = ru_out r \<and>
    kept tid s (ru_mgr r') \<and> calm tid r'"
proof -
  note s = kept_sync [OF k(1-3), of h]
  from kept_refuses [OF conjunct1 [OF s] k(2,4)] obtain e where
    "Manager_UpdateStatus tid StatusConnecting [] (ru_now (sync h r)) (ru_mgr (sync h r)) = Inl e" by blast
  with s show ?thesis by (simp add: send_registered_def Let_def)
qed

section \<open>What is written\<close>

lemma stream_loop_out:
  "stream_loop h wok tid ferr k tot prev cs r = ((res, n), r') \<Longrightarrow>
    \<exists>ws. ru_out r' = ru_out r @ ws \<and> (res = None \<longrightarrow> ws = filter (\<lambda>c. c \<noteq> []) cs \<and> n = tot + int (length (concat cs)))"
proof (induction h wok tid ferr k tot prev cs r rule: stream_loop.induct)
  case (1 h wok tid ferr k tot prev r0)
  then show ?case by (auto simp: Let_def split: if_splits)
next
  case (2 h wok tid ferr k tot prev c cs r0)
  define r where "r = sync h r0"
  show ?case
  proof (cases "ru_done r \<or> (c \<noteq> [] \<and> \<not> wok k)")
    case True
    with 2(4) show ?thesis by (auto simp: Let_def r_def [symmetric] split: if_splits) (auto simp: r_def)
  next
    case False
    show ?thesis
    proof (cases "c = []")
      case True
      with False 2(4) have "stream_loop h wok tid ferr k tot prev cs r = ((res, n), r')"
        by (simp add: Let_def r_def)
      from 2(1) [OF r_def _ True this] False show ?thesis by (simp add: True r_def)
    next
      case c: False
      let ?t = "tot + int (length c)"
      have step: "(if progressInterval \<le> ?t - prev
           then stream_loop h wok tid ferr (k + 1) ?t ?t cs (upd_progress h tid ?t (conn_write c r))
           else stream_loop h wok tid ferr (k + 1) ?t prev cs (conn_write c r)) = ((res, n), r')"
        using 2(4) False c by (simp add: Let_def r_def split: if_splits)
      show ?thesis
      proof (cases "progressInterval \<le> ?t - prev")
        case True
        with step 2(2) [OF r_def _ c _ refl refl True] False c show ?thesis by (auto simp: r_def)
      next
        case nt: False
        with step 2(3) [OF r_def _ c _ refl refl nt] False c show ?thesis by (auto simp: r_def)
      qed
    qed
  qed
qed

lemma connected_out:
  assumes "send_connected h etext wok d info tid r = (None, r')"
  shows "\<exists>hdr. sendHeader tid (fst_Name info) (fst_Size info) = Some hdr \<and>
    ru_out r' = ru_out r @ hdr # filter (\<lambda>c. c \<noteq> []) (dk_chunks d)"
proof -
  obtain hdr where hdr: "sendHeader tid (fst_Name info) (fst_Size info) = Some hdr"
    using assms by (auto simp: send_connected_def Let_def split: option.splits)
  let ?r = "conn_write hdr (upd_status h tid StatusTransferring [] r)"
  obtain res n r1 where s: "streamFile h wok d tid ?r = ((res, n), r1)" by (metis prod.exhaust)
  with assms hdr have res: "res = None" and r': "ru_out r' = ru_out r1"
    by (auto simp: send_connected_def Let_def split: if_splits option.splits)
  from s res have "stream_loop h wok tid (dk_readErr d) 1 0 0 (dk_chunks d) ?r = ((None, n), r1)"
    by (auto simp: streamFile_def split: if_splits)
  from stream_loop_out [OF this] r' hdr show ?thesis by auto
qed

lemma registered_out:
  assumes "send_registered h etext dials wok d info tid r = (None, r')"
  shows "\<exists>hdr. sendHeader tid (fst_Name info) (fst_Size info) = Some hdr \<and>
    ru_out r' = ru_out r @ hdr # filter (\<lambda>c. c \<noteq> []) (dk_chunks d)"
  using assms by (auto simp: send_registered_def Let_def dest!: connected_out split: sum.splits if_splits)

section \<open>A run on its own\<close>

text \<open>The state of a run nobody interferes with: the transfer has status \<open>s\<close>.\<close>

definition alone :: "string \<Rightarrow> Status \<Rightarrow> Run \<Rightarrow> bool" where
  "alone tid s r \<longleftrightarrow> ru_turns r = [] \<and> \<not> ru_done r \<and> mgr_wf (ru_mgr r) \<and>
    (\<exists>t. map_of (mg_transfers (ru_mgr r)) tid = Some t \<and> tr_Status t = s)"

lemma sync_alone: "alone tid s r \<Longrightarrow> sync h r = r"
  by (simp add: alone_def sync_def)

lemma alone_not_done: "alone tid s r \<Longrightarrow> \<not> ru_done r"
  by (simp add: alone_def)

lemma alone_write [simp]: "alone tid s (conn_write bs r) = alone tid s r"
  by (simp add: alone_def conn_write_def)

lemma alone_reg [simp]: "alone tid s (set_reg g r) = alone tid s r"
  by (simp add: alone_def set_reg_def)

lemma UpdateStatus_moves:
  assumes "mgr_wf m" "map_of (mg_transfers m) tid = Some t" "allowed_step (tr_Status t) st"
  shows "\<exists>t' m'. Manager_UpdateStatus tid st msg now m = Inr (t', m') \<and> mgr_wf m' \<and>
    map_of (mg_transfers m') tid = Some t' \<and> tr_Status t' = st \<and> tr_SentBytes t' = tr_SentBytes t"
proof -
  have "transfer_ok tid t" using assms(1,2) by (rule mgr_wf_lookup)
  with assms have "\<exists>t' m'. Manager_UpdateStatus tid st msg now m = Inr (t', m') \<and> tr_Status t' = st \<and>
      tr_SentBytes t' = tr_SentBytes t"
    by (auto simp: Manager_UpdateStatus_def transfer_ok_def Transition_New Let_def)
  then obtain t' m' where t': "Manager_UpdateStatus tid st msg now m = Inr (t', m')" "tr_Status t' = st"
    "tr_SentBytes t' = tr_SentBytes t" by blast
  from UpdateStatus_ok [OF assms(1) t'(1)] have
    "transfer_ok tid t'" "m' = m\<lparr>mg_transfers := gput tid t' (mg_transfers m)\<rparr>" by auto
  with t' assms(1) show ?thesis by (simp add: mgr_wf_store map_of_gput)
qed

lemma alone_status:
  assumes "alone tid s r" "allowed_step s st"
  shows "alone tid st (upd_status h tid st msg r)"
proof -
  from assms obtain t where t: "map_of (mg_transfers (ru_mgr r)) tid = Some t" "tr_Status t = s" "mgr_wf (ru_mgr r)"
    by (auto simp: alone_def)
  from UpdateStatus_moves [OF t(3,1), of st msg "ru_now r"] t(2) assms(2) obtain t' m' where
    "Manager_UpdateStatus tid st msg (ru_now r) (ru_mgr r) = Inr (t', m')" "mgr_wf m'"
    "map_of (mg_transfers m') tid = Some t'" "tr_Status t' = st" by auto
  with assms(1) show ?thesis
    by (simp add: upd_status_def sync_alone [OF assms(1)] Let_def ok_or_def) (simp add: alone_def)
qed

lemma alone_progress:
  assumes "alone tid s r"
  shows "alone tid s (upd_progress h tid n r)"
proof -
  from assms obtain t where t: "map_of (mg_transfers (ru_mgr r)) tid = Some t" "tr_Status t = s" "mgr_wf (ru_mgr r)"
    by (auto simp: alone_def)
  then have "transfer_ok tid (t\<lparr>tr_SentBytes := n, tr_UpdatedAt := ru_now r\<rparr>)"
    using mgr_wf_lookup [OF t(3,1)] by (simp add: transfer_ok_def)
  with assms t show ?thesis
    by (simp add: upd_progress_def sync_alone [OF assms] ok_or_def Manager_UpdateProgress_def Let_def)
      (simp add: alone_def mgr_wf_store map_of_gput)
qed

lemma nth_writes: "(\<forall>j<Suc n. P (k + j)) \<longleftrightarrow> P k \<and> (\<forall>j<n. P (Suc k + j))" for k n :: nat
  by (auto simp: less_Suc_eq_0_disj)

lemma stream_loop_alone:
  assumes "alone tid s r" "stream_loop h wok tid ferr k tot prev cs r = ((res, n), r')"
  shows "alone tid s r' \<and> (res = None \<longleftrightarrow> \<not> ferr \<and> (\<forall>j < length (filter (\<lambda>c. c \<noteq> []) cs). wok (k + j))) \<and>
    res \<noteq> Some SErrCancelled"
  using assms
proof (induction cs arbitrary: k tot prev r)
  case Nil
  then show ?case by (auto simp: Let_def sync_alone alone_not_done split: if_splits)
next
  case (Cons c cs)
  note a = Cons.prems(1)
  then have nd: "sync h r = r" "\<not> ru_done r" by (simp_all add: sync_alone alone_not_done)
  show ?case
  proof (cases "c = [] \<or> \<not> wok k")
    case True
    with Cons nd show ?thesis by (auto simp: Let_def split: if_splits dest!: spec [of _ 0])
  next
    case False
    define prev' where "prev' = (if progressInterval \<le> tot + int (length c) - prev then tot + int (length c) else prev)"
    define r2 where "r2 = (if progressInterval \<le> tot + int (length c) - prev
      then upd_progress h tid (tot + int (length c)) (conn_write c r) else conn_write c r)"
    have "alone tid s r2" using a by (simp add: r2_def alone_progress)
    moreover have "stream_loop h wok tid ferr (Suc k) (tot + int (length c)) prev' cs r2 = ((res, n), r')"
      using Cons.prems(2) False nd by (simp add: Let_def r2_def prev'_def split: if_splits)
    ultimately show ?thesis using Cons.IH [of r2 "Suc k"] False by (simp add: nth_writes)
  qed
qed

definition deliverable :: "(nat \<Rightarrow> bool) \<Rightarrow> Disk \<Rightarrow> FileStat \<Rightarrow> bool" where
  "deliverable wok d info \<longleftrightarrow> LF \<notin> set (fst_Name info) \<and> CHR 0x0D \<notin> set (fst_Name info) \<and> dk_opens d \<and>
     \<not> dk_readErr d \<and> (\<forall>j \<le> length (filter (\<lambda>c. c \<noteq> []) (dk_chunks d)). wok j)"

lemma connected_alone:
  assumes a: "alone tid StatusConnecting r" and s: "send_connected h etext wok d info tid r = (res, r')"
  shows "alone tid (if res = None then StatusCompleted else StatusFailed) r' \<and>
    (res = None \<longleftrightarrow> deliverable wok d info)"
proof -
  define r1 where "r1 = upd_status h tid StatusTransferring [] r"
  have a1: "alone tid StatusTransferring r1" unfolding r1_def using a by (rule alone_status) (simp add: allowed_step_iff)
  have fails: "alone tid StatusFailed (upd_status h tid StatusFailed msg q)"
    if "alone tid StatusTransferring q" for q msg using that by (rule alone_status) (simp add: allowed_step_iff)
  have wok: "(\<forall>j \<le> n. wok j) \<longleftrightarrow> wok 0 \<and> (\<forall>j < n. wok (Suc 0 + j))" for n
    using nth_writes [of n wok 0] by (simp add: less_Suc_eq_le)
  show ?thesis
  proof (cases "sendHeader tid (fst_Name info) (fst_Size info)")
    case None
    with s fails [OF a1] show ?thesis
      by (auto simp: send_connected_def r1_def [symmetric] Let_def deliverable_def sendHeader_def split: if_splits)
  next
    case (Some hdr)
    then have nm: "LF \<notin> set (fst_Name info)" "CHR 0x0D \<notin> set (fst_Name info)"
      by (auto simp: sendHeader_def split: if_splits)
    show ?thesis
    proof (cases "wok 0")
      case False
      with s Some fails [OF a1] show ?thesis
        by (auto simp: send_connected_def r1_def [symmetric] Let_def deliverable_def)
    next
      case w0: True
      obtain e n q where q: "streamFile h wok d tid (conn_write hdr r1) = ((e, n), q)" by (metis prod.exhaust)
      have "alone tid StatusTransferring q \<and> (e = None \<longleftrightarrow> deliverable wok d info)"
      proof (cases "dk_opens d")
        case True
        with q have "stream_loop h wok tid (dk_readErr d) 1 0 0 (dk_chunks d) (conn_write hdr r1) = ((e, n), q)"
          by (simp add: streamFile_def)
        from stream_loop_alone [OF _ this, of StatusTransferring] a1 show ?thesis
          using nm w0 True by (simp add: deliverable_def wok)
      next
        case False
        with q a1 show ?thesis by (auto simp: streamFile_def deliverable_def)
      qed
      moreover from this have "sync h q = q" "\<not> ru_done q" using sync_alone alone_not_done by blast+
      moreover have "alone tid StatusCompleted (upd_status h tid StatusCompleted [] (upd_progress h tid n q))"
        if "alone tid StatusTransferring q"
        by (rule alone_status [OF alone_progress [OF that]]) (simp add: allowed_step_iff)
      ultimately show ?thesis
        using s Some w0 q fails [of q] by (auto simp: send_connected_def r1_def [symmetric] Let_def split: option.splits)
    qed
  qed
qed

lemma sync_wf: "mgr_wf (ru_mgr r) \<Longrightarrow> mgr_wf (ru_mgr (sync h r))"
  by (auto simp: sync_def Let_def env_fold mgr_run_wf split: list.split)

definition used_id :: "string \<Rightarrow> SendConfig \<Rightarrow> string" where
  "used_id uid cfg = (if sc_TransferID cfg = [] then uid else sc_TransferID cfg)"

lemma send_ok_out:
  assumes "mgr_wf (ru_mgr r)" "send_Execute h uid etext cfg d dials wok r = (None, r')"
  shows "\<exists>info hdr. dk_stat d = Some info \<and>
    sendHeader (used_id uid cfg) (fst_Name info) (fst_Size info) = Some hdr \<and>
    ru_out r' = ru_out r @ hdr # filter (\<lambda>c. c \<noteq> []) (dk_chunks d)"
proof -
  have out: "\<exists>hdr. sendHeader tid (fst_Name info) (fst_Size info) = Some hdr \<and>
      ru_out r'' = ru_out q @ hdr # filter (\<lambda>c. c \<noteq> []) (dk_chunks d)"
    if "send_registered h etext dials wok d info tid (set_reg g (sync h q)) = (None, r'')" for info tid g q r''
    using registered_out [OF that] by simp
  have get: "tr_ID t = tid" if "map_of (mg_transfers (ru_mgr (sync h r))) tid = Some t" for tid t
    using mgr_wf_lookup [OF sync_wf [OF assms(1)] that] by (simp add: transfer_ok_def)
  from assms(2) show ?thesis
    by (auto simp: send_Execute_def Let_def Manager_Create_def Manager_Get_def used_id_def newTransfer_def
        split: option.splits if_splits sum.splits prod.splits dest!: out get)
qed

lemma send_alone:
  assumes "mgr_wf (ru_mgr r)" "ru_turns r = []" "\<not> ru_done r" "sc_TransferID cfg \<noteq> []"
    "map_of (mg_transfers (ru_mgr r)) (sc_TransferID cfg) = Some t" "tr_Status t = StatusPending"
    "dk_stat d = Some info" "\<not> fst_IsDir info"
    "send_Execute h uid etext cfg d dials wok r = (res, r')"
  shows "(res = None \<longleftrightarrow> dials \<and> deliverable wok d info) \<and>
    map_of (mg_CancelReg (ru_mgr r')) (sc_TransferID cfg) = None \<and>
    (\<exists>t'. map_of (mg_transfers (ru_mgr r')) (sc_TransferID cfg) = Some t' \<and>
       tr_Status t' = (if res = None then StatusCompleted else StatusFailed))"
proof -
  let ?tid = "sc_TransferID cfg"
  have a: "alone ?tid StatusPending r" using assms by (simp add: alone_def)
  have tid: "tr_ID t = ?tid" using mgr_wf_lookup [OF assms(1,5)] by (simp add: transfer_ok_def)
  define q where "q = set_reg (fst (Reg_Register ?tid (Some h) None (mg_CancelReg (ru_mgr r)))) r"
  have aq: "alone ?tid StatusPending q" using a by (simp add: q_def)
  obtain q' where q': "send_registered h etext dials wok d info ?tid q = (res, q')"
    and r': "r' = set_reg (Reg_Complete ?tid (mg_CancelReg (ru_mgr (sync h q')))) (sync h q')"
    using assms(4,5,7-9) tid
    by (auto simp: send_Execute_def Let_def sync_alone [OF a] Manager_Get_def q_def split: prod.splits)
  from aq obtain u where u: "map_of (mg_transfers (ru_mgr q)) ?tid = Some u" "tr_Status u = StatusPending"
    "mgr_wf (ru_mgr q)" by (auto simp: alone_def)
  from UpdateStatus_moves [OF u(3,1), of StatusConnecting "[]" "ru_now q"] u(2) obtain u' m where
    m: "Manager_UpdateStatus ?tid StatusConnecting [] (ru_now q) (ru_mgr q) = Inr (u', m)" "mgr_wf m"
      "map_of (mg_transfers m) ?tid = Some u'" "tr_Status u' = StatusConnecting" by (auto simp: allowed_step_iff)
  have ac: "alone ?tid StatusConnecting (q\<lparr>ru_mgr := m\<rparr>)" using m aq by (simp add: alone_def)
  have af: "alone ?tid StatusFailed (upd_status h ?tid StatusFailed PeerNotRespondingMsg (q\<lparr>ru_mgr := m\<rparr>))"
    using ac by (rule alone_status) (simp add: allowed_step_iff)
  have fin: "alone ?tid (if res = None then StatusCompleted else StatusFailed) q' \<and>
      (res = None \<longleftrightarrow> dials \<and> deliverable wok d info)"
  proof (cases dials)
    case True
    with q' m(1) have "send_connected h etext wok d info ?tid (q\<lparr>ru_mgr := m\<rparr>) = (res, q')"
      by (simp add: send_registered_def sync_alone [OF aq])
    from connected_alone [OF ac this] True show ?thesis by auto
  next
    case False
    with q' m(1) af alone_not_done [OF ac] show ?thesis
      by (auto simp: send_registered_def sync_alone [OF aq] sync_alone [OF ac] Let_def)
  qed
  then have "sync h q' = q'" by (auto simp: sync_alone)
  with fin r' show ?thesis by (auto simp: alone_def set_reg_def Reg_Complete_def map_of_gdel)
qed

section \<open>Properties\<close>

text \<open>What a successful send has written, whatever the other goroutines did meanwhile: exactly one
  header with the transfer's id, the file's name and its size, and then every chunk the file
  reader yielded, in order, one write each, with nothing left out and nothing after them.\<close>

theorem send_writes_the_file:
  assumes "mgr_wf (ru_mgr r)" "send_Execute h uid etext cfg d dials wok r = (None, r')"
  shows "\<exists>info hdr. dk_stat d = Some info \<and>
    sendHeader (used_id uid cfg) (fst_Name info) (fst_Size info) = Some hdr \<and>
    ru_out r' = ru_out r @ hdr # filter (\<lambda>c. c \<noteq> []) (dk_chunks d)"
  using assms by (rule send_ok_out)


text \<open>The outcome of a send of a pending transfer that nobody interferes with: it succeeds exactly when
  the peer answers, the file's name has no line break, the file opens and reads to its end and every
  write succeeds; the transfer ends completed then and failed otherwise, and is no longer registered
  for cancellation.\<close>

theorem send_outcome:
  assumes "mgr_wf (ru_mgr r)" "ru_turns r = []" "\<not> ru_done r" "sc_TransferID cfg \<noteq> []"
    "map_of (mg_transfers (ru_mgr r)) (sc_TransferID cfg) = Some t" "tr_Status t = StatusPending"
    "dk_stat d = Some info" "\<not> fst_IsDir info"
    "send_Execute h uid etext cfg d dials wok r = (res, r')"
  shows "(res = None \<longleftrightarrow> dials \<and> deliverable wok d info) \<and>
    map_of (mg_CancelReg (ru_mgr r')) (sc_TransferID cfg) = None \<and>
    (\<exists>t'. map_of (mg_transfers (ru_mgr r')) (sc_TransferID cfg) = Some t' \<and>
       tr_Status t' = (if res = None then StatusCompleted else StatusFailed))"
  using assms by (rule send_alone)

text \<open>A transfer that is already cancelled (or completed) when its background send starts is never
  dialled: the send reports an error, writes nothing, and the transfer keeps its status or has been
  removed, whatever the other goroutines do.\<close>

theorem cancelled_send_writes_nothing:
  assumes "mgr_wf (ru_mgr r)" "sc_TransferID cfg \<noteq> []" "calm (sc_TransferID cfg) r"
    "map_of (mg_transfers (ru_mgr r)) (sc_TransferID cfg) = Some t" "IsTerminal (NewStateMachine (tr_Status t))"
  shows "\<exists>e r'. send_Execute h uid etext cfg d dials wok r = (Some e, r') \<and> ru_out r' = ru_out r \<and>
    kept (sc_TransferID cfg) (tr_Status t) (ru_mgr r')"
proof (cases "\<exists>info. dk_stat d = Some info \<and> \<not> fst_IsDir info")
  case False
  with assms(1,4) show ?thesis by (auto simp: send_Execute_def kept_def split: option.split)
next
  case True
  then obtain info where info: "dk_stat d = Some info" "\<not> fst_IsDir info" by blast
  let ?tid = "sc_TransferID cfg" and ?s = "tr_Status t" and ?r = "sync h r"
  have k: "kept ?tid ?s (ru_mgr r)" using assms(1,4) by (simp add: kept_def)
  note kr = kept_sync [OF k assms(5,3), of h]
  show ?thesis
  proof (cases "map_of (mg_transfers (ru_mgr ?r)) ?tid")
    case None
    with info assms(2) kr show ?thesis by (simp add: send_Execute_def Let_def Manager_Get_def)
  next
    case (Some u)
    have tid: "tr_ID u = ?tid" using kr Some by (auto simp: kept_def transfer_ok_def dest: mgr_wf_lookup)
    let ?q = "set_reg (fst (Reg_Register ?tid (Some h) None (mg_CancelReg (ru_mgr (sync h ?r))))) (sync h ?r)"
    have "kept ?tid ?s (ru_mgr ?q)" "calm ?tid ?q" using kept_sync [of ?tid ?s ?r h] kr assms(5) by auto
    then obtain e q' where q': "send_registered h etext dials wok d info ?tid ?q = (Some e, q')"
      "ru_out q' = ru_out ?q" "kept ?tid ?s (ru_mgr q')" "calm ?tid q'"
      using registered_kept [of ?tid ?s ?q h etext dials wok d info] assms(5) by (auto simp: IsTerminal_New)
    then show ?thesis
      using info assms(2,5) Some tid kept_sync [of ?tid ?s q' h] by (simp add: send_Execute_def Let_def Manager_Get_def)
  qed
qed

text \<open>The receive use case dies of a nil dereference exactly when \<open>Accept\<close> refuses, that is when the
  incoming it has just registered is gone or no longer waiting; and over an encrypted connection it
  never succeeds.\<close>

theorem receive_usecase_outcome:
  assumes "receive_Execute (ec_reader dec) wok clock created etext cfg uuid now env conn m = Some (res, f, m')"
  shows "res \<noteq> ROk \<and> (res = RPanic \<longleftrightarrow> (\<exists>ec tid fn sz ec' inc m1.
      conn = Some ec \<and> ReadHeader (ec_reader dec) ec = Some (Inr (tid, fn, sz), ec') \<and>
      Recv_Register uuid now (rc_PeerID cfg) (rc_PeerName cfg) fn sz 0 m = Inr (inc, m1) \<and>
      status_of uuid (rrun (env 0) m1) \<notin> {Some RPending, Some RPrompting}))"
proof -
  have acc: "(\<exists>e. Recv_Accept now i sp m2 = Inl e) \<longleftrightarrow> status_of i m2 \<notin> {Some RPending, Some RPrompting}"
    for i sp m2
    by (auto simp: Recv_Accept_def status_of_def Let_def split: option.split)
  have reg: "in_ID inc = uuid" if "Recv_Register uuid now p pn fn sz ex m = Inr (inc, m1)" for p pn fn sz ex inc m1
    using that by (auto simp: Recv_Register_def newIncoming_def Let_def split: if_splits)
  show ?thesis
  proof (cases "\<exists>ec tid fn sz ec' inc m1. conn = Some ec \<and>
      ReadHeader (ec_reader dec) ec = Some (Inr (tid, fn, sz), ec') \<and>
      Recv_Register uuid now (rc_PeerID cfg) (rc_PeerName cfg) fn sz 0 m = Inr (inc, m1)")
    case False
    with assms show ?thesis
      by (auto simp: receive_Execute_def split: option.splits sum.splits prod.splits)
  next
    case True
    then obtain ec tid fn sz ec' inc m1 where hd: "conn = Some ec"
      "ReadHeader (ec_reader dec) ec = Some (Inr (tid, fn, sz), ec')"
      "Recv_Register uuid now (rc_PeerID cfg) (rc_PeerName cfg) fn sz 0 m = Inr (inc, m1)" by blast
    let ?sp = "PathJoin (rc_SaveDir cfg) (Base fn)"
    show ?thesis
    proof (cases "Recv_Accept now uuid ?sp (rrun (env 0) m1)")
      case (Inl e)
      then have "status_of uuid (rrun (env 0) m1) \<notin> {Some RPending, Some RPrompting}"
        using acc [of uuid ?sp "rrun (env 0) m1"] by simp
      with Inl assms hd reg [OF hd(3)] show ?thesis by (simp add: receive_Execute_def Let_def)
    next
      case (Inr x)
      obtain inc2 m3 where x: "x = (inc2, m3)" by (cases x)
      let ?m4 = "rrun (env 1) m3"
      let ?m5 = "ok_or ?m4 (Recv_UpdateStatus now (in_ID inc2) RReceiving [] ?m4)"
      from save_encrypted [of dec wok clock created sz "in_ID inc2" ec' ?m5] obtain e where
        "\<exists>tot out ec2 m6. SaveFile (ec_reader dec) wok clock created sz (in_ID inc2) ec' ?m5 =
           Some (Some e, tot, out, ec2, m6)" by blast
      with Inr x assms hd reg [OF hd(3)] have "res = RErrSave e"
        by (auto simp: receive_Execute_def Let_def)
      moreover have "status_of uuid (rrun (env 0) m1) \<in> {Some RPending, Some RPrompting}"
        using acc [of uuid ?sp "rrun (env 0) m1"] Inr by auto
      ultimately show ?thesis using hd by auto
    qed
  qed
qed

section \<open>Witnesses\<close>

definition demo_mgr :: Manager where
  "demo_mgr = mgr_run [OpCreate ''id'' 1 ''p'' ''peer'' ''/f.txt'' ''f.txt'' 2] (NewManager 1)"

definition demo_run :: Run where
  "demo_run = \<lparr>ru_mgr = demo_mgr, ru_done = False, ru_now = 5, ru_turns = [], ru_out = []\<rparr>"

definition demo_disk :: Disk where
  "demo_disk = \<lparr>dk_stat = Some \<lparr>fst_IsDir = False, fst_Name = ''f.txt'', fst_Size = 2\<rparr>, dk_opens = True,
     dk_chunks = [[7], [8]], dk_readErr = False\<rparr>"

abbreviation demo_info :: FileStat where
  "demo_info \<equiv> \<lparr>fst_IsDir = False, fst_Name = ''f.txt'', fst_Size = 2\<rparr>"

definition demo_cfg :: SendConfig where
  "demo_cfg = \<lparr>sc_PeerID = ''p'', sc_PeerName = ''peer'', sc_FilePath = ''/f.txt'', sc_TransferID = ''id''\<rparr>"

abbreviation demo_send :: "Run \<Rightarrow> SendError option \<times> Run" where
  "demo_send \<equiv> send_Execute 7 ''u'' (\<lambda>e. ''error'') demo_cfg demo_disk True (\<lambda>k. True)"

lemma demo_wf: "mgr_wf demo_mgr"
  unfolding demo_mgr_def by (rule mgr_run_wf) simp

lemma demo_entry: "map_of (mg_transfers demo_mgr) ''id'' =
    Some (newTransfer ''id'' 1 ''p'' ''peer'' ''/f.txt'' ''f.txt'' 2)"
  by (simp add: demo_mgr_def mgr_eval)

lemma demo_sel: "ru_mgr demo_run = demo_mgr" "ru_turns demo_run = []" "\<not> ru_done demo_run" "ru_out demo_run = []"
  "sc_TransferID demo_cfg = ''id''" "dk_stat demo_disk = Some demo_info" "dk_chunks demo_disk = [[7], [8]]"
  "used_id ''u'' demo_cfg = ''id''"
  by (simp_all add: demo_run_def demo_cfg_def demo_disk_def used_id_def)

lemma demo_deliverable: "deliverable (\<lambda>k. True) demo_disk demo_info"
  by (simp add: deliverable_def demo_disk_def LF_def)

lemma demo_sent: "demo_send demo_run = (None, snd (demo_send demo_run))"
  using send_alone [OF _ _ _ _ _ _ _ _ prod.collapse [symmetric], of demo_run demo_cfg
      "newTransfer ''id'' 1 ''p'' ''peer'' ''/f.txt'' ''f.txt'' 2" demo_disk demo_info 7 "''u''"
      "\<lambda>e. ''error''" True "\<lambda>k. True"] demo_deliverable
  by (simp add: demo_sel demo_wf demo_entry prod_eq_iff)

lemma demo_out: "ru_out (snd (demo_send demo_run)) = [demo_hdr, [7], [8]]"
  using send_ok_out [OF _ demo_sent] demo_wf demo_hdr(1) by (auto simp: demo_sel)

theorem send_writes_the_file_witness: "ru_out (snd (demo_send demo_run)) = [demo_hdr, [7], [8]]"
  using send_writes_the_file [OF _ demo_sent] demo_wf demo_hdr(1) by (auto simp: demo_sel)


theorem send_outcome_witness:
  "fst (demo_send demo_run) = None \<and>
    (\<exists>t. map_of (mg_transfers (ru_mgr (snd (demo_send demo_run)))) ''id'' = Some t \<and> tr_Status t = StatusCompleted)"
  using send_outcome [OF _ _ _ _ _ _ _ _ demo_sent, of "newTransfer ''id'' 1 ''p'' ''peer'' ''/f.txt'' ''f.txt'' 2"
      demo_info] demo_deliverable demo_sent
  by (simp add: demo_sel demo_wf demo_entry prod_eq_iff)

theorem cancelled_send_writes_nothing_witness:
  "\<exists>e r'. demo_send (demo_run\<lparr>ru_mgr := mgr_step (OpCancel ''id'' 3) demo_mgr\<rparr>) = (Some e, r') \<and> ru_out r' = []"
proof -
  have wf: "mgr_wf (mgr_step (OpCancel ''id'' 3) demo_mgr)" using demo_wf by (rule mgr_step_wf)
  obtain t where t: "map_of (mg_transfers (mgr_step (OpCancel ''id'' 3) demo_mgr)) ''id'' = Some t"
    "tr_Status t = StatusCancelled"
    by (simp add: demo_mgr_def mgr_eval)
  show ?thesis
    using cancelled_send_writes_nothing [of "demo_run\<lparr>ru_mgr := mgr_step (OpCancel ''id'' 3) demo_mgr\<rparr>"
        demo_cfg t 7 "''u''" "\<lambda>e. ''error''" demo_disk True "\<lambda>k. True"] wf t
    by (auto simp: demo_run_def demo_cfg_def calm_def IsTerminal_New)
qed

definition demo_rcfg :: ReceiveConfig where
  "demo_rcfg = \<lparr>rc_PeerID = ''p'', rc_PeerName = ''peer'', rc_SaveDir = ''/in''\<rparr>"

theorem receive_usecase_outcome_witness:
  "map_option fst (receive_Execute (ec_reader id_dec) (\<lambda>x. True) (\<lambda>t. 0) True (\<lambda>e. ''error'') demo_rcfg ''a'' 0
      (\<lambda>k. [OReject 1 ''a'']) (Some (demo_in (writeFrame demo_hdr @ writeFrame [7, 8]))) (NewRManager 0)) = Some RPanic"
proof -
  let ?env = "\<lambda>k :: nat. [OReject 1 ''a'']" and ?ec = "demo_in (writeFrame demo_hdr @ writeFrame [7, 8])"
  let ?reg = "Recv_Register ''a'' 0 ''p'' ''peer'' ''f.txt'' 2 0 (NewRManager 0)"
  obtain inc m1 where reg: "?reg = Inr (inc, m1)" "status_of ''a'' (rrun (?env 0) m1) = Some RRejected" "in_ID inc = ''a''"
    by (simp add: rrun_eval newIncoming_def)
  let ?sp = "PathJoin ''/in'' (Base ''f.txt'')"
  obtain e where e: "Recv_Accept 0 ''a'' ?sp (rrun [OReject 1 ''a''] m1) = Inl e"
    using reg(2) by (auto simp: Recv_Accept_def status_of_def split: option.split)
  have r: "receive_Execute (ec_reader id_dec) (\<lambda>x. True) (\<lambda>t. 0) True (\<lambda>e. ''error'') demo_rcfg
      ''a'' 0 ?env (Some ?ec) (NewRManager 0) = Some (RPanic, None, rrun [OReject 1 ''a''] m1)"
    by (simp only: receive_Execute_def option.case demo_header_read prod.case sum.case demo_rcfg_def
        ReceiveConfig.select_convs reg(1,3) Let_def e)
  have "\<exists>ec tid fn sz ec' inc m1. Some ?ec = Some ec \<and> ReadHeader (ec_reader id_dec) ec = Some (Inr (tid, fn, sz), ec') \<and>
      Recv_Register ''a'' 0 (rc_PeerID demo_rcfg) (rc_PeerName demo_rcfg) fn sz 0 (NewRManager 0) = Inr (inc, m1) \<and>
      status_of ''a'' (rrun (?env 0) m1) \<notin> {Some RPending, Some RPrompting}"
    using reg demo_header_read by (auto simp: demo_rcfg_def)
  with receive_usecase_outcome [OF r] r show ?thesis by simp
qed

end
