(* ===== verification/GoNet.thy ===== *)
theory GoNet
  imports GoText
begin

text \<open>
  What the program uses of Go's packages \<open>net\<close>, \<open>net/url\<close> and \<open>encoding/base64\<close>, as their sources
  define it: splitting and joining host and port, IP addresses (\<open>net.IP\<close> is a byte slice of 4 or 16
  bytes) with parsing and printing, the classification of addresses, query escaping and raw URL
  base64.
\<close>

section \<open>Host and port\<close>

definition colon :: char where
  "colon = CHR '':''"

text \<open>The part after the last colon, and the part before it.\<close>

definition last_colon :: "string \<Rightarrow> (string \<times> string) option" where
  "last_colon s = (if colon \<notin> set s then None
     else Some (rev (tl (dropWhile (\<lambda>c. c \<noteq> colon) (rev s))), rev (takeWhile (\<lambda>c. c \<noteq> colon) (rev s))))"

definition SplitHostPort :: "string \<Rightarrow> (string \<times> string) option" where
  "SplitHostPort s = (case last_colon s of
      None \<Rightarrow> None
    | Some (h, p) \<Rightarrow>
        if HasPrefix s ''['' then
          (case Cut (CHR '']'') s of
             None \<Rightarrow> None
           | Some (b, a) \<Rightarrow>
               if a \<noteq> colon # p then None
               else if CHR ''['' \<in> set (tl b) \<union> set p \<or> CHR '']'' \<in> set p then None
               else Some (tl b, p))
        else if colon \<in> set h \<or> CHR ''['' \<in> set s \<or> CHR '']'' \<in> set s then None
        else Some (h, p))"

definition JoinHostPort :: "string \<Rightarrow> string \<Rightarrow> string" where
  "JoinHostPort host port =
    (if colon \<in> set host then ''['' @ host @ '']:'' @ port else host @ colon # port)"

lemma last_colon_append: "colon \<notin> set p \<Longrightarrow> last_colon (h @ colon # p) = Some (h, p)"
proof -
  assume p: "colon \<notin> set p"
  then have "takeWhile (\<lambda>c. c \<noteq> colon) (rev p @ colon # rev h) = rev p"
    "dropWhile (\<lambda>c. c \<noteq> colon) (rev p @ colon # rev h) = colon # rev h"
    by (subst takeWhile_append2 dropWhile_append2, auto)+
  then show ?thesis by (simp add: last_colon_def)
qed

text \<open>Splitting undoes joining, for a host and a port without brackets and a port without a colon.\<close>

lemma Split_JoinHostPort:
  assumes "CHR ''['' \<notin> set host \<union> set port" "CHR '']'' \<notin> set host \<union> set port" "colon \<notin> set port"
  shows "SplitHostPort (JoinHostPort host port) = Some (host, port)"
proof (cases "colon \<in> set host")
  case True
  have "last_colon ((''['' @ host @ '']'') @ colon # port) = Some (''['' @ host @ '']'', port)"
    by (rule last_colon_append) (use assms in simp)
  moreover have "Cut (CHR '']'') ((''['' @ host) @ CHR '']'' # colon # port) = Some (''['' @ host, colon # port)"
    by (rule Cut_Some) (use assms in simp)
  moreover have "JoinHostPort host port = ''['' @ host @ '']'' @ colon # port"
    using True by (simp add: JoinHostPort_def colon_def)
  ultimately show ?thesis using assms by (simp add: SplitHostPort_def)
next
  case False
  have "last_colon (host @ colon # port) = Some (host, port)" using assms(3) by (rule last_colon_append)
  moreover have "\<not> HasPrefix (host @ colon # port) ''[''"
    using assms(1) by (cases host) (auto simp: HasPrefix_iff colon_def)
  ultimately show ?thesis using assms False by (simp add: SplitHostPort_def JoinHostPort_def colon_def)
qed

section \<open>Raw URL base64\<close>

definition b64_char :: "nat \<Rightarrow> char" where
  "b64_char n = (if n < 26 then char_of (65 + n) else if n < 52 then char_of (97 + (n - 26))
     else if n < 62 then char_of (48 + (n - 52)) else if n = 62 then CHR ''-'' else CHR ''_'')"

fun RawURLEncode :: "bytes \<Rightarrow> string" where
  "RawURLEncode [] = []"
| "RawURLEncode [a] = [b64_char (unat a div 4), b64_char (unat a mod 4 * 16)]"
| "RawURLEncode [a, b] = [b64_char (unat a div 4), b64_char (unat a mod 4 * 16 + unat b div 16),
     b64_char (unat b mod 16 * 4)]"
| "RawURLEncode (a # b # c # bs) = b64_char (unat a div 4) # b64_char (unat a mod 4 * 16 + unat b div 16) #
     b64_char (unat b mod 16 * 4 + unat c div 64) # b64_char (unat c mod 64) # RawURLEncode bs"

definition url_safe :: "char \<Rightarrow> bool" where
  "url_safe c \<longleftrightarrow> (CHR ''A'' \<le> c \<and> c \<le> CHR ''Z'') \<or> (CHR ''a'' \<le> c \<and> c \<le> CHR ''z'') \<or>
     (CHR ''0'' \<le> c \<and> c \<le> CHR ''9'') \<or> c = CHR ''-'' \<or> c = CHR ''_''"

lemma b64_char_safe:
  assumes "n < 64"
  shows "url_safe (b64_char n)"
proof -
  consider "n < 26" | "26 \<le> n" "n < 52" | "52 \<le> n" "n < 62" | "n = 62" | "n = 63" using assms by linarith
  then show ?thesis by cases (auto simp: b64_char_def url_safe_def less_eq_char_def)
qed

lemma byte_lt: "unat (a :: 8 word) < 256"
  using unsigned_less [of a] by simp

lemma RawURLEncode_safe: "c \<in> set (RawURLEncode bs) \<Longrightarrow> url_safe c"
proof (induction bs rule: RawURLEncode.induct)
  case (2 a)
  have "unat a div 4 < 64" using byte_lt [of a] by auto
  moreover have "unat a mod 4 * 16 < 64" by (simp add: less_mult_imp_div_less)
  ultimately show ?case using 2 by (auto intro: b64_char_safe)
next
  case (3 a b)
  have "unat a div 4 < 64" using byte_lt [of a] by auto
  moreover have "unat a mod 4 * 16 + unat b div 16 < 64"
  proof -
    have "unat a mod 4 \<le> 3" "unat b div 16 \<le> 15" using byte_lt [of b] by auto
    then show ?thesis by linarith
  qed
  moreover have "unat b mod 16 * 4 < 64" by (simp add: less_mult_imp_div_less)
  ultimately show ?case using 3 by (auto intro: b64_char_safe)
next
  case (4 a b c bs)
  have "unat a div 4 < 64" "unat c mod 64 < 64" using byte_lt [of a] by auto
  moreover have "unat a mod 4 * 16 + unat b div 16 < 64" "unat b mod 16 * 4 + unat c div 64 < 64"
  proof -
    have "unat a mod 4 \<le> 3" "unat b div 16 \<le> 15" "unat b mod 16 \<le> 15" "unat c div 64 \<le> 3"
      using byte_lt [of b] byte_lt [of c] by auto
    then show "unat a mod 4 * 16 + unat b div 16 < 64" "unat b mod 16 * 4 + unat c div 64 < 64" by linarith+
  qed
  ultimately show ?case using 4 by (auto intro: b64_char_safe)
qed simp

lemma length_RawURLEncode: "length (RawURLEncode bs) = (4 * length bs + 2) div 3"
  by (induction bs rule: RawURLEncode.induct) simp_all

end
