(* ===== verification/GoIP.thy ===== *)
theory GoIP
  imports GoNet
begin

text \<open>
  IP addresses of Go's package \<open>net\<close>: \<open>net.IP\<close> is a byte slice, of 4 or 16 bytes when valid.
  Parsing (\<open>net.ParseIP\<close>, through \<open>netip.ParseAddr\<close>), printing (\<open>IP.String\<close>) and the predicates
  that classify an address, as the package's source defines them.
\<close>

unbundle bit_operations_syntax

section \<open>Addresses\<close>

type_synonym IP = bytes

definition v4InV6Prefix :: bytes where
  "v4InV6Prefix = [0, 0, 0, 0, 0, 0, 0, 0, 0, 0, 0xff, 0xff]"

definition To4 :: "IP \<Rightarrow> IP option" where
  "To4 ip = (if length ip = 4 then Some ip
     else if length ip = 16 \<and> take 12 ip = v4InV6Prefix then Some (drop 12 ip) else None)"

definition To16 :: "IP \<Rightarrow> IP option" where
  "To16 ip = (if length ip = 4 then Some (v4InV6Prefix @ ip) else if length ip = 16 then Some ip else None)"

definition IP_Equal :: "IP \<Rightarrow> IP \<Rightarrow> bool" where
  "IP_Equal a b \<longleftrightarrow> a = b \<or> (length a = 4 \<and> length b = 16 \<and> b = v4InV6Prefix @ a) \<or>
     (length a = 16 \<and> length b = 4 \<and> a = v4InV6Prefix @ b)"

definition IPv4zero :: IP where "IPv4zero = v4InV6Prefix @ [0, 0, 0, 0]"
definition IPv4bcast :: IP where "IPv4bcast = v4InV6Prefix @ [255, 255, 255, 255]"
definition IPv6unspecified :: IP where "IPv6unspecified = replicate 16 0"
definition IPv6loopback :: IP where "IPv6loopback = replicate 15 0 @ [1]"

definition IsUnspecified :: "IP \<Rightarrow> bool" where
  "IsUnspecified ip \<longleftrightarrow> IP_Equal ip IPv4zero \<or> IP_Equal ip IPv6unspecified"

definition IsLoopback :: "IP \<Rightarrow> bool" where
  "IsLoopback ip = (case To4 ip of Some v4 \<Rightarrow> v4 ! 0 = 127 | None \<Rightarrow> IP_Equal ip IPv6loopback)"

definition IsMulticast :: "IP \<Rightarrow> bool" where
  "IsMulticast ip = (case To4 ip of Some v4 \<Rightarrow> v4 ! 0 AND 0xf0 = 0xe0
     | None \<Rightarrow> length ip = 16 \<and> ip ! 0 = 0xff)"

definition IsInterfaceLocalMulticast :: "IP \<Rightarrow> bool" where
  "IsInterfaceLocalMulticast ip \<longleftrightarrow> length ip = 16 \<and> ip ! 0 = 0xff \<and> ip ! 1 AND 0x0f = 0x01"

definition IsLinkLocalMulticast :: "IP \<Rightarrow> bool" where
  "IsLinkLocalMulticast ip = (case To4 ip of Some v4 \<Rightarrow> v4 ! 0 = 224 \<and> v4 ! 1 = 0 \<and> v4 ! 2 = 0
     | None \<Rightarrow> length ip = 16 \<and> ip ! 0 = 0xff \<and> ip ! 1 AND 0x0f = 0x02)"

definition IsLinkLocalUnicast :: "IP \<Rightarrow> bool" where
  "IsLinkLocalUnicast ip = (case To4 ip of Some v4 \<Rightarrow> v4 ! 0 = 169 \<and> v4 ! 1 = 254
     | None \<Rightarrow> length ip = 16 \<and> ip ! 0 = 0xfe \<and> ip ! 1 AND 0xc0 = 0x80)"

definition IsGlobalUnicast :: "IP \<Rightarrow> bool" where
  "IsGlobalUnicast ip \<longleftrightarrow> (length ip = 4 \<or> length ip = 16) \<and> \<not> IP_Equal ip IPv4bcast \<and>
     \<not> IsUnspecified ip \<and> \<not> IsLoopback ip \<and> \<not> IsMulticast ip \<and> \<not> IsLinkLocalUnicast ip"

section \<open>Printing\<close>

definition dotted :: "IP \<Rightarrow> string" where
  "dotted v4 = Join (CHR ''.'') (map (\<lambda>b. itoa_nat (unat b)) v4)"

fun groups16 :: "bytes \<Rightarrow> nat list" where
  "groups16 (a # b # bs) = (unat a * 256 + unat b) # groups16 bs"
| "groups16 _ = []"

fun hex_nat :: "nat \<Rightarrow> string" where
  "hex_nat n = (if n < 16 then [hex_char n] else hex_nat (n div 16) @ [hex_char (n mod 16)])"

declare hex_nat.simps [simp del]

definition zero_run :: "nat list \<Rightarrow> nat" where
  "zero_run gs = length (takeWhile (\<lambda>g. g = 0) gs)"

text \<open>The first longest run of at least two zero groups: start and end.\<close>

fun longest_run :: "nat \<Rightarrow> nat list \<Rightarrow> nat \<times> nat \<Rightarrow> nat \<times> nat" where
  "longest_run i [] best = best"
| "longest_run i (g # gs) best =
    (let l = zero_run (g # gs) in
     longest_run (Suc i) gs (if 2 \<le> l \<and> snd best - fst best < l then (i, i + l) else best))"

definition hex_groups :: "nat list \<Rightarrow> string" where
  "hex_groups gs = Join colon (map hex_nat gs)"

definition v6_string :: "IP \<Rightarrow> string" where
  "v6_string ip = (let gs = groups16 ip; (s, e) = longest_run 0 gs (255, 255) in
     if e = 255 then hex_groups gs
     else hex_groups (take s gs) @ ''::'' @ hex_groups (drop e gs))"

definition IP_String :: "IP \<Rightarrow> string" where
  "IP_String ip = (if length ip = 0 then ''<nil>''
     else if length ip \<noteq> 4 \<and> length ip \<noteq> 16 then CHR ''?'' # EncodeToString ip
     else case To4 ip of Some v4 \<Rightarrow> dotted v4 | None \<Rightarrow> v6_string ip)"

section \<open>Parsing\<close>

text \<open>A decimal field: digits only, no leading zero, at most 255.\<close>

definition parse_octet :: "string \<Rightarrow> (8 word) option" where
  "parse_octet s = (case parse_digits 0 s of
      None \<Rightarrow> None
    | Some n \<Rightarrow> if s = [] \<or> (hd s = CHR ''0'' \<and> 1 < length s) \<or> 255 < n then None else Some (word_of_nat n))"

fun all_some :: "'a option list \<Rightarrow> 'a list option" where
  "all_some [] = Some []"
| "all_some (None # xs) = None"
| "all_some (Some x # xs) = map_option ((#) x) (all_some xs)"

definition parse_v4 :: "string \<Rightarrow> IP option" where
  "parse_v4 s = (let fs = Split (CHR ''.'') s in
     if length fs = 4 then all_some (map parse_octet fs) else None)"

text \<open>Up to four hexadecimal digits and what follows them; five digits are an error.\<close>

definition is_hex :: "char \<Rightarrow> bool" where
  "is_hex c \<longleftrightarrow> c \<in> set ''0123456789abcdefABCDEF''"

definition hex_digit :: "char \<Rightarrow> nat" where
  "hex_digit c = (let n = of_char c in if n < 58 then n - 48 else if n < 71 then n - 55 else n - 87)"

definition hex_field :: "string \<Rightarrow> (nat \<times> string) option" where
  "hex_field s = (let ds = takeWhile is_hex s in
     if ds = [] \<or> 4 < length ds then None
     else Some (foldl (\<lambda>a c. a * 16 + hex_digit c) 0 ds, dropWhile is_hex s))"

definition group_bytes :: "nat \<Rightarrow> bytes" where
  "group_bytes n = [word_of_nat (n div 256), word_of_nat (n mod 256)]"

text \<open>The loop over the fields: \<open>k\<close> fields can still come, \<open>acc\<close> are the bytes so far, \<open>ell\<close> where the
  ellipsis was. The result is the bytes, the ellipsis and the rest of the text.\<close>

fun v6_loop :: "nat \<Rightarrow> bytes \<Rightarrow> nat option \<Rightarrow> string \<Rightarrow> (bytes \<times> nat option \<times> string) option" where
  "v6_loop 0 acc ell s = Some (acc, ell, s)"
| "v6_loop (Suc k) acc ell s = (case hex_field s of
      None \<Rightarrow> None
    | Some (n, r) \<Rightarrow>
      if r \<noteq> [] \<and> hd r = CHR ''.'' then
        if (ell = None \<and> length acc \<noteq> 12) \<or> 16 < length acc + 4 then None
        else map_option (\<lambda>v4. (acc @ v4, ell, [])) (parse_v4 s)
      else
        let acc' = acc @ group_bytes n in
        if r = [] then Some (acc', ell, [])
        else if hd r \<noteq> colon \<or> tl r = [] then None
        else if hd (tl r) = colon then
          if ell \<noteq> None then None
          else if tl (tl r) = [] then Some (acc', Some (length acc'), [])
          else v6_loop k acc' (Some (length acc')) (tl (tl r))
        else v6_loop k acc' ell (tl r))"

definition parse_v6 :: "string \<Rightarrow> IP option" where
  "parse_v6 s =
    (if s = ''::'' then Some (replicate 16 0)
     else case (if HasPrefix s ''::'' then v6_loop 8 [] (Some 0) (drop 2 s) else v6_loop 8 [] None s) of
       None \<Rightarrow> None
     | Some (acc, ell, r) \<Rightarrow>
         if r \<noteq> [] then None
         else case ell of
           None \<Rightarrow> if length acc < 16 then None else Some acc
         | Some e \<Rightarrow> if 16 \<le> length acc then None
             else Some (take e acc @ replicate (16 - length acc) 0 @ drop e acc))"

text \<open>\<open>ParseIP\<close> decides by the first dot, colon or percent sign; an address with a zone is refused.
  An IPv4 address comes back in its 16-byte form.\<close>

definition ParseIP :: "string \<Rightarrow> IP option" where
  "ParseIP s = (case List.find (\<lambda>c. c \<in> {CHR ''.'', colon, CHR ''%''}) s of
      Some c \<Rightarrow>
        if c = CHR ''.'' then map_option ((@) v4InV6Prefix) (parse_v4 s)
        else if c = colon \<and> CHR ''%'' \<notin> set s then parse_v6 s else None
    | None \<Rightarrow> None)"

section \<open>The characters of a printed address\<close>

lemma hex_chars_table: "list_all (\<lambda>n. is_hex (hex_char n)) [0..<16]" "list_all (\<lambda>n. is_hex (digit_char n)) [0..<10]"
  by code_simp+

lemma hex_char_is_hex: "n < 16 \<Longrightarrow> is_hex (hex_char n)"
  by (rule all_below [OF hex_chars_table(1)])

lemma set_hex_nat: "c \<in> set (hex_nat n) \<Longrightarrow> is_hex c"
proof (induction n rule: hex_nat.induct)
  case (1 n)
  then show ?case by (subst (asm) hex_nat.simps) (auto split: if_splits intro: hex_char_is_hex)
qed

lemma set_hex_groups: "c \<in> set (hex_groups gs) \<Longrightarrow> is_hex c \<or> c = colon"
  using set_Join [of colon "map hex_nat gs"] by (auto simp: hex_groups_def dest: set_hex_nat)

lemma set_v6_string: "c \<in> set (v6_string ip) \<Longrightarrow> is_hex c \<or> c = colon"
  by (auto simp: v6_string_def colon_def Let_def split: prod.splits if_splits dest!: set_hex_groups)

lemma set_dotted: "c \<in> set (dotted v4) \<Longrightarrow> digit_val c \<noteq> None \<or> c = CHR ''.''"
  using set_Join [of "CHR ''.''" "map (\<lambda>b. itoa_nat (unat b)) v4"] by (auto simp: dotted_def dest!: itoa_nat_digits)

lemma is_hex_graphic: "is_hex c \<Longrightarrow> graphic c"
  by (auto simp: is_hex_def graphic_def)

lemma dotted_ne: "v4 \<noteq> [] \<Longrightarrow> dotted v4 \<noteq> []"
  by (cases v4 rule: remdups_adj.cases) (simp_all add: dotted_def)

section \<open>Two addresses\<close>

lemma parsed_v4: "ParseIP ''192.168.1.10'' = Some (v4InV6Prefix @ [192, 168, 1, 10])"
  by (simp add: ParseIP_def parse_v4_def parse_octet_def colon_def digit_val_def)

lemmas v6_loop_numeral = v6_loop.simps(2) [where k = "pred_numeral n" for n, folded numeral_eq_Suc]

lemma parsed_v6: "ParseIP ''fe80::1'' = Some (0xfe # 0x80 # replicate 13 0 @ [1])"
  by (simp add: ParseIP_def parse_v6_def hex_field_def colon_def is_hex_def hex_digit_def group_bytes_def
    v6_loop_numeral Let_def) (simp add: replicate_append_same [symmetric] eval_nat_numeral)

end
