(* ===== verification/Share.thy ===== *)
theory Share
  imports Slots GoIP
begin

text \<open>
  Web shares: the share with its token and password (\<open>core/share/types.go\<close>), the manager with its
  limit, its expiry and its table of banned addresses (\<open>core/share/manager.go\<close>), and the handlers of
  the download server (\<open>core/share/server.go\<close>). SHA-256 is the parameter \<open>sha\<close>; random bytes, clock
  readings and the outcome of opening the file are arguments. A handler looks a share up and records
  a download in two critical sections, so its two halves are separate definitions.
\<close>

section \<open>Shares\<close>

definition TokenLength :: nat where "TokenLength = 32"
definition TokenURLLength :: nat where "TokenURLLength = 43"
definition MaxShares :: int where "MaxShares = 64"
definition MaxDownloadCount :: int where "MaxDownloadCount = 10"
definition DefaultExpiry :: int where "DefaultExpiry = 30 * 60 * 1000000000"
definition PasswordMinLength :: nat where "PasswordMinLength = 4"
definition PasswordMaxLength :: nat where "PasswordMaxLength = 32"
definition MaxPasswordAttempts :: int where "MaxPasswordAttempts = 10"
definition MaxTokenAttempts :: int where "MaxTokenAttempts = 10"
definition BanDuration :: int where "BanDuration = 5 * 60 * 1000000000"

lemmas share_consts = TokenLength_def TokenURLLength_def MaxShares_def MaxDownloadCount_def DefaultExpiry_def
  PasswordMinLength_def PasswordMaxLength_def MaxPasswordAttempts_def MaxTokenAttempts_def BanDuration_def

record Share =
  sh_Token :: string
  sh_Path :: string
  sh_IsDir :: bool
  sh_Name :: string
  sh_Size :: int
  sh_PasswordHash :: bytes
  sh_Salt :: bytes
  sh_HasPassword :: bool
  sh_Expiry :: int
  sh_MaxDownloads :: int
  sh_Downloads :: int
  sh_CreatedAt :: int
  sh_Stopped :: bool

datatype ShareError = ErrShareNotFound | ErrShareLimit | ErrIPBanned | ErrToken | ErrPasswordLength
  | ErrSalt | ErrInvalidPassword | ErrTokenLength | ErrTokenChar

definition GenerateToken :: "bytes option \<Rightarrow> ShareError + string" where
  "GenerateToken rnd = (case rnd of None \<Rightarrow> Inl ErrToken | Some b \<Rightarrow> Inr (RawURLEncode b))"

definition HashPassword :: "(bytes \<Rightarrow> bytes) \<Rightarrow> string \<Rightarrow> bytes \<Rightarrow> bytes" where
  "HashPassword sha password salt = sha (str_bytes password @ salt)"

definition NewShare ::
  "(bytes \<Rightarrow> bytes) \<Rightarrow> bytes option \<Rightarrow> bytes option \<Rightarrow> int \<Rightarrow> string \<Rightarrow> bool \<Rightarrow> string \<Rightarrow> int \<Rightarrow> string \<Rightarrow>
    int \<Rightarrow> int \<Rightarrow> ShareError + Share" where
  "NewShare sha rnd rsalt now path isDir name sz password expiry maxDownloads =
    (case GenerateToken rnd of
       Inl e \<Rightarrow> Inl e
     | Inr token \<Rightarrow>
       let s = \<lparr>sh_Token = token, sh_Path = path, sh_IsDir = isDir, sh_Name = name, sh_Size = sz,
            sh_PasswordHash = replicate 32 0, sh_Salt = replicate 16 0, sh_HasPassword = False,
            sh_Expiry = now + expiry, sh_MaxDownloads = maxDownloads, sh_Downloads = 0,
            sh_CreatedAt = now, sh_Stopped = False\<rparr> in
       if password = [] then Inr s
       else if length password < PasswordMinLength \<or> PasswordMaxLength < length password then Inl ErrPasswordLength
       else (case rsalt of
           None \<Rightarrow> Inl ErrSalt
         | Some salt \<Rightarrow> Inr (s\<lparr>sh_Salt := salt, sh_PasswordHash := HashPassword sha password salt,
             sh_HasPassword := True\<rparr>)))"

definition VerifyPassword :: "(bytes \<Rightarrow> bytes) \<Rightarrow> Share \<Rightarrow> string \<Rightarrow> bool" where
  "VerifyPassword sha s password \<longleftrightarrow> \<not> sh_HasPassword s \<or> sh_PasswordHash s = HashPassword sha password (sh_Salt s)"

definition Expired :: "int \<Rightarrow> Share \<Rightarrow> bool" where
  "Expired now s \<longleftrightarrow> sh_Expiry s < now"

definition Exhausted :: "Share \<Rightarrow> bool" where
  "Exhausted s \<longleftrightarrow> 0 < sh_MaxDownloads s \<and> sh_MaxDownloads s \<le> sh_Downloads s"

definition Active :: "int \<Rightarrow> Share \<Rightarrow> bool" where
  "Active now s \<longleftrightarrow> \<not> sh_Stopped s \<and> \<not> Expired now s \<and> \<not> Exhausted s"

definition RemainingDownloads :: "Share \<Rightarrow> int" where
  "RemainingDownloads s =
    (if sh_MaxDownloads s \<le> 0 then - 1
     else if sh_MaxDownloads s - sh_Downloads s < 0 then 0 else sh_MaxDownloads s - sh_Downloads s)"

definition RemainingTime :: "int \<Rightarrow> Share \<Rightarrow> int" where
  "RemainingTime now s = (if sh_Expiry s - now < 0 then 0 else sh_Expiry s - now)"

section \<open>The manager\<close>

record SManager =
  sm_shares :: "(string, Share) gomap"
  sm_maxShares :: int
  sm_tokenFails :: "(string, int) gomap"
  sm_passFails :: "(string, int) gomap"
  sm_bannedUntil :: "(string, int) gomap"

definition NewSManager :: "int \<Rightarrow> SManager" where
  "NewSManager maxShares = \<lparr>sm_shares = [], sm_maxShares = (if maxShares \<le> 0 then MaxShares else maxShares),
     sm_tokenFails = [], sm_passFails = [], sm_bannedUntil = []\<rparr>"

definition CreateShare ::
  "(bytes \<Rightarrow> bytes) \<Rightarrow> bytes option \<Rightarrow> bytes option \<Rightarrow> int \<Rightarrow> string \<Rightarrow> bool \<Rightarrow> string \<Rightarrow> int \<Rightarrow> string \<Rightarrow>
    int \<Rightarrow> int \<Rightarrow> SManager \<Rightarrow> ShareError + Share \<times> SManager" where
  "CreateShare sha rnd rsalt now path isDir name sz password expiry maxDownloads m =
    (if sm_maxShares m \<le> int (length (sm_shares m)) then Inl ErrShareLimit
     else case NewShare sha rnd rsalt now path isDir name sz password expiry maxDownloads of
       Inl e \<Rightarrow> Inl e
     | Inr s \<Rightarrow> Inr (s, m\<lparr>sm_shares := gput (sh_Token s) s (sm_shares m)\<rparr>))"

definition fails :: "string \<Rightarrow> (string, int) gomap \<Rightarrow> int" where
  "fails ip t = (case map_of t ip of None \<Rightarrow> 0 | Some n \<Rightarrow> n)"

definition recordTokenFail :: "int \<Rightarrow> string \<Rightarrow> SManager \<Rightarrow> SManager" where
  "recordTokenFail now ip m =
    (let n = fails ip (sm_tokenFails m) + 1 in
     if MaxTokenAttempts \<le> n
     then m\<lparr>sm_bannedUntil := gput ip (now + BanDuration) (sm_bannedUntil m),
            sm_tokenFails := gdel ip (sm_tokenFails m)\<rparr>
     else m\<lparr>sm_tokenFails := gput ip n (sm_tokenFails m)\<rparr>)"

definition recordPassFail :: "int \<Rightarrow> string \<Rightarrow> SManager \<Rightarrow> SManager" where
  "recordPassFail now ip m =
    (let n = fails ip (sm_passFails m) + 1 in
     if MaxPasswordAttempts \<le> n
     then m\<lparr>sm_bannedUntil := gput ip (now + BanDuration) (sm_bannedUntil m),
            sm_passFails := gdel ip (sm_passFails m)\<rparr>
     else m\<lparr>sm_passFails := gput ip n (sm_passFails m)\<rparr>)"

definition clearTokenFails :: "string \<Rightarrow> SManager \<Rightarrow> SManager" where
  "clearTokenFails ip m = m\<lparr>sm_tokenFails := gdel ip (sm_tokenFails m)\<rparr>"

definition clearPassFails :: "string \<Rightarrow> SManager \<Rightarrow> SManager" where
  "clearPassFails ip m = m\<lparr>sm_passFails := gdel ip (sm_passFails m)\<rparr>"

definition checkBanned :: "int \<Rightarrow> string \<Rightarrow> SManager \<Rightarrow> ShareError option \<times> SManager" where
  "checkBanned now ip m = (case map_of (sm_bannedUntil m) ip of
      None \<Rightarrow> (None, m)
    | Some until \<Rightarrow>
        if now < until then (Some ErrIPBanned, m)
        else (None, m\<lparr>sm_bannedUntil := gdel ip (sm_bannedUntil m), sm_tokenFails := gdel ip (sm_tokenFails m),
                      sm_passFails := gdel ip (sm_passFails m)\<rparr>))"

definition GetShare :: "int \<Rightarrow> string \<Rightarrow> string \<Rightarrow> SManager \<Rightarrow> (ShareError + Share) \<times> SManager" where
  "GetShare now token ip m = (case map_of (sm_shares m) token of
      None \<Rightarrow> (Inl ErrShareNotFound, recordTokenFail now ip m)
    | Some s \<Rightarrow>
        if \<not> Active now s then (Inl ErrShareNotFound, recordTokenFail now ip m)
        else (Inr s, clearTokenFails ip m))"

definition StopShare :: "string \<Rightarrow> SManager \<Rightarrow> bool \<times> SManager" where
  "StopShare token m = (case map_of (sm_shares m) token of
      Some s \<Rightarrow> (True, m\<lparr>sm_shares := gdel token (sm_shares m)\<rparr>)
    | None \<Rightarrow> (False, m))"

definition StopAll :: "SManager \<Rightarrow> SManager" where
  "StopAll m = m\<lparr>sm_shares := []\<rparr>"

definition ListShares :: "int \<Rightarrow> SManager \<Rightarrow> Share list" where
  "ListShares now m = filter (Active now) (map snd (sm_shares m))"

definition Share_ActiveCount :: "int \<Rightarrow> SManager \<Rightarrow> nat" where
  "Share_ActiveCount now m = gcount (Active now) (sm_shares m)"

definition RecordDownload :: "string \<Rightarrow> SManager \<Rightarrow> SManager" where
  "RecordDownload token m = (case map_of (sm_shares m) token of
      None \<Rightarrow> m
    | Some s \<Rightarrow> m\<lparr>sm_shares := gput token (s\<lparr>sh_Downloads := sh_Downloads s + 1\<rparr>) (sm_shares m)\<rparr>)"

definition CheckPassword ::
  "(bytes \<Rightarrow> bytes) \<Rightarrow> int \<Rightarrow> Share \<Rightarrow> string \<Rightarrow> string \<Rightarrow> SManager \<Rightarrow> ShareError option \<times> SManager" where
  "CheckPassword sha now s password ip m = (case checkBanned now ip m of
      (Some e, m1) \<Rightarrow> (Some e, m1)
    | (None, m1) \<Rightarrow>
        if \<not> VerifyPassword sha s password then (Some ErrInvalidPassword, recordPassFail now ip m1)
        else (None, clearPassFails ip m1))"

definition share_cleanup :: "int \<Rightarrow> SManager \<Rightarrow> SManager" where
  "share_cleanup now m =
    (let gone = map fst (filter (\<lambda>(ip, until). until < now) (sm_bannedUntil m)) in m\<lparr>sm_shares := filter (\<lambda>(t, s). \<not> (sh_Stopped s \<or> sh_Expiry s < now \<or> Exhausted s)) (sm_shares m),
          sm_bannedUntil := filter (\<lambda>(ip, until). \<not> until < now) (sm_bannedUntil m),
          sm_tokenFails := filter (\<lambda>(ip, x). ip \<notin> set gone) (sm_tokenFails m),
          sm_passFails := filter (\<lambda>(ip, x). ip \<notin> set gone) (sm_passFails m)\<rparr>)"

definition ValidateToken :: "string \<Rightarrow> ShareError option" where
  "ValidateToken token = (if length token \<noteq> TokenURLLength then Some ErrTokenLength
     else if \<exists>c \<in> set token. \<not> url_safe c then Some ErrTokenChar else None)"

definition ClientIP :: "string \<Rightarrow> string" where
  "ClientIP remoteAddr = (case SplitHostPort remoteAddr of None \<Rightarrow> remoteAddr | Some (host, _) \<Rightarrow> host)"

section \<open>The download server\<close>

datatype Reply = RError nat string | RPage Share string | RFile Share | RZip Share
  | RStatus Share int int | RText string

text \<open>The looking up that the handlers share: the token's form, then \<open>GetShare\<close>.\<close>

definition lookup_share :: "int \<Rightarrow> string \<Rightarrow> string \<Rightarrow> SManager \<Rightarrow> (Reply + Share) \<times> SManager" where
  "lookup_share now token ip m =
    (if ValidateToken token \<noteq> None then (Inl (RError 400 ''invalid token''), m)
     else case GetShare now token ip m of
       (Inl e, m1) \<Rightarrow> (Inl (if e = ErrIPBanned then RError 429 ''too many attempts, try again later''
                           else RError 404 ''share not found or expired''), m1)
     | (Inr s, m1) \<Rightarrow> (Inr s, m1))"

definition serveDownload :: "bool \<Rightarrow> Share \<Rightarrow> SManager \<Rightarrow> Reply \<times> SManager" where
  "serveDownload opens s m = (let m1 = RecordDownload (sh_Token s) m in
     if sh_IsDir s then (RZip s, m1)
     else if \<not> opens then (RError 500 ''file unavailable'', m1)
     else (RFile s, m1))"

definition page_check :: "int \<Rightarrow> string \<Rightarrow> string \<Rightarrow> bool \<Rightarrow> SManager \<Rightarrow> (Reply + Share) \<times> SManager" where
  "page_check now token remote dl m = (case lookup_share now token (ClientIP remote) m of
      (Inl r, m1) \<Rightarrow> (Inl r, m1)
    | (Inr s, m1) \<Rightarrow> if \<not> sh_HasPassword s \<and> dl then (Inr s, m1) else (Inl (RPage s []), m1))"

definition download_check ::
  "(bytes \<Rightarrow> bytes) \<Rightarrow> int \<Rightarrow> string \<Rightarrow> string \<Rightarrow> string \<Rightarrow> SManager \<Rightarrow> (Reply + Share) \<times> SManager" where
  "download_check sha now token remote password m = (case lookup_share now token (ClientIP remote) m of
      (Inl r, m1) \<Rightarrow> (Inl r, m1)
    | (Inr s, m1) \<Rightarrow>
        if sh_HasPassword s then
          (case CheckPassword sha now s password (ClientIP remote) m1 of
             (Some e, m2) \<Rightarrow> (Inl (if e = ErrIPBanned then RError 429 ''too many attempts, try again later''
                                  else RPage s ''Incorrect password''), m2)
           | (None, m2) \<Rightarrow> (Inr s, m2))
        else (Inr s, m1))"

definition after_check :: "bool \<Rightarrow> (Reply + Share) \<times> SManager \<Rightarrow> Reply \<times> SManager" where
  "after_check opens r = (case r of (Inl x, m) \<Rightarrow> (x, m) | (Inr s, m) \<Rightarrow> serveDownload opens s m)"

definition handleDownloadPage ::
  "int \<Rightarrow> string \<Rightarrow> string \<Rightarrow> bool \<Rightarrow> bool \<Rightarrow> SManager \<Rightarrow> Reply \<times> SManager" where
  "handleDownloadPage now token remote dl opens m = after_check opens (page_check now token remote dl m)"

definition handleDownload ::
  "(bytes \<Rightarrow> bytes) \<Rightarrow> int \<Rightarrow> string \<Rightarrow> string \<Rightarrow> string \<Rightarrow> bool \<Rightarrow> SManager \<Rightarrow> Reply \<times> SManager" where
  "handleDownload sha now token remote password opens m =
    after_check opens (download_check sha now token remote password m)"

definition handleStatus :: "int \<Rightarrow> string \<Rightarrow> string \<Rightarrow> SManager \<Rightarrow> Reply \<times> SManager" where
  "handleStatus now token remote m =
    (if ValidateToken token \<noteq> None then (RError 400 ''invalid token'', m)
     else case GetShare now token (ClientIP remote) m of
       (Inl e, m1) \<Rightarrow> (if e = ErrIPBanned then RError 429 ''too many attempts'' else RError 404 ''not found'', m1)
     | (Inr s, m1) \<Rightarrow> (RStatus s (RemainingDownloads s) (RemainingTime now s div 1000000000), m1))"

definition handleQR :: "int \<Rightarrow> string \<Rightarrow> string \<Rightarrow> bool \<Rightarrow> string \<Rightarrow> int \<Rightarrow> SManager \<Rightarrow> Reply \<times> SManager" where
  "handleQR now token remote tls host port m =
    (if ValidateToken token \<noteq> None then (RError 400 ''invalid token'', m)
     else case GetShare now token (ClientIP remote) m of
       (Inl e, m1) \<Rightarrow> (RError 404 ''not found'', m1)
     | (Inr s, m1) \<Rightarrow>
         let scheme = (if tls then ''https'' else ''http'');
             h = (if host = [] then ''localhost:'' @ Itoa port else host)
         in (RText (scheme @ ''://'' @ h @ ''/dl/'' @ sh_Token s), m1))"

definition ShareURL :: "string \<Rightarrow> int \<Rightarrow> string \<Rightarrow> string" where
  "ShareURL host port token = ''http://'' @ host @ '':'' @ Itoa port @ ''/dl/'' @ token"

definition ShareURLForAddr :: "IP \<Rightarrow> int \<Rightarrow> string \<Rightarrow> string" where
  "ShareURLForAddr ip port token =
    (let host = (if IsUnspecified ip then ''localhost'' else IP_String ip);
         host' = (if To4 ip = None then ''['' @ host @ '']'' else host)
     in ShareURL host' port token)"

section \<open>Sizes and durations\<close>

text \<open>\<open>fmt1 b d\<close> is the text of \<open>b / d\<close> with one decimal; an index past the unit letters is a panic
  (None). The loop's product is of type \<open>int64\<close>.\<close>

function size_loop :: "int \<Rightarrow> int \<Rightarrow> nat \<Rightarrow> int \<times> nat" where
  "size_loop n d e = (if 1024 \<le> n then size_loop (n div 1024) (wrap64 (d * 1024)) (Suc e) else (d, e))"
  by auto
termination by (relation "measure (\<lambda>(n, d, e). nat n)") auto

declare size_loop.simps [simp del]

definition humanizeSize :: "(int \<Rightarrow> int \<Rightarrow> string) \<Rightarrow> int \<Rightarrow> string option" where
  "humanizeSize fmt1 b =
    (if b < 1024 then Some (Itoa b @ '' B'')
     else let (d, e) = size_loop (b div 1024) 1024 0 in
       if e < length ''KMGTPE'' then Some (fmt1 b d @ '' '' @ [''KMGTPE'' ! e] @ ''B'') else None)"

text \<open>Hours and minutes of a positive duration in nanoseconds. The code goes through \<open>float64\<close>, which is
  exact for the durations below 1024 hours; longer ones can round up.\<close>

definition formatDuration :: "int \<Rightarrow> string" where
  "formatDuration d =
    (if d \<le> 0 then ''expired''
     else let h = d div (3600 * 1000000000); m = (d div (60 * 1000000000)) mod 60 in
       if 0 < h then Itoa h @ ''h '' @ Itoa m @ ''m'' else Itoa m @ ''m'')"

section \<open>Runs\<close>

text \<open>Requests handled one after the other; the random bytes of a creation are its arguments.\<close>

datatype sop = SCreate "bytes option" "bytes option" int string bool string int string int int
  | SGet int string string | SStop string | SStopAll | SCleanup int | SCheckPassword int Share string string
  | SPage int string string bool bool | SDownload int string string string bool

fun sstep :: "(bytes \<Rightarrow> bytes) \<Rightarrow> sop \<Rightarrow> SManager \<Rightarrow> SManager" where
  "sstep sha (SCreate rnd rs now p d n sz pw ex mx) m =
    (case CreateShare sha rnd rs now p d n sz pw ex mx m of Inl e \<Rightarrow> m | Inr (s, m') \<Rightarrow> m')"
| "sstep sha (SGet now t ip) m = snd (GetShare now t ip m)"
| "sstep sha (SStop t) m = snd (StopShare t m)"
| "sstep sha SStopAll m = StopAll m"
| "sstep sha (SCleanup now) m = share_cleanup now m"
| "sstep sha (SCheckPassword now s pw ip) m = snd (CheckPassword sha now s pw ip m)"
| "sstep sha (SPage now t r dl ok) m = snd (handleDownloadPage now t r dl ok m)"
| "sstep sha (SDownload now t r pw ok) m = snd (handleDownload sha now t r pw ok m)"

definition srun :: "(bytes \<Rightarrow> bytes) \<Rightarrow> sop list \<Rightarrow> SManager \<Rightarrow> SManager" where
  "srun sha xs m = fold (sstep sha) xs m"

section \<open>What leaves the table alone\<close>

lemma ban_ops_shares [simp]:
  "sm_shares (recordTokenFail now ip m) = sm_shares m" "sm_shares (recordPassFail now ip m) = sm_shares m"
  "sm_shares (clearTokenFails ip m) = sm_shares m" "sm_shares (clearPassFails ip m) = sm_shares m"
  "sm_maxShares (recordTokenFail now ip m) = sm_maxShares m" "sm_maxShares (recordPassFail now ip m) = sm_maxShares m"
  "sm_maxShares (clearTokenFails ip m) = sm_maxShares m" "sm_maxShares (clearPassFails ip m) = sm_maxShares m"
  by (simp_all add: recordTokenFail_def recordPassFail_def clearTokenFails_def clearPassFails_def Let_def)

lemma checkBanned_shares: "checkBanned now ip m = (r, m') \<Longrightarrow> sm_shares m' = sm_shares m \<and> sm_maxShares m' = sm_maxShares m"
  by (auto simp: checkBanned_def split: option.splits if_splits)

lemma CheckPassword_shares:
  "CheckPassword sha now s pw ip m = (r, m') \<Longrightarrow> sm_shares m' = sm_shares m \<and> sm_maxShares m' = sm_maxShares m"
  by (auto simp: CheckPassword_def dest!: checkBanned_shares split: prod.splits option.splits if_splits)

lemma GetShare_shares:
  "GetShare now t ip m = (r, m') \<Longrightarrow> sm_shares m' = sm_shares m \<and> sm_maxShares m' = sm_maxShares m"
  by (auto simp: GetShare_def split: option.splits if_splits)

lemma GetShare_Inr: "GetShare now t ip m = (Inr s, m') \<Longrightarrow> map_of (sm_shares m) t = Some s \<and> Active now s"
  by (auto simp: GetShare_def split: option.splits if_splits)

lemma lookup_Inr:
  "lookup_share now t ip m = (Inr s, m') \<Longrightarrow> map_of (sm_shares m) t = Some s \<and> Active now s \<and>
    sm_shares m' = sm_shares m \<and> sm_maxShares m' = sm_maxShares m"
  by (auto simp: lookup_share_def dest: GetShare_shares GetShare_Inr split: if_splits prod.splits sum.splits)

lemma lookup_shares:
  "lookup_share now t ip m = (r, m') \<Longrightarrow> sm_shares m' = sm_shares m \<and> sm_maxShares m' = sm_maxShares m"
  by (auto simp: lookup_share_def dest!: GetShare_shares split: if_splits prod.splits sum.splits)

lemma download_check_shares:
  "download_check sha now t r pw m = (x, m') \<Longrightarrow> sm_shares m' = sm_shares m \<and> sm_maxShares m' = sm_maxShares m"
  by (auto simp: download_check_def dest!: lookup_shares CheckPassword_shares
      split: prod.splits sum.splits option.splits if_splits)

lemma page_check_shares:
  "page_check now t r dl m = (x, m') \<Longrightarrow> sm_shares m' = sm_shares m \<and> sm_maxShares m' = sm_maxShares m"
  by (auto simp: page_check_def dest!: lookup_shares split: prod.splits sum.splits if_splits)

lemma download_check_Inr:
  assumes "download_check sha now t r pw m = (Inr s, m')"
  shows "map_of (sm_shares m) t = Some s \<and> Active now s \<and> VerifyPassword sha s pw"
proof -
  obtain x m1 where l: "lookup_share now t (ClientIP r) m = (x, m1)" by (cases "lookup_share now t (ClientIP r) m")
  with assms obtain q where x: "x = Inr q" by (cases x) (auto simp: download_check_def)
  with l assms have "q = s" by (auto simp: download_check_def split: if_splits prod.splits option.splits)
  moreover have "VerifyPassword sha s pw"
  proof (cases "sh_HasPassword s")
    case True
    with assms l x \<open>q = s\<close> obtain m2 where "CheckPassword sha now s pw (ClientIP r) m1 = (None, m2)"
      by (auto simp: download_check_def split: prod.splits option.splits)
    then show ?thesis by (auto simp: CheckPassword_def split: prod.splits option.splits if_splits)
  qed (simp add: VerifyPassword_def)
  ultimately show ?thesis using lookup_Inr [of now t "ClientIP r" m q m1] l x by simp
qed

lemma page_check_Inr:
  "page_check now t r dl m = (Inr s, m') \<Longrightarrow> map_of (sm_shares m) t = Some s \<and> Active now s \<and> \<not> sh_HasPassword s"
  by (auto simp: page_check_def dest!: lookup_Inr split: prod.splits sum.splits if_splits)

lemma serveDownload_shares: "snd (serveDownload opens s m) = RecordDownload (sh_Token s) m"
  by (simp add: serveDownload_def Let_def)

section \<open>The limit on shares\<close>

lemma RecordDownload_keys: "map fst (sm_shares (RecordDownload t m)) = map fst (sm_shares m)"
  "sm_maxShares (RecordDownload t m) = sm_maxShares m"
proof -
  have "map fst (gput t v xs) = map fst xs" if "map_of xs t = Some u" for t v u and xs :: "(string, Share) gomap"
    using that by (induction xs) (auto split: if_splits)
  then show "map fst (sm_shares (RecordDownload t m)) = map fst (sm_shares m)"
    by (simp add: RecordDownload_def split: option.split)
qed (simp add: RecordDownload_def split: option.split)

definition share_count :: "SManager \<Rightarrow> nat" where
  "share_count m = length (sm_shares m)"

definition admit_share ::
  "(bytes \<Rightarrow> bytes) \<times> bytes option \<times> bytes option \<times> int \<times> string \<times> bool \<times> string \<times> int \<times> string \<times> int \<times> int
    \<Rightarrow> SManager \<Rightarrow> ShareError + SManager" where
  "admit_share a m = (case a of (sha, rnd, rs, now, p, d, n, sz, pw, ex, mx) \<Rightarrow>
     map_sum (\<lambda>e. e) snd (CreateShare sha rnd rs now p d n sz pw ex mx m))"

lemma CreateShare_ok:
  assumes "CreateShare sha rnd rs now p d n sz pw ex mx m = Inr (s, m')"
  shows "int (length (sm_shares m)) < sm_maxShares m \<and> m' = m\<lparr>sm_shares := gput (sh_Token s) s (sm_shares m)\<rparr> \<and>
    sh_Downloads s = 0 \<and> sh_MaxDownloads s = mx \<and> (\<exists>b. rnd = Some b \<and> sh_Token s = RawURLEncode b)"
  using assms
  by (auto simp: CreateShare_def NewShare_def GenerateToken_def Let_def split: if_splits sum.splits option.splits)

interpretation shares: slot_table share_count sm_maxShares admit_share
proof unfold_locales
  fix a m m'
  assume adm: "admit_share a m = Inr m'"
  obtain sha rnd rs now p d n sz pw ex mx where a: "a = (sha, rnd, rs, now, p, d, n, sz, pw, ex, mx)"
    by (cases a) auto
  with adm obtain s where "CreateShare sha rnd rs now p d n sz pw ex mx m = Inr (s, m')"
    by (cases "CreateShare sha rnd rs now p d n sz pw ex mx m") (auto simp: admit_share_def)
  from CreateShare_ok [OF this] show "int (share_count m) < sm_maxShares m"
    "share_count m' \<le> Suc (share_count m)" "sm_maxShares m' = sm_maxShares m"
    by (auto simp: share_count_def length_gput)
qed

lemma sstep_length: "share_count (sstep sha x m) \<le> share_count m \<and> sm_maxShares (sstep sha x m) = sm_maxShares m"
  if "\<forall>rnd rs now p d n sz pw ex mx. x \<noteq> SCreate rnd rs now p d n sz pw ex mx"
proof -
  have rec: "length (sm_shares (RecordDownload t m)) = length (sm_shares m)" for t m
    using arg_cong [OF RecordDownload_keys(1), of length t m] by simp
  have aft: "length (sm_shares (snd (after_check o1 (y, m1)))) = length (sm_shares m1) \<and>
      sm_maxShares (snd (after_check o1 (y, m1))) = sm_maxShares m1" for o1 y m1
    by (auto simp: after_check_def serveDownload_shares rec RecordDownload_keys split: sum.split)
  show ?thesis
  proof (cases x)
    case (SPage now t r dl o1)
    obtain y m1 where "page_check now t r dl m = (y, m1)" by (cases "page_check now t r dl m")
    with aft page_check_shares show ?thesis by (simp add: SPage share_count_def handleDownloadPage_def)
  next
    case (SDownload now t r pw o1)
    obtain y m1 where "download_check sha now t r pw m = (y, m1)" by (cases "download_check sha now t r pw m")
    with aft download_check_shares show ?thesis by (simp add: SDownload share_count_def handleDownload_def)
  next
    case (SCheckPassword now s pw ip)
    obtain y m1 where "CheckPassword sha now s pw ip m = (y, m1)" by (cases "CheckPassword sha now s pw ip m")
    with CheckPassword_shares show ?thesis by (simp add: SCheckPassword share_count_def)
  next
    case (SGet now t ip)
    obtain y m1 where "GetShare now t ip m = (y, m1)" by (cases "GetShare now t ip m")
    with GetShare_shares show ?thesis by (simp add: SGet share_count_def)
  qed (use that in \<open>auto simp: share_count_def StopShare_def StopAll_def share_cleanup_def Let_def
      length_delete_le split: option.split\<close>)
qed

lemma srun_within: "shares.within m \<Longrightarrow> shares.within (srun sha xs m) \<and> sm_maxShares (srun sha xs m) = sm_maxShares m"
proof (induction xs arbitrary: m)
  case (Cons x xs)
  have "shares.within (sstep sha x m) \<and> sm_maxShares (sstep sha x m) = sm_maxShares m"
  proof (cases "\<exists>rnd rs now p d n sz pw ex mx. x = SCreate rnd rs now p d n sz pw ex mx")
    case True
    then obtain rnd rs now p d n sz pw ex mx where x: "x = SCreate rnd rs now p d n sz pw ex mx" by blast
    show ?thesis
    proof (cases "CreateShare sha rnd rs now p d n sz pw ex mx m")
      case (Inr y)
      then have "admit_share (sha, rnd, rs, now, p, d, n, sz, pw, ex, mx) m = Inr (snd y)"
        by (simp add: admit_share_def)
      from shares.within_admit [OF this] shares.admit_limit [OF this] Inr show ?thesis by (simp add: x split_def)
    qed (use Cons.prems in \<open>simp add: x\<close>)
  next
    case False
    with sstep_length [of x sha m] show ?thesis using shares.within_shrink [OF Cons.prems] by blast
  qed
  with Cons.IH show ?case by (simp add: srun_def)
qed (simp add: srun_def)

section \<open>The limit on downloads\<close>

lemma set_gput: "set (gput k v m) \<subseteq> insert (k, v) (set m)"
  by (induction m) auto

lemma set_gdel: "set (gdel k m) \<subseteq> set m"
  by (induction m) auto

text \<open>Every share is stored under its token and has been downloaded at most as often as allowed.\<close>

definition dl_ok :: "string \<times> Share \<Rightarrow> bool" where
  "dl_ok ts \<longleftrightarrow> sh_Token (snd ts) = fst ts \<and> (0 < sh_MaxDownloads (snd ts) \<longrightarrow> sh_Downloads (snd ts) \<le> sh_MaxDownloads (snd ts))"

definition dl_inv :: "SManager \<Rightarrow> bool" where
  "dl_inv m \<longleftrightarrow> (\<forall>ts \<in> set (sm_shares m). dl_ok ts)"

lemma dl_inv_shares: "sm_shares m' = sm_shares m \<Longrightarrow> dl_inv m' = dl_inv m"
  by (simp add: dl_inv_def)

lemma dl_inv_sub: "dl_inv m \<Longrightarrow> set (sm_shares m') \<subseteq> set (sm_shares m) \<Longrightarrow> dl_inv m'"
  by (auto simp: dl_inv_def)

lemma dl_inv_serve:
  assumes "dl_inv m" "map_of (sm_shares m) t = Some s" "Active now s"
  shows "dl_inv (snd (serveDownload opens s m))"
proof -
  have "dl_ok (t, s)" using assms(1) map_of_SomeD [OF assms(2)] by (auto simp: dl_inv_def)
  then have t: "sh_Token s = t" and "dl_ok (t, s\<lparr>sh_Downloads := sh_Downloads s + 1\<rparr>)"
    using assms(3) by (auto simp: dl_ok_def Active_def Exhausted_def)
  with assms(1,2) set_gput [of t "s\<lparr>sh_Downloads := sh_Downloads s + 1\<rparr>" "sm_shares m"] show ?thesis
    by (auto simp: serveDownload_shares RecordDownload_def dl_inv_def)
qed

lemma dl_inv_after:
  assumes "dl_inv m" "sm_shares m1 = sm_shares m"
    "\<And>s. y = Inr s \<Longrightarrow> map_of (sm_shares m) t = Some s \<and> Active now s"
  shows "dl_inv (snd (after_check opens (y, m1)))"
  using assms dl_inv_serve [of m1 t _ now opens] dl_inv_shares [OF assms(2)]
  by (auto simp: after_check_def split: sum.split)

lemma dl_inv_step: "dl_inv m \<Longrightarrow> dl_inv (sstep sha x m)"
proof (cases x)
  case (SCreate rnd rs now p d n sz pw ex mx)
  assume inv: "dl_inv m"
  show ?thesis
  proof (cases "CreateShare sha rnd rs now p d n sz pw ex mx m")
    case (Inr y)
    obtain s m' where y: "y = (s, m')" by (cases y)
    from CreateShare_ok [OF Inr [unfolded y]] inv set_gput [of "sh_Token s" s "sm_shares m"] show ?thesis
      by (auto simp: SCreate Inr y dl_inv_def dl_ok_def)
  qed (use inv in \<open>simp add: SCreate\<close>)
next
  case (SGet now t ip)
  assume "dl_inv m"
  then show ?thesis by (cases "GetShare now t ip m") (auto simp: SGet dest: GetShare_shares dl_inv_shares)
next
  case (SCheckPassword now s pw ip)
  assume "dl_inv m"
  then show ?thesis
    by (cases "CheckPassword sha now s pw ip m") (auto simp: SCheckPassword dest: CheckPassword_shares dl_inv_shares)
next
  case (SPage now t r dl ok)
  assume "dl_inv m"
  then show ?thesis
    by (cases "page_check now t r dl m")
      (auto simp: SPage handleDownloadPage_def intro!: dl_inv_after dest: page_check_shares page_check_Inr)
next
  case (SDownload now t r pw ok)
  assume "dl_inv m"
  then show ?thesis
    by (cases "download_check sha now t r pw m")
      (auto simp: SDownload handleDownload_def intro!: dl_inv_after dest: download_check_shares download_check_Inr)
next
  case (SStop t)
  assume "dl_inv m"
  then show ?thesis
    by (auto simp: SStop StopShare_def split: option.split elim!: dl_inv_sub dest: set_gdel [THEN subsetD])
qed (auto simp: StopAll_def share_cleanup_def Let_def elim!: dl_inv_sub)

lemma dl_inv_run: "dl_inv m \<Longrightarrow> dl_inv (srun sha xs m)"
  by (induction xs arbitrary: m) (simp_all add: srun_def dl_inv_step)

lemma NewSManager_inv [simp]: "dl_inv (NewSManager n)" "shares.within (NewSManager n)"
  by (simp_all add: dl_inv_def NewSManager_def shares.within_def share_count_def MaxShares_def)

section \<open>Failed attempts\<close>

lemma CheckPassword_unbanned:
  assumes "map_of (sm_bannedUntil m) ip = None"
  shows "CheckPassword sha now s pw ip m =
    (if VerifyPassword sha s pw then (None, clearPassFails ip m) else (Some ErrInvalidPassword, recordPassFail now ip m))"
  using assms by (simp add: CheckPassword_def checkBanned_def)

definition wrong_tries :: "(bytes \<Rightarrow> bytes) \<Rightarrow> Share \<Rightarrow> string \<Rightarrow> (int \<times> string) list \<Rightarrow> SManager \<Rightarrow> SManager" where
  "wrong_tries sha s ip tries m = fold (\<lambda>(t, pw) m. snd (CheckPassword sha t s pw ip m)) tries m"

lemma wrong_tries_few:
  assumes "map_of (sm_bannedUntil m) ip = None" "fails ip (sm_passFails m) + int (length tries) < MaxPasswordAttempts"
    "\<forall>x \<in> set tries. \<not> VerifyPassword sha s (snd x)"
  shows "map_of (sm_bannedUntil (wrong_tries sha s ip tries m)) ip = None \<and>
    fails ip (sm_passFails (wrong_tries sha s ip tries m)) = fails ip (sm_passFails m) + int (length tries)"
  using assms
proof (induction tries arbitrary: m)
  case (Cons x tries)
  obtain t pw where x: "x = (t, pw)" by (cases x)
  let ?m = "recordPassFail t ip m"
  have m: "map_of (sm_bannedUntil ?m) ip = None" "fails ip (sm_passFails ?m) = fails ip (sm_passFails m) + 1"
    using Cons.prems(1,2) by (simp_all add: recordPassFail_def Let_def fails_def map_of_gput)
  with Cons.IH [of ?m] Cons.prems show ?case
    by (simp add: x wrong_tries_def CheckPassword_unbanned)
qed (simp add: wrong_tries_def)

lemma size_loop_spec:
  assumes "1024 ^ Suc e * n \<le> b" "b < 1024 ^ Suc e * (n + 1)" "1 \<le> n" "b < 2 ^ 63" "d = 1024 ^ Suc e"
  shows "\<exists>k. size_loop n d e = (1024 ^ Suc k, k) \<and> k < 6 \<and> 1024 ^ Suc k \<le> b \<and> b < 1024 ^ Suc k * 1024"
  using assms
proof (induction n d e rule: size_loop.induct)
  case (1 n d e)
  let ?P = "1024 ^ Suc e :: int"
  have P: "0 < ?P" by simp
  show ?case
  proof (cases "1024 \<le> n")
    case True
    have "?P * 1024 \<le> ?P * n" using True by (intro mult_left_mono) auto
    with 1 have Pb: "?P * 1024 \<le> b" by linarith
    have w: "wrap64 (d * 1024) = 1024 ^ Suc (Suc e)"
    proof -
      have "in64 (?P * 1024)" using Pb 1(5) P by (auto simp: in64_def intro: order.trans [of _ 0])
      then show ?thesis using 1(6) by simp
    qed
    have dm: "1024 * (n div 1024) \<le> n" "n + 1 \<le> 1024 * (n div 1024 + 1)" by presburger+
    have "?P * (1024 * (n div 1024)) \<le> ?P * n" using dm(1) by (intro mult_left_mono) auto
    moreover have P2: "1024 ^ Suc (Suc e) * x = ?P * (1024 * x)" for x :: int by simp
    ultimately have a: "1024 ^ Suc (Suc e) * (n div 1024) \<le> b" using 1(2) P2 [of "n div 1024"] by linarith
    have "?P * (n + 1) \<le> ?P * (1024 * (n div 1024 + 1))" using dm(2) by (intro mult_left_mono) auto
    with 1(3) have c: "b < 1024 ^ Suc (Suc e) * (n div 1024 + 1)" using P2 [of "n div 1024 + 1"] by linarith
    have n1: "1 \<le> n div 1024" using zdiv_mono1 [OF True, of 1024] by simp
    have "size_loop n d e = size_loop (n div 1024) (wrap64 (d * 1024)) (Suc e)"
      using True by (subst size_loop.simps) simp
    with 1(1) [OF True a c n1 1(5) w] show ?thesis by simp
  next
    case False
    have "?P * 1 \<le> ?P * n" using 1(4) by (intro mult_left_mono) auto
    with 1(2) have Pb: "?P \<le> b" by linarith
    have "?P * (n + 1) \<le> ?P * 1024" using False by (intro mult_left_mono) auto
    with 1(3) have bP: "b < ?P * 1024" by linarith
    have "e < 6"
    proof (rule ccontr)
      assume "\<not> e < 6"
      then have "(1024 :: int) ^ 7 \<le> ?P" by (intro power_increasing) auto
      with Pb 1(5) show False by simp
    qed
    moreover have "size_loop n d e = (d, e)" using False by (subst size_loop.simps) simp
    ultimately show ?thesis using Pb bP 1(6) by blast
  qed
qed

section \<open>Properties\<close>

text \<open>The number of shares never exceeds the manager's limit, whatever requests it serves, and
  \<open>CreateShare\<close> reports the limit exactly when it is reached.\<close>

theorem share_limit_kept:
  "int (length (sm_shares (srun sha xs (NewSManager n)))) \<le> (if n \<le> 0 then 64 else n) \<and>
   (CreateShare sha rnd rs now p d nm sz pw ex mx m = Inl ErrShareLimit \<longleftrightarrow> sm_maxShares m \<le> int (length (sm_shares m)))"
proof -
  have "NewShare sha rnd rs now p d nm sz pw ex mx \<noteq> Inl ErrShareLimit"
    by (auto simp: NewShare_def GenerateToken_def Let_def split: sum.split option.split)
  then show ?thesis
    using srun_within [of "NewSManager n" sha xs]
    by (auto simp: shares.within_def share_count_def NewSManager_def MaxShares_def CreateShare_def split: sum.splits)
qed

text \<open>C31: Requests served one after the other never download a share more often than its limit allows.
  Looking a share up and counting its download are two critical sections, however: when two requests
  are both admitted before the first is counted, a share with a limit of one is downloaded twice.\<close>

theorem download_limit:
  "(\<forall>(t, s) \<in> set (sm_shares (srun sha xs (NewSManager n))). 0 < sh_MaxDownloads s \<longrightarrow> sh_Downloads s \<le> sh_MaxDownloads s) \<and>
   (\<exists>m s m1 m2. dl_inv m \<and> sh_MaxDownloads s = 1 \<and>
      download_check sha 5 (sh_Token s) ''10.0.0.2:5'' [] m = (Inr s, m1) \<and>
      download_check sha 5 (sh_Token s) ''10.0.0.3:5'' [] m1 = (Inr s, m2) \<and>
      map_option sh_Downloads (map_of (sm_shares (snd (serveDownload True s (snd (serveDownload True s m2))))) (sh_Token s))
        = Some 2)"
proof (intro conjI)
  show "\<forall>(t, s) \<in> set (sm_shares (srun sha xs (NewSManager n))). 0 < sh_MaxDownloads s \<longrightarrow> sh_Downloads s \<le> sh_MaxDownloads s"
    using dl_inv_run [OF NewSManager_inv(1), of sha xs n] by (auto simp: dl_inv_def dl_ok_def)
  have "ValidateToken (replicate 43 (CHR ''A'')) = None"
    by (simp add: ValidateToken_def TokenURLLength_def url_safe_def less_eq_char_def)
  then obtain tok where v: "ValidateToken tok = None" by blast
  define s where "s = \<lparr>sh_Token = tok, sh_Path = ''/f'', sh_IsDir = False, sh_Name = ''f'', sh_Size = 1,
    sh_PasswordHash = [], sh_Salt = [], sh_HasPassword = False, sh_Expiry = 9, sh_MaxDownloads = 1, sh_Downloads = 0,
    sh_CreatedAt = 0, sh_Stopped = False\<rparr>"
  have sel: "sh_Token s = tok" "sh_HasPassword s = False" "sh_MaxDownloads s = 1" "sh_Downloads s = 0" "Active 5 s"
    by (simp_all add: s_def Active_def Expired_def Exhausted_def)
  define m where "m = (NewSManager 1)\<lparr>sm_shares := [(tok, s)]\<rparr>"
  have chk: "download_check sha 5 tok ip [] m' = (Inr s, clearTokenFails (ClientIP ip) m')"
    if "sm_shares m' = [(tok, s)]" for ip m'
    using that v by (simp add: download_check_def lookup_share_def GetShare_def sel)
  have m: "sm_shares m = [(tok, s)]" by (simp add: m_def)
  have two: "map_option sh_Downloads (map_of (sm_shares (snd (serveDownload True s (snd (serveDownload True s m2))))) tok)
      = Some 2" if "sm_shares m2 = [(tok, s)]" for m2
    using that by (simp add: serveDownload_shares RecordDownload_def sel)
  have inv: "dl_inv m" by (simp add: dl_inv_def dl_ok_def m sel)
  show "\<exists>m s m1 m2. dl_inv m \<and> sh_MaxDownloads s = 1 \<and>
      download_check sha 5 (sh_Token s) ''10.0.0.2:5'' [] m = (Inr s, m1) \<and>
      download_check sha 5 (sh_Token s) ''10.0.0.3:5'' [] m1 = (Inr s, m2) \<and>
      map_option sh_Downloads (map_of (sm_shares (snd (serveDownload True s (snd (serveDownload True s m2))))) (sh_Token s))
        = Some 2"
    unfolding sel(1)
    by (rule exI [of _ m], rule exI [of _ s], rule exI [of _ "clearTokenFails (ClientIP ''10.0.0.2:5'') m"],
        rule exI [of _ "clearTokenFails (ClientIP ''10.0.0.3:5'') (clearTokenFails (ClientIP ''10.0.0.2:5'') m)"])
      (simp only: sel inv chk m ban_ops_shares two simp_thms)
qed

text \<open>C30: A download is only ever served for a share that is in the table, neither expired nor exhausted,
  and, when it has a password, to a client that sent the password; the page handler itself serves
  only shares without one.\<close>

theorem download_authorised:
  "(fst (handleDownload sha now t r pw opens m) \<in> {RFile s, RZip s} \<longrightarrow>
     map_of (sm_shares m) t = Some s \<and> Active now s \<and> VerifyPassword sha s pw) \<and>
   (fst (handleDownloadPage now t r dl opens m) \<in> {RFile s, RZip s} \<longrightarrow>
     map_of (sm_shares m) t = Some s \<and> Active now s \<and> \<not> sh_HasPassword s)"
proof -
  have aft: "y = Inr s" if "fst (after_check opens (y, m1)) \<in> {RFile s, RZip s}"
    "\<And>x. y = Inl x \<Longrightarrow> x \<notin> {RFile s, RZip s}" for y m1
    using that by (cases y) (auto simp: after_check_def serveDownload_def Let_def split: if_splits)
  have look: "x \<noteq> RFile s \<and> x \<noteq> RZip s" if "lookup_share now t ip m = (Inl x, m1)" for x ip m1
    using that by (auto simp: lookup_share_def split: if_splits prod.splits sum.splits)
  have d: "x \<noteq> RFile s \<and> x \<noteq> RZip s" if "download_check sha now t r pw m = (Inl x, m1)" for x m1
  proof (cases "lookup_share now t (ClientIP r) m")
    case (Pair q m2)
    with that look [of "ClientIP r" _ m2] show ?thesis
      by (cases q) (auto simp: download_check_def split: prod.splits option.splits if_splits)
  qed
  have p: "x \<noteq> RFile s \<and> x \<noteq> RZip s" if "page_check now t r dl m = (Inl x, m1)" for x m1
  proof (cases "lookup_share now t (ClientIP r) m")
    case (Pair q m2)
    with that look [of "ClientIP r" _ m2] show ?thesis
      by (cases q) (auto simp: page_check_def split: if_splits)
  qed
  have D: "map_of (sm_shares m) t = Some s \<and> Active now s \<and> VerifyPassword sha s pw"
    if "fst (handleDownload sha now t r pw opens m) \<in> {RFile s, RZip s}"
  proof -
    obtain y m1 where y: "download_check sha now t r pw m = (y, m1)" by (cases "download_check sha now t r pw m")
    have "y = Inr s" by (rule aft [of y m1]) (use that y d in \<open>auto simp: handleDownload_def\<close>)
    with y show ?thesis by (intro download_check_Inr) simp
  qed
  have P: "map_of (sm_shares m) t = Some s \<and> Active now s \<and> \<not> sh_HasPassword s"
    if "fst (handleDownloadPage now t r dl opens m) \<in> {RFile s, RZip s}"
  proof -
    obtain y m1 where y: "page_check now t r dl m = (y, m1)" by (cases "page_check now t r dl m")
    have "y = Inr s" by (rule aft [of y m1]) (use that y p in \<open>auto simp: handleDownloadPage_def\<close>)
    with y show ?thesis by (intro page_check_Inr) simp
  qed
  from D P show ?thesis by blast
qed

text \<open>Ten wrong passwords in a row ban an address: for the ban's five minutes every further password, the
  right one included, is refused, and afterwards passwords are checked again. Fewer than ten do not ban.\<close>

theorem ten_wrong_passwords_ban:
  assumes "map_of (sm_bannedUntil m) ip = None" "map_of (sm_passFails m) ip = None"
    "length tries \<le> 9" "\<forall>x \<in> set (tries @ [(t, pw')]). \<not> VerifyPassword sha s (snd x)"
  shows "fst (CheckPassword sha now s pw ip (wrong_tries sha s ip tries m)) =
      (if VerifyPassword sha s pw then None else Some ErrInvalidPassword) \<and>
    (length tries = 9 \<longrightarrow> fst (CheckPassword sha now s pw ip (wrong_tries sha s ip (tries @ [(t, pw')]) m)) =
      (if now < t + BanDuration then Some ErrIPBanned
       else if VerifyPassword sha s pw then None else Some ErrInvalidPassword))"
proof -
  let ?m = "wrong_tries sha s ip tries m"
  have f0: "fails ip (sm_passFails m) = 0" using assms(2) by (simp add: fails_def)
  then have f: "map_of (sm_bannedUntil ?m) ip = None" "fails ip (sm_passFails ?m) = int (length tries)"
    using wrong_tries_few [of m ip tries sha s] assms by (auto simp: MaxPasswordAttempts_def)
  have "wrong_tries sha s ip (tries @ [(t, pw')]) m = recordPassFail t ip ?m"
    using f(1) assms(4) by (simp add: wrong_tries_def CheckPassword_unbanned)
  with f show ?thesis
    by (auto simp: CheckPassword_unbanned recordPassFail_def MaxPasswordAttempts_def Let_def CheckPassword_def
        checkBanned_def map_of_gput)
qed

text \<open>A ban never stops the guessing of tokens: \<open>GetShare\<close> does not consult the table of bans, so a banned
  address gets the same answer as any other, and the handlers' answer 429 to a lookup is unreachable.\<close>

theorem ban_ignored_by_lookup:
  "fst (lookup_share now t ip (m\<lparr>sm_bannedUntil := b\<rparr>)) = fst (lookup_share now t ip m) \<and>
   fst (lookup_share now t ip m) \<noteq> Inl (RError 429 msg) \<and>
   fst (handleStatus now t r m) \<noteq> RError 429 msg'"
  by (simp add: lookup_share_def GetShare_def handleStatus_def split: option.split)

text \<open>Every generated token passes the server's own validation: 43 characters of the URL-safe alphabet.\<close>

theorem generated_token_valid:
  assumes "length b = TokenLength"
  shows "\<exists>t. GenerateToken (Some b) = Inr t \<and> ValidateToken t = None"
  using assms RawURLEncode_safe [of _ b] length_RawURLEncode [of b]
  by (auto simp: GenerateToken_def ValidateToken_def TokenURLLength_def TokenLength_def)

text \<open>\<open>humanizeSize\<close> returns for every size of 64 bits: its loop ends, its unit letter exists, its divisor is
  the unit's power of 1024 without wrap-around, and the number shown is at least 1 and below 1024.\<close>

theorem humanizeSize_returns:
  assumes "in64 b"
  shows "humanizeSize fmt1 b \<noteq> None \<and>
    (1024 \<le> b \<longrightarrow> (\<exists>k. size_loop (b div 1024) 1024 0 = (1024 ^ Suc k, k) \<and> k < 6 \<and>
       1024 ^ Suc k \<le> b \<and> b < 1024 ^ Suc k * 1024))"
proof -
  have "\<exists>k. size_loop (b div 1024) 1024 0 = (1024 ^ Suc k, k) \<and> k < 6 \<and>
       1024 ^ Suc k \<le> b \<and> b < 1024 ^ Suc k * 1024" if "1024 \<le> b"
    by (rule size_loop_spec) (use that assms in \<open>auto simp: in64_def\<close>)
  then show ?thesis by (auto simp: humanizeSize_def)
qed

section \<open>Witnesses\<close>

definition demo_share :: Share where
  "demo_share = \<lparr>sh_Token = replicate 43 (CHR ''A''), sh_Path = ''/f'', sh_IsDir = False, sh_Name = ''f'',
     sh_Size = 1, sh_PasswordHash = [49, 50, 51, 52], sh_Salt = [], sh_HasPassword = True, sh_Expiry = 1000,
     sh_MaxDownloads = 1, sh_Downloads = 0, sh_CreatedAt = 0, sh_Stopped = False\<rparr>"

definition demo_sm :: SManager where
  "demo_sm = (NewSManager 1)\<lparr>sm_shares := [(sh_Token demo_share, demo_share)]\<rparr>"

theorem download_limit_witness:
  "\<exists>s. sm_shares (srun (\<lambda>b. b) [SCreate (Some []) None 0 ''/f'' False ''f'' 1 [] 9 1] (NewSManager 1)) = [([], s)] \<and>
    sh_Downloads s \<le> 1"
proof -
  let ?m = "srun (\<lambda>b. b) [SCreate (Some []) None 0 ''/f'' False ''f'' 1 [] 9 1] (NewSManager 1)"
  obtain s where s: "sm_shares ?m = [([], s)]" "sh_MaxDownloads s = 1"
    by (simp add: srun_def CreateShare_def NewShare_def GenerateToken_def NewSManager_def)
  from conjunct1 [OF download_limit, of "\<lambda>b. b" "[SCreate (Some []) None 0 ''/f'' False ''f'' 1 [] 9 1]" 1] s
  show ?thesis by simp
qed

lemma demo_sm_simps: "sm_shares demo_sm = [(sh_Token demo_share, demo_share)]" "sm_bannedUntil demo_sm = []"
  "sm_passFails demo_sm = []" "ValidateToken (sh_Token demo_share) = None" "Active 5 demo_share"
  "sh_HasPassword demo_share = True"
  "VerifyPassword (\<lambda>b. b) demo_share ''1234''" "\<not> VerifyPassword (\<lambda>b. b) demo_share ''wrong''"
  by (simp_all add: demo_sm_def NewSManager_def ValidateToken_def TokenURLLength_def url_safe_def less_eq_char_def
      demo_share_def Active_def Expired_def Exhausted_def VerifyPassword_def HashPassword_def)

theorem download_authorised_witness:
  "fst (handleDownload (\<lambda>b. b) 5 (sh_Token demo_share) ''10.0.0.2:5'' ''1234'' True demo_sm) = RFile demo_share \<and>
    map_of (sm_shares demo_sm) (sh_Token demo_share) = Some demo_share"
proof -
  have "fst (handleDownload (\<lambda>b. b) 5 (sh_Token demo_share) ''10.0.0.2:5'' ''1234'' True demo_sm) = RFile demo_share"
    using demo_sm_simps
    by (simp add: handleDownload_def download_check_def lookup_share_def GetShare_def CheckPassword_unbanned
        clearTokenFails_def after_check_def serveDownload_def Let_def) (simp add: demo_share_def)
  with conjunct1 [OF download_authorised, of "\<lambda>b. b" 5 "sh_Token demo_share" "''10.0.0.2:5''" "''1234''" True demo_sm
      demo_share] show ?thesis by simp
qed

theorem ten_wrong_passwords_ban_witness:
  "fst (CheckPassword (\<lambda>b. b) 300000000004 demo_share ''1234'' ''ip''
      (wrong_tries (\<lambda>b. b) demo_share ''ip'' (replicate 9 (4, ''wrong'') @ [(5, ''wrong'')]) demo_sm)) = Some ErrIPBanned \<and>
    fst (CheckPassword (\<lambda>b. b) 300000000005 demo_share ''1234'' ''ip''
      (wrong_tries (\<lambda>b. b) demo_share ''ip'' (replicate 9 (4, ''wrong'') @ [(5, ''wrong'')]) demo_sm)) = None"
proof -
  have w: "\<forall>x \<in> set (replicate 9 (4, ''wrong'') @ [(5, ''wrong'')]). \<not> VerifyPassword (\<lambda>b. b) demo_share (snd x)"
    using demo_sm_simps by simp
  have b: "map_of (sm_bannedUntil demo_sm) ''ip'' = None" "map_of (sm_passFails demo_sm) ''ip'' = None"
    by (simp_all add: demo_sm_simps)
  note ban = conjunct2 [OF ten_wrong_passwords_ban [OF b _ w], rule_format]
  show ?thesis
    using ban [of 300000000004 "''1234''"] ban [of 300000000005 "''1234''"] demo_sm_simps(7)
    by (simp add: BanDuration_def)
qed

theorem generated_token_valid_witness:
  "\<exists>t. GenerateToken (Some (replicate 32 255)) = Inr t \<and> ValidateToken t = None"
  by (rule generated_token_valid) (simp add: TokenLength_def)

theorem humanizeSize_returns_witness:
  "\<exists>k. size_loop (3000000 div 1024) 1024 0 = (1024 ^ Suc k, k) \<and> 1024 ^ Suc k \<le> (3000000 :: int)"
  using humanizeSize_returns [of 3000000] by (auto simp: in64_def)

end
