(* ===== verification/GoURL.thy ===== *)
theory GoURL
  imports GoText
begin

text \<open>
  The query encoding of Go's package \<open>net/url\<close>: \<open>QueryEscape\<close>, \<open>QueryUnescape\<close> and \<open>ParseQuery\<close>, with
  the round trip and the separation lemmas that the TXT record and the connect URI rest on.
\<close>

definition unreserved :: "char \<Rightarrow> bool" where
  "unreserved c \<longleftrightarrow> (CHR ''a'' \<le> c \<and> c \<le> CHR ''z'') \<or> (CHR ''A'' \<le> c \<and> c \<le> CHR ''Z'') \<or>
     (CHR ''0'' \<le> c \<and> c \<le> CHR ''9'') \<or> c = CHR ''-'' \<or> c = CHR ''_'' \<or> c = CHR ''.'' \<or> c = CHR ''~''"

definition upper_hex :: "nat \<Rightarrow> char" where
  "upper_hex n = ''0123456789ABCDEF'' ! n"

definition escape_char :: "char \<Rightarrow> string" where
  "escape_char c = (if unreserved c then [c] else if c = CHR '' '' then ''+''
     else [CHR ''%'', upper_hex (of_char c div 16), upper_hex (of_char c mod 16)])"

definition QueryEscape :: "string \<Rightarrow> string" where
  "QueryEscape s = concat (map escape_char s)"

definition unhex :: "char \<Rightarrow> nat option" where
  "unhex c = (let n = of_char c in
     if 48 \<le> n \<and> n \<le> 57 then Some (n - 48)
     else if 97 \<le> n \<and> n \<le> 102 then Some (n - 87)
     else if 65 \<le> n \<and> n \<le> 70 then Some (n - 55) else None)"

fun QueryUnescape :: "string \<Rightarrow> string option" where
  "QueryUnescape [] = Some []"
| "QueryUnescape (c # s) =
    (if c = CHR ''%'' then
       (case s of
          a # b # r \<Rightarrow> (case (unhex a, unhex b) of
              (Some x, Some y) \<Rightarrow> map_option ((#) (char_of (16 * x + y))) (QueryUnescape r)
            | _ \<Rightarrow> None)
        | _ \<Rightarrow> None)
     else map_option ((#) (if c = CHR ''+'' then CHR '' '' else c)) (QueryUnescape s))"

text \<open>\<open>ParseQuery\<close> as the list of its pairs in order; an error anywhere is the result None. A piece with
  a semicolon is an error, an empty piece is skipped.\<close>

fun parse_pairs :: "string list \<Rightarrow> (string \<times> string) list option" where
  "parse_pairs [] = Some []"
| "parse_pairs (p # ps) =
    (if CHR '';'' \<in> set p then None
     else if p = [] then parse_pairs ps
     else let (k, v) = (case Cut (CHR ''='') p of Some kv \<Rightarrow> kv | None \<Rightarrow> (p, [])) in
       (case (QueryUnescape k, QueryUnescape v, parse_pairs ps) of
          (Some k', Some v', Some r) \<Rightarrow> Some ((k', v') # r)
        | _ \<Rightarrow> None))"

definition ParseQuery :: "string \<Rightarrow> (string \<times> string) list option" where
  "ParseQuery q = (if q = [] then Some [] else parse_pairs (Split (CHR ''&'') q))"

section \<open>Lemmas\<close>

lemma hex_tables: "list_all (\<lambda>n. unhex (upper_hex n) = Some n) [0..<16]"
  "list_all (\<lambda>n. unreserved (upper_hex n)) [0..<16]"
  by code_simp+

lemma unhex_upper [simp]: "n < 16 \<Longrightarrow> unhex (upper_hex n) = Some n"
  by (rule all_below [OF hex_tables(1)])

lemma char_lt: "of_char c < (256 :: nat)"
  using range_nat_of_char by (metis atLeastLessThan_iff rangeI)

lemma char_div: "of_char c div 16 < (16 :: nat)"
  using char_lt [of c] by (simp add: less_mult_imp_div_less)

lemma unreserved_not: "\<not> unreserved (CHR ''%'')" "\<not> unreserved (CHR ''+'')" "\<not> unreserved (CHR ''&'')"
  "\<not> unreserved (CHR ''='')" "\<not> unreserved (CHR '';'')" "\<not> unreserved (CHR '' '')"
  by (simp_all add: unreserved_def less_eq_char_def)

lemma unescape_escape_char: "QueryUnescape (escape_char c @ s) = map_option ((#) c) (QueryUnescape s)"
proof (cases "unreserved c")
  case True
  then have "c \<noteq> CHR ''%''" "c \<noteq> CHR ''+''" using unreserved_not by auto
  with True show ?thesis by (simp add: escape_char_def)
next
  case False
  then show ?thesis using char_div [of c] by (simp add: escape_char_def)
qed

lemma Unescape_Escape [simp]: "QueryUnescape (QueryEscape s) = Some s"
  by (induction s) (simp_all add: QueryEscape_def unescape_escape_char)

lemma upper_hex_set: "n < 16 \<Longrightarrow> unreserved (upper_hex n)"
  by (rule all_below [OF hex_tables(2)])

lemma QueryEscape_chars: "c \<in> set (QueryEscape s) \<Longrightarrow> unreserved c \<or> c = CHR ''%'' \<or> c = CHR ''+''"
proof (induction s)
  case (Cons a s)
  have "c \<in> set (escape_char a) \<Longrightarrow> unreserved c \<or> c = CHR ''%'' \<or> c = CHR ''+''"
    using char_div [of a] by (auto simp: escape_char_def upper_hex_set split: if_splits)
  with Cons show ?case by (auto simp: QueryEscape_def)
qed (simp add: QueryEscape_def)

lemma QueryEscape_not: "CHR ''&'' \<notin> set (QueryEscape s)" "CHR ''='' \<notin> set (QueryEscape s)"
  "CHR '';'' \<notin> set (QueryEscape s)"
  using QueryEscape_chars unreserved_not by fastforce+

lemma QueryEscape_Nil [simp]: "QueryEscape s = [] \<longleftrightarrow> s = []"
  by (cases s) (auto simp: QueryEscape_def escape_char_def)

text \<open>A text without a percent or a plus sign is its own decoding.\<close>

lemma Unescape_plain: "CHR ''%'' \<notin> set s \<Longrightarrow> CHR ''+'' \<notin> set s \<Longrightarrow> QueryUnescape s = Some s"
  by (induction s) auto

end
