(* ===== verification/Discovery.thy ===== *)
theory Discovery
  imports GoURL GoIP "HOL-Library.Product_Lexorder"
begin

text \<open>
  Peer discovery: the TXT record (\<open>core/discovery/txt.go\<close>), the device table with its events and its
  reaper (\<open>core/discovery/device.go\<close>, \<open>core/discovery/discovery.go\<close>), the liveness prober
  (\<open>core/discovery/prober.go\<close>) and the local addresses (\<open>core/discovery/ips.go\<close>). The table holds
  pointers, and the first event of a device carries the pointer itself, so devices live in a heap.
  Clock readings, resolved addresses and probe outcomes are arguments; zeroconf is not modelled.
\<close>

section \<open>The TXT record\<close>

definition txtVersion :: string where "txtVersion = ''1''"
definition ProtoVersion :: string where "ProtoVersion = ''lanos/1.0''"

record TXTRecord =
  tx_TxtVersion :: string
  tx_Proto :: string
  tx_Platform :: string
  tx_Port :: int
  tx_PubHash :: string
  tx_DeviceName :: string
  tx_IPVersion :: string

datatype TXTError = ErrNilConfig | ErrIPVer | ErrPort | ErrEmptyPubHash | ErrPortSyntax | ErrDeviceName
  | ErrMissingField string | ErrTxtVersion | ErrProto | ErrPubHashLength | ErrPubHashHex

text \<open>The configuration's port and device name and the identity's hash (\<open>None\<close>: nil pointer).\<close>

definition BuildTXT :: "string \<Rightarrow> (int \<times> string) option \<Rightarrow> string option \<Rightarrow> string \<Rightarrow> TXTError + string list" where
  "BuildTXT goos cfg ident ipVer = (case (cfg, ident) of
      (Some (port, name), Some pubHash) \<Rightarrow>
        if ipVer \<noteq> ''4'' \<and> ipVer \<noteq> ''6'' \<and> ipVer \<noteq> ''46'' then Inl ErrIPVer
        else if port \<le> 0 \<or> 65535 < port then Inl ErrPort
        else if pubHash = [] then Inl ErrEmptyPubHash
        else Inr [''txt-ver='' @ txtVersion, ''proto='' @ ProtoVersion, ''platform='' @ goos,
          ''port='' @ Itoa port, ''pk-hash='' @ pubHash, ''device-name='' @ QueryEscape name, ''ip-ver='' @ ipVer]
    | _ \<Rightarrow> Inl ErrNilConfig)"

definition set_field :: "string \<Rightarrow> string \<Rightarrow> TXTRecord \<Rightarrow> TXTError + TXTRecord" where
  "set_field key val r =
    (if key = ''txt-ver'' then Inr (r\<lparr>tx_TxtVersion := val\<rparr>)
     else if key = ''proto'' then Inr (r\<lparr>tx_Proto := val\<rparr>)
     else if key = ''platform'' then Inr (r\<lparr>tx_Platform := val\<rparr>)
     else if key = ''port'' then (case Atoi val of None \<Rightarrow> Inl ErrPortSyntax | Some p \<Rightarrow> Inr (r\<lparr>tx_Port := p\<rparr>))
     else if key = ''pk-hash'' then Inr (r\<lparr>tx_PubHash := val\<rparr>)
     else if key = ''device-name'' then
       (case QueryUnescape val of None \<Rightarrow> Inl ErrDeviceName | Some n \<Rightarrow> Inr (r\<lparr>tx_DeviceName := n\<rparr>))
     else if key = ''ip-ver'' then Inr (r\<lparr>tx_IPVersion := val\<rparr>)
     else Inr r)"

fun txt_lines :: "string list \<Rightarrow> string list \<Rightarrow> TXTRecord \<Rightarrow> TXTError + string list \<times> TXTRecord" where
  "txt_lines [] seen r = Inr (seen, r)"
| "txt_lines (l # ls) seen r = (case Cut (CHR ''='') l of
      None \<Rightarrow> txt_lines ls seen r
    | Some (key, val) \<Rightarrow>
        if key = [] then txt_lines ls seen r
        else (case set_field key val r of
            Inl e \<Rightarrow> Inl e
          | Inr r' \<Rightarrow> txt_lines ls (key # seen) r'))"

definition required_fields :: "string list" where
  "required_fields = [''txt-ver'', ''proto'', ''platform'', ''port'', ''pk-hash'', ''ip-ver'']"

definition lower_hex :: "char \<Rightarrow> bool" where
  "lower_hex c \<longleftrightarrow> (CHR ''0'' \<le> c \<and> c \<le> CHR ''9'') \<or> (CHR ''a'' \<le> c \<and> c \<le> CHR ''f'')"

definition ParseTXT :: "string list \<Rightarrow> TXTError + TXTRecord" where
  "ParseTXT ls =
    (case txt_lines ls [] \<lparr>tx_TxtVersion = [], tx_Proto = [], tx_Platform = [], tx_Port = 0, tx_PubHash = [],
          tx_DeviceName = [], tx_IPVersion = []\<rparr> of
       Inl e \<Rightarrow> Inl e
     | Inr (seen, r) \<Rightarrow>
       (case List.find (\<lambda>k. k \<notin> set seen) required_fields of
          Some k \<Rightarrow> Inl (ErrMissingField k)
        | None \<Rightarrow>
          if tx_TxtVersion r \<noteq> txtVersion then Inl ErrTxtVersion
          else if \<not> HasPrefix (tx_Proto r) ''lanos/'' then Inl ErrProto
          else if tx_IPVersion r \<noteq> ''4'' \<and> tx_IPVersion r \<noteq> ''6'' \<and> tx_IPVersion r \<noteq> ''46'' then Inl ErrIPVer
          else if length (tx_PubHash r) \<noteq> 32 then Inl ErrPubHashLength
          else if \<exists>c \<in> set (tx_PubHash r). \<not> lower_hex c then Inl ErrPubHashHex
          else if tx_Port r \<le> 0 \<or> 65535 < tx_Port r then Inl ErrPort
          else Inr r))"

section \<open>Devices\<close>

definition StatusOnline :: string where "StatusOnline = ''online''"
definition StatusGray :: string where "StatusGray = ''gray''"

record Device =
  dv_ID :: string
  dv_Name :: string
  dv_Platform :: string
  dv_Port :: int
  dv_PubHash :: string
  dv_IPVersion :: string
  dv_IPv4 :: "string list"
  dv_IPv6 :: "string list"
  dv_HostName :: string
  dv_FirstSeen :: int
  dv_LastSeen :: int
  dv_Status :: string

definition IsSelf :: "string \<Rightarrow> Device option \<Rightarrow> bool" where
  "IsSelf localPubHash d = (case d of None \<Rightarrow> False | Some dev \<Rightarrow> dv_PubHash dev = localPubHash)"

definition SortDevices :: "Device list \<Rightarrow> Device list" where
  "SortDevices ds = sort_key (\<lambda>d. (dv_Name d, dv_ID d)) ds"

text \<open>The canonical text of each address that is not nil, without duplicates, sorted.\<close>

definition ipsToStrings :: "IP option list \<Rightarrow> string list" where
  "ipsToStrings ips = sort (remdups (map IP_String (concat (map (\<lambda>x. case x of None \<Rightarrow> [] | Some ip \<Rightarrow> [ip]) ips))))"

section \<open>The device table\<close>

datatype EventType = EventOnline | EventOffline | EventUpdate

text \<open>An event's device: a pointer into the heap, or a copy.\<close>

datatype EvDevice = Ptr nat | Snap Device

definition offlineTimeout :: int where "offlineTimeout = 30 * 1000000000"
definition eventBufferSize :: nat where "eventBufferSize = 64"

record Disc =
  dc_self :: string
  dc_devices :: "(string, nat) gomap"
  dc_heap :: "Device list"
  dc_events :: "(EventType \<times> EvDevice) list"

definition NewDisc :: "string \<Rightarrow> Disc" where
  "NewDisc pubHash = \<lparr>dc_self = pubHash, dc_devices = [], dc_heap = [], dc_events = []\<rparr>"

definition emit :: "EventType \<times> EvDevice \<Rightarrow> Disc \<Rightarrow> Disc" where
  "emit ev d = (if length (dc_events d) < eventBufferSize then d\<lparr>dc_events := dc_events d @ [ev]\<rparr> else d)"

definition announced :: "TXTRecord \<Rightarrow> string list \<Rightarrow> string list \<Rightarrow> string \<Rightarrow> int \<Rightarrow> Device \<Rightarrow> Device \<times> bool" where
  "announced rec ipv4 ipv6 host now dev =
    (let dev1 = dev\<lparr>dv_Name := tx_DeviceName rec, dv_Platform := tx_Platform rec, dv_Port := tx_Port rec,
           dv_IPVersion := tx_IPVersion rec, dv_IPv4 := ipv4, dv_IPv6 := ipv6, dv_HostName := host\<rparr>;
         changed = (dv_Name dev \<noteq> tx_DeviceName rec \<or> dv_Platform dev \<noteq> tx_Platform rec \<or>
           dv_Port dev \<noteq> tx_Port rec \<or> dv_IPVersion dev \<noteq> tx_IPVersion rec \<or> dv_IPv4 dev \<noteq> ipv4 \<or>
           dv_IPv6 dev \<noteq> ipv6 \<or> dv_HostName dev \<noteq> host);
         dev2 = dev1\<lparr>dv_LastSeen := now\<rparr>
     in if dv_Status dev2 = StatusGray then (dev2\<lparr>dv_Status := StatusOnline\<rparr>, True) else (dev2, changed))"

definition handleEntry ::
  "int \<Rightarrow> (string list \<times> IP option list \<times> IP option list \<times> string) option \<Rightarrow> Disc \<Rightarrow> Disc" where
  "handleEntry now entry d = (case entry of
      None \<Rightarrow> d
    | Some (txt, ips4, ips6, host) \<Rightarrow>
      (case ParseTXT txt of
         Inl e \<Rightarrow> d
       | Inr rec \<Rightarrow>
         if tx_PubHash rec = dc_self d then d
         else
           let ipv4 = ipsToStrings ips4; ipv6 = ipsToStrings ips6; pid = tx_PubHash rec in
           (case map_of (dc_devices d) pid of
              None \<Rightarrow>
                let dev = \<lparr>dv_ID = pid, dv_Name = tx_DeviceName rec, dv_Platform = tx_Platform rec,
                      dv_Port = tx_Port rec, dv_PubHash = pid, dv_IPVersion = tx_IPVersion rec,
                      dv_IPv4 = ipv4, dv_IPv6 = ipv6, dv_HostName = host, dv_FirstSeen = now,
                      dv_LastSeen = now, dv_Status = StatusOnline\<rparr>;
                    a = length (dc_heap d)
                in emit (EventOnline, Ptr a)
                     (d\<lparr>dc_heap := dc_heap d @ [dev], dc_devices := gput pid a (dc_devices d)\<rparr>)
            | Some a \<Rightarrow>
                let (dev, changed) = announced rec ipv4 ipv6 host now (dc_heap d ! a);
                    d' = d\<lparr>dc_heap := (dc_heap d)[a := dev]\<rparr>
                in if changed then emit (EventUpdate, Snap dev) d' else d')))"

definition stale :: "int \<Rightarrow> Disc \<Rightarrow> nat \<Rightarrow> bool" where
  "stale now d a \<longleftrightarrow> dv_LastSeen (dc_heap d ! a) < now - offlineTimeout"

definition reap :: "int \<Rightarrow> Disc \<Rightarrow> Disc" where
  "reap now d =
    (let dropped = map snd (filter (\<lambda>(i, a). stale now d a) (dc_devices d));
         d' = d\<lparr>dc_devices := filter (\<lambda>(i, a). \<not> stale now d a) (dc_devices d)\<rparr>
     in fold (\<lambda>a. emit (EventOffline, Snap (dc_heap d ! a))) dropped d')"

definition Devices :: "Disc \<Rightarrow> Device list" where
  "Devices d = SortDevices (map (\<lambda>(i, a). dc_heap d ! a) (dc_devices d))"

definition DeviceCount :: "Disc \<Rightarrow> nat" where
  "DeviceCount d = length (dc_devices d)"

definition snapshot :: "string \<Rightarrow> Disc \<Rightarrow> Device option" where
  "snapshot i d = map_option (\<lambda>a. dc_heap d ! a) (map_of (dc_devices d) i)"

definition setStatus :: "string \<Rightarrow> string \<Rightarrow> Disc \<Rightarrow> Disc" where
  "setStatus i status d = (case map_of (dc_devices d) i of
      None \<Rightarrow> d
    | Some a \<Rightarrow>
        if dv_Status (dc_heap d ! a) = status then d
        else let dev = (dc_heap d ! a)\<lparr>dv_Status := status\<rparr>
          in emit (EventUpdate, Snap dev) (d\<lparr>dc_heap := (dc_heap d)[a := dev]\<rparr>))"

section \<open>The prober\<close>

definition maxProbeFailures :: nat where "maxProbeFailures = 3"

record Prober =
  pr_disc :: Disc
  pr_failures :: "(string, nat) gomap"

definition newProber :: "Disc \<Rightarrow> Prober" where
  "newProber d = \<lparr>pr_disc = d, pr_failures = []\<rparr>"

definition failures :: "string \<Rightarrow> Prober \<Rightarrow> nat" where
  "failures i p = (case map_of (pr_failures p) i of None \<Rightarrow> 0 | Some n \<Rightarrow> n)"

definition onSuccess :: "string \<Rightarrow> Prober \<Rightarrow> Prober" where
  "onSuccess i p =
    (let had = failures i p; p1 = p\<lparr>pr_failures := gdel i (pr_failures p)\<rparr> in
     if had = 0 then p1
     else (case snapshot i (pr_disc p1) of
         None \<Rightarrow> p1
       | Some dev \<Rightarrow> if dv_Status dev = StatusGray then p1\<lparr>pr_disc := setStatus i StatusOnline (pr_disc p1)\<rparr> else p1))"

definition onFailure :: "string \<Rightarrow> Prober \<Rightarrow> Prober" where
  "onFailure i p =
    (let count = failures i p + 1; p1 = p\<lparr>pr_failures := gput i count (pr_failures p)\<rparr> in
     if count < maxProbeFailures then p1 else p1\<lparr>pr_disc := setStatus i StatusGray (pr_disc p1)\<rparr>)"

definition probeOne :: "bool \<Rightarrow> string \<Rightarrow> Prober \<Rightarrow> Prober" where
  "probeOne ok i p = (if ok then onSuccess i p else onFailure i p)"

definition isIPv6 :: "string \<Rightarrow> bool" where
  "isIPv6 s \<longleftrightarrow> colon \<in> set s"

definition peerAddr :: "string \<Rightarrow> int \<Rightarrow> string" where
  "peerAddr ip port = (if isIPv6 ip then ''['' @ ip @ '']:'' @ Itoa port else ip @ '':'' @ Itoa port)"

definition peerURLs :: "Device \<Rightarrow> string list" where
  "peerURLs dev = map (\<lambda>ip. ''http://'' @ peerAddr ip (dv_Port dev) @ ''/ping'') (dv_IPv4 dev @ dv_IPv6 dev)"

text \<open>\<open>answers u\<close>: what the request for \<open>u\<close> yields, a status code or none.\<close>

definition ping :: "(string \<Rightarrow> int option) \<Rightarrow> Device \<Rightarrow> bool" where
  "ping answers dev = list_ex (\<lambda>u. case answers u of None \<Rightarrow> False | Some c \<Rightarrow> 200 \<le> c \<and> c < 300) (peerURLs dev)"

section \<open>Local addresses\<close>

record Iface =
  if_Name :: string
  if_Up :: bool
  if_Loopback :: bool
  if_Broadcast :: bool
  if_PointToPoint :: bool
  if_MTU :: int
  if_Hardware :: string
  if_Addrs :: "IP option list option"

text \<open>\<open>net.Interfaces\<close> yields the list, or fails (\<open>None\<close>), and so does \<open>Addrs\<close> of each interface.\<close>

definition iface_ips :: "Iface \<Rightarrow> IP list" where
  "iface_ips f = (case if_Addrs f of None \<Rightarrow> [] | Some xs \<Rightarrow> concat (map (\<lambda>x. case x of None \<Rightarrow> [] | Some ip \<Rightarrow> [ip]) xs))"

definition localUnicastIPs :: "Iface list option \<Rightarrow> IP list" where
  "localUnicastIPs ifs = (case ifs of None \<Rightarrow> []
    | Some fs \<Rightarrow> concat (map (\<lambda>f. if \<not> if_Up f \<or> if_Loopback f then []
        else filter (\<lambda>ip. \<not> IsLoopback ip) (iface_ips f)) fs))"

definition detectIPVersion :: "Iface list option \<Rightarrow> string" where
  "detectIPVersion ifs =
    (let usable = filter (\<lambda>ip. \<not> IsLoopback ip \<and> \<not> IsLinkLocalUnicast ip \<and> \<not> IsLinkLocalMulticast ip) (localUnicastIPs ifs);
         has4 = list_ex (\<lambda>ip. To4 ip \<noteq> None) usable;
         has6 = list_ex (\<lambda>ip. To4 ip = None \<and> IsGlobalUnicast ip) usable
     in if has4 \<and> has6 then ''46'' else if has6 then ''6'' else ''4'')"

fun dedup_from :: "string list \<Rightarrow> string list \<Rightarrow> string list" where
  "dedup_from seen [] = []"
| "dedup_from seen (s # ss) = (if s \<in> set seen then dedup_from seen ss else s # dedup_from (s # seen) ss)"

definition dedupStrings :: "string list \<Rightarrow> string list" where
  "dedupStrings xs = dedup_from [] xs"

definition LocalSourceIPs :: "Iface list option \<Rightarrow> string list" where
  "LocalSourceIPs ifs = (case ifs of None \<Rightarrow> []
    | Some fs \<Rightarrow> dedupStrings (concat (map (\<lambda>f. if \<not> if_Up f then []
        else map (\<lambda>ip. case To4 ip of Some v4 \<Rightarrow> IP_String v4 | None \<Rightarrow> IP_String ip)
               (filter (\<lambda>ip. \<not> IsMulticast ip) (iface_ips f))) fs)))"

record InterfaceInfo =
  ii_Name :: string
  ii_Flags :: "string list"
  ii_IPv4 :: "string list"
  ii_IPv6 :: "string list"
  ii_MTU :: int
  ii_Hardware :: string

definition Interfaces :: "Iface list option \<Rightarrow> InterfaceInfo list" where
  "Interfaces ifs = (case ifs of None \<Rightarrow> []
    | Some fs \<Rightarrow> map (\<lambda>f.
        let ips = filter (\<lambda>ip. \<not> IsMulticast ip) (iface_ips f) in
        \<lparr>ii_Name = if_Name f,
         ii_Flags = (if if_Up f then [''up''] else []) @ (if if_Loopback f then [''loopback''] else []) @
           (if if_Broadcast f then [''broadcast''] else []) @ (if if_PointToPoint f then [''pointtopoint''] else []),
         ii_IPv4 = concat (map (\<lambda>ip. case To4 ip of Some v4 \<Rightarrow> [IP_String v4] | None \<Rightarrow> []) ips),
         ii_IPv6 = map IP_String (filter (\<lambda>ip. To4 ip = None) ips),
         ii_MTU = if_MTU f, ii_Hardware = if_Hardware f\<rparr>) fs)"

definition localIPv4Strings :: "Iface list option \<Rightarrow> string list" where
  "localIPv4Strings ifs = dedupStrings (map IP_String
     (filter (\<lambda>ip. To4 ip \<noteq> None \<and> \<not> IsLinkLocalUnicast ip) (localUnicastIPs ifs)))"

definition localIPv6Strings :: "Iface list option \<Rightarrow> string list" where
  "localIPv6Strings ifs = dedupStrings (map IP_String
     (filter (\<lambda>ip. To4 ip = None \<and> IsGlobalUnicast ip) (localUnicastIPs ifs)))"

definition localHostname :: "string option \<Rightarrow> string" where
  "localHostname host = TrimSuffix (case host of None \<Rightarrow> ''lanos-host'' | Some h \<Rightarrow> if h = [] then ''lanos-host'' else h) ''.''"

definition Self :: "string \<Rightarrow> string option \<Rightarrow> Iface list option \<Rightarrow> int \<Rightarrow> (int \<times> string) option \<Rightarrow>
    string option \<Rightarrow> Device option" where
  "Self platform host ifs now cfg ident = (case (cfg, ident) of
      (Some (port, name), Some pubHash) \<Rightarrow> Some \<lparr>dv_ID = pubHash, dv_Name = name, dv_Platform = platform,
         dv_Port = port, dv_PubHash = pubHash, dv_IPVersion = detectIPVersion ifs,
         dv_IPv4 = localIPv4Strings ifs, dv_IPv6 = localIPv6Strings ifs, dv_HostName = localHostname host,
         dv_FirstSeen = now, dv_LastSeen = now, dv_Status = StatusOnline\<rparr>
    | _ \<Rightarrow> None)"

section \<open>Runs\<close>

text \<open>An announcement, a sweep of the reaper, the outcome of one probe, and a subscriber taking an event.\<close>

datatype dop = DEntry int "(string list \<times> IP option list \<times> IP option list \<times> string) option" | DReap int
  | DProbe bool string | DTake

fun dstep :: "dop \<Rightarrow> Prober \<Rightarrow> Prober" where
  "dstep (DEntry now e) p = p\<lparr>pr_disc := handleEntry now e (pr_disc p)\<rparr>"
| "dstep (DReap now) p = p\<lparr>pr_disc := reap now (pr_disc p)\<rparr>"
| "dstep (DProbe ok i) p = probeOne ok i p"
| "dstep DTake p = p\<lparr>pr_disc := (pr_disc p)\<lparr>dc_events := tl (dc_events (pr_disc p))\<rparr>\<rparr>"

definition drun :: "dop list \<Rightarrow> Prober \<Rightarrow> Prober" where
  "drun xs p = fold dstep xs p"

section \<open>The table's invariant\<close>

definition entry_ok :: "string \<Rightarrow> Device list \<Rightarrow> (string \<Rightarrow> nat) \<Rightarrow> string \<times> nat \<Rightarrow> bool" where
  "entry_ok self heap fl ia \<longleftrightarrow> snd ia < length heap \<and> (let dev = heap ! snd ia in
     dv_ID dev = fst ia \<and> dv_PubHash dev = fst ia \<and> fst ia \<noteq> self \<and> length (fst ia) = 32 \<and>
     (dv_Status dev = StatusOnline \<or> (dv_Status dev = StatusGray \<and> maxProbeFailures \<le> fl (fst ia))))"

definition disc_ok :: "(string \<Rightarrow> nat) \<Rightarrow> Disc \<Rightarrow> bool" where
  "disc_ok fl d \<longleftrightarrow> gwf (dc_devices d) \<and> distinct (map snd (dc_devices d)) \<and>
     (\<forall>ia \<in> set (dc_devices d). entry_ok (dc_self d) (dc_heap d) fl ia) \<and> length (dc_events d) \<le> eventBufferSize"

lemma status_ne [simp]: "StatusOnline \<noteq> StatusGray" "StatusGray \<noteq> StatusOnline"
  by (simp_all add: StatusOnline_def StatusGray_def)

lemma emit_simps [simp]: "dc_devices (emit ev d) = dc_devices d" "dc_heap (emit ev d) = dc_heap d"
  "dc_self (emit ev d) = dc_self d"
  by (simp_all add: emit_def)

lemma emit_len: "length (dc_events d) \<le> eventBufferSize \<Longrightarrow> length (dc_events (emit ev d)) \<le> eventBufferSize"
  by (simp add: emit_def)

lemma emit_ok [simp]: "disc_ok fl d \<Longrightarrow> disc_ok fl (emit ev d)"
  by (simp add: disc_ok_def emit_len)

lemma emits_ok: "disc_ok fl d \<Longrightarrow> disc_ok fl (fold (\<lambda>a. emit (f a)) xs d)"
  by (induction xs arbitrary: d) simp_all

lemma emits_simps: "dc_devices (fold (\<lambda>a. emit (f a)) xs d) = dc_devices d" "dc_heap (fold (\<lambda>a. emit (f a)) xs d) = dc_heap d"
  "dc_self (fold (\<lambda>a. emit (f a)) xs d) = dc_self d"
  by (induction xs arbitrary: d) simp_all

text \<open>Writing one device in place: the others keep their state, as no two entries share an address.\<close>

lemma heap_update_ok:
  assumes ok: "disc_ok fl d" and i: "map_of (dc_devices d) i = Some a"
    and dev: "dv_ID dev = i" "dv_PubHash dev = i"
      "dv_Status dev = StatusOnline \<or> (dv_Status dev = StatusGray \<and> maxProbeFailures \<le> fl' i)"
    and others: "\<And>j. j \<noteq> i \<Longrightarrow> fl' j = fl j"
  shows "disc_ok fl' (d\<lparr>dc_heap := (dc_heap d)[a := dev]\<rparr>)"
proof -
  have mem: "(i, a) \<in> set (dc_devices d)" using i by (rule map_of_SomeD)
  have "entry_ok (dc_self d) ((dc_heap d)[a := dev]) fl' (j, b)" if jb: "(j, b) \<in> set (dc_devices d)" for j b
  proof (cases "j = i")
    case True
    with jb ok i have "b = a" by (auto simp: disc_ok_def gwf_set_iff)
    with True dev ok mem show ?thesis by (auto simp: entry_ok_def disc_ok_def Let_def)
  next
    case False
    with jb mem ok have "b \<noteq> a"
      by (auto simp: disc_ok_def distinct_map dest: inj_onD [where x = "(j, b)" and y = "(i, a)"])
    with False ok jb others show ?thesis by (fastforce simp: entry_ok_def disc_ok_def Let_def)
  qed
  with ok show ?thesis by (auto simp: disc_ok_def)
qed

lemma disc_ok_weaken:
  assumes "disc_ok fl d" "\<And>i. fl i \<le> fl' i"
  shows "disc_ok fl' d"
proof -
  have "entry_ok (dc_self d) (dc_heap d) fl ia \<Longrightarrow> entry_ok (dc_self d) (dc_heap d) fl' ia" for ia
    using assms(2) [of "fst ia"] by (auto simp: entry_ok_def Let_def)
  with assms(1) show ?thesis by (auto simp: disc_ok_def)
qed

lemma entry_of: "disc_ok fl d \<Longrightarrow> map_of (dc_devices d) i = Some a \<Longrightarrow> entry_ok (dc_self d) (dc_heap d) fl (i, a)"
  by (auto simp: disc_ok_def dest: map_of_SomeD)

lemma setStatus_ok:
  assumes ok: "disc_ok fl d" and st: "st = StatusOnline \<or> (st = StatusGray \<and> maxProbeFailures \<le> fl i)"
  shows "disc_ok fl (setStatus i st d)"
proof (cases "map_of (dc_devices d) i")
  case (Some a)
  from entry_of [OF ok Some] have "dv_ID (dc_heap d ! a) = i" "dv_PubHash (dc_heap d ! a) = i"
    by (auto simp: entry_ok_def Let_def)
  then have "disc_ok fl (d\<lparr>dc_heap := (dc_heap d)[a := (dc_heap d ! a)\<lparr>dv_Status := st\<rparr>]\<rparr>)"
    using st by (intro heap_update_ok [OF ok Some]) auto
  with ok Some show ?thesis by (simp add: setStatus_def Let_def)
qed (use ok in \<open>simp add: setStatus_def\<close>)

lemma announced_simps: "announced rec v4 v6 host now dev = (dev', ch) \<Longrightarrow> dv_ID dev' = dv_ID dev \<and>
    dv_PubHash dev' = dv_PubHash dev \<and> dv_LastSeen dev' = now \<and> dv_FirstSeen dev' = dv_FirstSeen dev \<and>
    dv_Status dev' = (if dv_Status dev = StatusGray then StatusOnline else dv_Status dev)"
  by (auto simp: announced_def Let_def split: if_splits)

lemma ParseTXT_hash: "ParseTXT ls = Inr r \<Longrightarrow> length (tx_PubHash r) = 32"
  by (auto simp: ParseTXT_def split: sum.splits option.splits if_splits)

lemma handleEntry_ok:
  assumes ok: "disc_ok fl d"
  shows "disc_ok fl (handleEntry now e d)"
proof -
  have main: "disc_ok fl (handleEntry now (Some (ls, ips4, ips6, host)) d)" for ls ips4 ips6 host
  proof (cases "ParseTXT ls")
    case (Inr rec)
    let ?i = "tx_PubHash rec"
    show ?thesis
    proof (cases "?i = dc_self d")
      case False
      note len = ParseTXT_hash [OF Inr]
      show ?thesis
      proof (cases "map_of (dc_devices d) ?i")
        case None
        let ?dev = "\<lparr>dv_ID = ?i, dv_Name = tx_DeviceName rec, dv_Platform = tx_Platform rec, dv_Port = tx_Port rec,
            dv_PubHash = ?i, dv_IPVersion = tx_IPVersion rec, dv_IPv4 = ipsToStrings ips4,
            dv_IPv6 = ipsToStrings ips6, dv_HostName = host, dv_FirstSeen = now, dv_LastSeen = now,
            dv_Status = StatusOnline\<rparr>"
        let ?d = "d\<lparr>dc_heap := dc_heap d @ [?dev], dc_devices := gput ?i (length (dc_heap d)) (dc_devices d)\<rparr>"
        have old: "entry_ok (dc_self d) (dc_heap d @ [?dev]) fl ia" if "ia \<in> set (dc_devices d)" for ia
          using ok that by (auto simp: disc_ok_def entry_ok_def Let_def nth_append)
        moreover have new: "entry_ok (dc_self d) (dc_heap d @ [?dev]) fl (?i, length (dc_heap d))"
          using False len by (simp add: entry_ok_def)
        moreover have fresh: "length (dc_heap d) \<notin> snd ` set (dc_devices d)"
          using ok by (auto simp: disc_ok_def entry_ok_def)
        moreover have "gwf (dc_devices d @ [(?i, length (dc_heap d))])"
          using ok gwf_gput [of "dc_devices d" ?i "length (dc_heap d)"] by (simp add: disc_ok_def gput_absent [OF None])
        ultimately have "disc_ok fl ?d" using ok None by (auto simp: disc_ok_def gput_absent)
        then show ?thesis using Inr False None by (simp add: handleEntry_def Let_def)
      next
        case (Some a)
        obtain dev ch where an: "announced rec (ipsToStrings ips4) (ipsToStrings ips6) host now (dc_heap d ! a) = (dev, ch)"
          by (metis prod.exhaust)
        from entry_of [OF ok Some] announced_simps [OF an]
        have "disc_ok fl (d\<lparr>dc_heap := (dc_heap d)[a := dev]\<rparr>)"
          by (intro heap_update_ok [OF ok Some]) (auto simp: entry_ok_def Let_def)
        then show ?thesis using Inr False Some an by (simp add: handleEntry_def Let_def)
      qed
    qed (use ok Inr in \<open>simp add: handleEntry_def\<close>)
  qed (use ok in \<open>simp add: handleEntry_def\<close>)
  show ?thesis using main ok by (cases e) (auto simp: handleEntry_def)
qed

lemma reap_ok: "disc_ok fl d \<Longrightarrow> disc_ok fl (reap now d)"
  unfolding reap_def Let_def
  by (rule emits_ok) (auto simp: disc_ok_def gwf_filter distinct_map_filter entry_ok_def)

lemma failures_put: "failures j (p\<lparr>pr_failures := gput i n (pr_failures p)\<rparr>) = (if j = i then n else failures j p)"
  "failures j (p\<lparr>pr_disc := d, pr_failures := gput i n fs\<rparr>) =
    (if j = i then n else case map_of fs j of None \<Rightarrow> 0 | Some n \<Rightarrow> n)"
  by (simp_all add: failures_def map_of_gput)

lemma failures_del: "failures j (p\<lparr>pr_failures := gdel i (pr_failures p)\<rparr>) = (if j = i then 0 else failures j p)"
  by (simp add: failures_def map_of_gdel)

definition prober_ok :: "Prober \<Rightarrow> bool" where
  "prober_ok p \<longleftrightarrow> disc_ok (\<lambda>i. failures i p) (pr_disc p)"

lemma failures_disc [simp]: "failures i (p\<lparr>pr_disc := d\<rparr>) = failures i p"
  by (simp add: failures_def)

lemma onFailure_ok:
  assumes "prober_ok p"
  shows "prober_ok (onFailure i p)"
proof -
  let ?p = "p\<lparr>pr_failures := gput i (failures i p + 1) (pr_failures p)\<rparr>"
  have "disc_ok (\<lambda>j. failures j ?p) (pr_disc p)"
    using assms unfolding prober_ok_def by (rule disc_ok_weaken) (simp add: failures_put)
  then show ?thesis
    by (auto simp: onFailure_def Let_def prober_ok_def failures_put intro!: setStatus_ok)
qed

lemma onSuccess_ok:
  assumes "prober_ok p"
  shows "prober_ok (onSuccess i p)"
proof -
  let ?p = "p\<lparr>pr_failures := gdel i (pr_failures p)\<rparr>" and ?d = "pr_disc p"
  have ok: "disc_ok (\<lambda>j. failures j p) ?d" using assms by (simp add: prober_ok_def)
  have same: "disc_ok (\<lambda>j. failures j ?p) ?d" if "map_of (dc_devices ?d) i = None \<or>
      (\<exists>a. map_of (dc_devices ?d) i = Some a \<and> dv_Status (dc_heap ?d ! a) \<noteq> StatusGray)"
  proof -
    have "entry_ok (dc_self ?d) (dc_heap ?d) (\<lambda>j. failures j ?p) (j, a)" if ja: "(j, a) \<in> set (dc_devices ?d)" for j a
    proof -
      have "entry_ok (dc_self ?d) (dc_heap ?d) (\<lambda>j. failures j p) (j, a)" using ok ja by (auto simp: disc_ok_def)
      moreover have "map_of (dc_devices ?d) j = Some a" using ok ja by (auto simp: disc_ok_def gwf_set_iff)
      ultimately show ?thesis
        using \<open>map_of (dc_devices ?d) i = None \<or> _\<close> by (auto simp: entry_ok_def Let_def failures_del)
    qed
    with ok show ?thesis by (auto simp: disc_ok_def)
  qed
  show ?thesis
  proof (cases "map_of (dc_devices ?d) i")
    case None
    with same show ?thesis by (simp add: onSuccess_def Let_def snapshot_def prober_ok_def)
  next
    case (Some a)
    note ent = entry_of [OF ok Some]
    show ?thesis
    proof (cases "dv_Status (dc_heap ?d ! a) = StatusGray")
      case False
      with same Some show ?thesis by (simp add: onSuccess_def Let_def snapshot_def prober_ok_def)
    next
      case True
      with ent have had: "failures i p \<noteq> 0" by (auto simp: entry_ok_def Let_def maxProbeFailures_def)
      have "disc_ok (\<lambda>j. failures j ?p) (?d\<lparr>dc_heap := (dc_heap ?d)[a := (dc_heap ?d ! a)\<lparr>dv_Status := StatusOnline\<rparr>]\<rparr>)"
        using ent by (intro heap_update_ok [OF ok Some]) (auto simp: entry_ok_def Let_def failures_del)
      with had True Some show ?thesis by (simp add: onSuccess_def Let_def snapshot_def prober_ok_def setStatus_def)
    qed
  qed
qed

lemma dstep_ok: "prober_ok p \<Longrightarrow> prober_ok (dstep x p)"
proof (cases x)
  case DTake
  assume "prober_ok p"
  with DTake show ?thesis by (auto simp: prober_ok_def disc_ok_def)
qed (auto simp: prober_ok_def handleEntry_ok reap_ok probeOne_def onFailure_ok [unfolded prober_ok_def]
      onSuccess_ok [unfolded prober_ok_def])

lemma drun_ok: "prober_ok p \<Longrightarrow> prober_ok (drun xs p)"
  by (induction xs arbitrary: p) (simp_all add: drun_def dstep_ok)

lemma newProber_ok [simp]: "prober_ok (newProber (NewDisc self))"
  by (simp add: prober_ok_def newProber_def NewDisc_def disc_ok_def)

section \<open>Lookups after an operation\<close>

lemma snapshot_setStatus:
  assumes "disc_ok fl d"
  shows "map_option dv_Status (snapshot i (setStatus i st d)) = (if map_of (dc_devices d) i = None then None else Some st)"
  using entry_of [OF assms, of i]
  by (auto simp: setStatus_def snapshot_def Let_def entry_ok_def split: option.split)

lemma snapshot_None: "snapshot i d = None \<longleftrightarrow> map_of (dc_devices d) i = None"
  by (simp add: snapshot_def)

lemma online_or_gray:
  assumes "prober_ok p" "snapshot i (pr_disc p) = Some dev"
  shows "dv_Status dev = StatusOnline \<or> (dv_Status dev = StatusGray \<and> maxProbeFailures \<le> failures i p)"
  using assms entry_of [of "\<lambda>j. failures j p" "pr_disc p" i]
  by (auto simp: prober_ok_def snapshot_def entry_ok_def Let_def)

lemma probe_fail_status:
  assumes "prober_ok p" "snapshot i (pr_disc p) = Some dev"
  shows "map_option dv_Status (snapshot i (pr_disc (probeOne False i p))) =
    Some (if maxProbeFailures \<le> failures i p + 1 then StatusGray else StatusOnline)"
proof -
  have "disc_ok (\<lambda>j. failures j p) (pr_disc p)" using assms(1) by (simp add: prober_ok_def)
  from snapshot_setStatus [OF this, of i StatusGray] assms online_or_gray [OF assms]
  show ?thesis
    by (auto simp: probeOne_def onFailure_def Let_def snapshot_None [symmetric])
qed

lemma failures_DEntry [simp]: "failures i (dstep (DEntry now e) p) = failures i p"
  by simp

section \<open>Properties\<close>

text \<open>C33: The TXT record survives: whatever the device's name, what \<open>BuildTXT\<close> announces for a valid port, a hash
  of 32 lower-case hexadecimal digits and a known IP version is parsed back to the same fields.\<close>

theorem txt_roundtrip:
  assumes "0 < port" "port \<le> 65535" "length hash = 32" "\<forall>c \<in> set hash. lower_hex c"
    "ipVer \<in> {''4'', ''6'', ''46''}"
  shows "\<exists>ls. BuildTXT goos (Some (port, name)) (Some hash) ipVer = Inr ls \<and>
    ParseTXT ls = Inr \<lparr>tx_TxtVersion = ''1'', tx_Proto = ''lanos/1.0'', tx_Platform = goos, tx_Port = port,
      tx_PubHash = hash, tx_DeviceName = name, tx_IPVersion = ipVer\<rparr>"
proof -
  have port: "Atoi (Itoa port) = Some port" using assms(1,2) by (intro Atoi_Itoa) (simp add: in64_def)
  have hash: "hash \<noteq> []" using assms(3) by auto
  have build: "BuildTXT goos (Some (port, name)) (Some hash) ipVer = Inr [''txt-ver='' @ txtVersion,
      ''proto='' @ ProtoVersion, ''platform='' @ goos, ''port='' @ Itoa port, ''pk-hash='' @ hash,
      ''device-name='' @ QueryEscape name, ''ip-ver='' @ ipVer]"
    using assms(1,2,5) hash by (auto simp: BuildTXT_def)
  have lower: "\<not> (\<exists>c \<in> set hash. \<not> lower_hex c)" using assms(4) by blast
  have "ParseTXT [''txt-ver='' @ txtVersion, ''proto='' @ ProtoVersion, ''platform='' @ goos, ''port='' @ Itoa port,
      ''pk-hash='' @ hash, ''device-name='' @ QueryEscape name, ''ip-ver='' @ ipVer] =
    Inr \<lparr>tx_TxtVersion = ''1'', tx_Proto = ''lanos/1.0'', tx_Platform = goos, tx_Port = port,
      tx_PubHash = hash, tx_DeviceName = name, tx_IPVersion = ipVer\<rparr>"
    using assms(1,2,3,5) port lower
    by (simp add: ParseTXT_def set_field_def required_fields_def txtVersion_def ProtoVersion_def)
  with build show ?thesis by blast
qed

text \<open>C32: The device table in every run of announcements, sweeps and probes: each listed device sits under its own
  public-key hash of 32 characters, is never the local device, is gray only after three recorded probe
  failures and online otherwise; no device is listed twice, and the list is sorted by name and id.\<close>

theorem device_table_invariant:
  assumes "p = drun xs (newProber (NewDisc self))" "dev \<in> set (Devices (pr_disc p))"
  shows "dv_ID dev = dv_PubHash dev \<and> dv_ID dev \<noteq> self \<and> length (dv_ID dev) = 32 \<and>
    (dv_Status dev = StatusOnline \<or> (dv_Status dev = StatusGray \<and> 3 \<le> failures (dv_ID dev) p)) \<and>
    distinct (map dv_ID (Devices (pr_disc p))) \<and>
    sorted (map (\<lambda>d. (dv_Name d, dv_ID d)) (Devices (pr_disc p)))"
proof -
  have self: "dc_self (pr_disc (drun ys q)) = dc_self (pr_disc q)" for ys q
  proof (induction ys arbitrary: q)
    case (Cons y ys)
    have e: "dc_self (handleEntry now e d) = dc_self d" for now e d
      by (auto simp: handleEntry_def Let_def split: option.split sum.split prod.split)
    have s: "dc_self (setStatus i st d) = dc_self d" for i st d
      by (simp add: setStatus_def Let_def split: option.split)
    have "dc_self (pr_disc (dstep y q)) = dc_self (pr_disc q)"
      by (cases y) (auto simp: e s reap_def Let_def emits_simps probeOne_def onSuccess_def onFailure_def split: option.split)
    with Cons show ?case by (simp add: drun_def)
  qed (simp add: drun_def)
  have ok: "disc_ok (\<lambda>j. failures j p) (pr_disc p)" using drun_ok [OF newProber_ok] assms(1) by (simp add: prober_ok_def)
  have slf: "dc_self (pr_disc p) = self" using assms(1) self by (simp add: newProber_def NewDisc_def)
  let ?d = "pr_disc p"
  have ids: "map (\<lambda>(i, a). dv_ID (dc_heap ?d ! a)) (dc_devices ?d) = map fst (dc_devices ?d)"
    using ok by (intro map_cong refl) (auto simp: disc_ok_def entry_ok_def Let_def)
  have perm: "mset (map dv_ID (Devices ?d)) = mset (map fst (dc_devices ?d))"
    by (simp add: Devices_def SortDevices_def ids [symmetric] image_mset.compositionality comp_def split_def)
  have "distinct (map dv_ID (Devices ?d))"
    using ok mset_eq_imp_distinct_iff [OF perm] by (simp add: disc_ok_def gwf_def)
  moreover have "sorted (map (\<lambda>d. (dv_Name d, dv_ID d)) (Devices ?d))"
    by (simp add: Devices_def SortDevices_def sorted_sort_key)
  moreover obtain i a where "(i, a) \<in> set (dc_devices ?d)" "dev = dc_heap ?d ! a"
    using assms(2) by (auto simp: Devices_def SortDevices_def)
  then have "dv_ID dev = i" "dv_PubHash dev = i" "i \<noteq> self" "length i = 32"
    "dv_Status dev = StatusOnline \<or> (dv_Status dev = StatusGray \<and> maxProbeFailures \<le> failures i p)"
    using ok slf by (auto simp: disc_ok_def entry_ok_def Let_def)
  ultimately show ?thesis by (simp add: maxProbeFailures_def)
qed

text \<open>Liveness: in every run, a failed probe of a listed device leaves it gray exactly when it is at least the
  third recorded failure, and a successful one leaves it online with its failures forgotten.\<close>

theorem gray_after_three:
  assumes "p = drun xs (newProber (NewDisc self))" "snapshot i (pr_disc p) = Some dev"
  shows "map_option dv_Status (snapshot i (pr_disc (probeOne False i p))) =
      Some (if 3 \<le> failures i p + 1 then StatusGray else StatusOnline) \<and>
    failures i (probeOne False i p) = failures i p + 1 \<and>
    map_option dv_Status (snapshot i (pr_disc (probeOne True i p))) = Some StatusOnline \<and>
    failures i (probeOne True i p) = 0"
proof -
  have ok: "prober_ok p" using drun_ok assms(1) by simp
  then have "disc_ok (\<lambda>j. failures j p) (pr_disc p)" by (simp add: prober_ok_def)
  note st = snapshot_setStatus [OF this, of i]
  have s: "map_option dv_Status (snapshot i (pr_disc (probeOne True i p))) = Some StatusOnline"
    using assms(2) st [of StatusOnline] online_or_gray [OF ok assms(2)]
    by (auto simp: probeOne_def onSuccess_def Let_def snapshot_None [symmetric] maxProbeFailures_def split: option.split)
  have f: "failures i (onSuccess i p) = 0"
    by (auto simp: onSuccess_def Let_def failures_del split: option.split)
  show ?thesis
    using probe_fail_status [OF ok assms(2)] s f
    by (simp add: maxProbeFailures_def probeOne_def onFailure_def Let_def failures_put)
qed

text \<open>The reaper removes exactly the devices whose last announcement is more than thirty seconds old and
  leaves the others as they were; as long as the event channel has room it emits one offline event with
  a copy of each removed device, and nothing else.\<close>

theorem reap_exact:
  assumes "gwf (dc_devices d)"
  shows "(\<forall>i. snapshot i (reap now d) = (case snapshot i d of None \<Rightarrow> None
      | Some dev \<Rightarrow> if dv_LastSeen dev < now - 30000000000 then None else Some dev)) \<and>
    (length (dc_events d) + length (dc_devices d) \<le> 64 \<longrightarrow>
      dc_events (reap now d) = dc_events d @ map (\<lambda>dev. (EventOffline, Snap dev))
        (filter (\<lambda>dev. dv_LastSeen dev < now - 30000000000) (map (\<lambda>(i, a). dc_heap d ! a) (dc_devices d))))"
proof -
  have ev: "dc_events (fold (\<lambda>a. emit (f a)) xs q) = dc_events q @ map f xs"
    if "length (dc_events q) + length xs \<le> 64" for f and xs :: "nat list" and q
    using that by (induction xs arbitrary: q) (simp_all add: emit_def eventBufferSize_def)
  have dels: "map_of (filter (\<lambda>(i, a). \<not> P a) xs) i = (case map_of xs i of None \<Rightarrow> None | Some a \<Rightarrow> if P a then None else Some a)"
    if "gwf xs" for xs :: "(string \<times> nat) list" and P i
    using that
  proof (induction xs)
    case (Cons x xs)
    have "k \<notin> fst ` set xs \<Longrightarrow> map_of xs k = None" for k by (simp add: map_of_eq_None_iff)
    with Cons show ?case by (cases x) (auto split: option.split)
  qed simp
  have "length (dc_events d) + length (filter (\<lambda>(i, a). stale now d a) (dc_devices d)) \<le> 64"
    if "length (dc_events d) + length (dc_devices d) \<le> 64"
    using that length_filter_le [of "\<lambda>(i, a). stale now d a" "dc_devices d"] by linarith
  moreover have "filter (\<lambda>dev. dv_LastSeen dev < now - 30000000000) (map (\<lambda>(i, a). dc_heap d ! a) (dc_devices d)) =
      map (\<lambda>a. dc_heap d ! a) (map snd (filter (\<lambda>(i, a). stale now d a) (dc_devices d)))"
    by (induction "dc_devices d") (auto simp: stale_def offlineTimeout_def filter_map comp_def split_def)
  ultimately show ?thesis
    using assms
    by (auto simp: reap_def Let_def snapshot_def emits_simps dels stale_def offlineTimeout_def ev comp_def split: option.split)
qed


lemma handleEntry_keeps: "snapshot i d \<noteq> None \<Longrightarrow> snapshot i (handleEntry now e d) \<noteq> None"
  by (auto simp: handleEntry_def snapshot_None Let_def map_of_gput split: option.split sum.split prod.split)

text \<open>An announcement does not reset the failure count: in every run, once two probes in a row have failed, the
  device is announced again and again as online, yet the next failed probe alone makes it gray, where a
  device without failures would survive two of them.\<close>

theorem announcement_keeps_failures:
  assumes "p = drun xs (newProber (NewDisc self))" "snapshot i (pr_disc p) \<noteq> None" "2 \<le> failures i p"
  shows "map_option dv_Status (snapshot i (pr_disc (probeOne False i (dstep (DEntry now e) p)))) = Some StatusGray"
proof -
  have ok: "prober_ok (dstep (DEntry now e) p)" by (rule dstep_ok) (simp add: assms(1) drun_ok)
  obtain dev where "snapshot i (pr_disc (dstep (DEntry now e) p)) = Some dev"
    using handleEntry_keeps [OF assms(2), of now e] by auto
  from probe_fail_status [OF ok this] show ?thesis
    using assms(3) by (simp del: dstep.simps add: maxProbeFailures_def)
qed

lemma drun_append: "drun (xs @ ys) p = drun ys (drun xs p)"
  by (simp add: drun_def)

text \<open>The online event is not a snapshot: it carries the pointer to the entry, so a subscriber that reads it after
  three failed probes finds the device of its online event gray.\<close>

theorem online_event_aliased:
  assumes "prober_ok p" "ParseTXT ls = Inr r" "tx_PubHash r \<noteq> dc_self (pr_disc p)"
    "snapshot (tx_PubHash r) (pr_disc p) = None" "failures (tx_PubHash r) p = 0" "length (dc_events (pr_disc p)) < 64"
    "q = drun [DEntry now (Some (ls, ips4, ips6, host)), DProbe False (tx_PubHash r), DProbe False (tx_PubHash r),
      DProbe False (tx_PubHash r)] p"
  shows "\<exists>a. (EventOnline, Ptr a) \<in> set (dc_events (pr_disc q)) \<and> a < length (dc_heap (pr_disc q)) \<and>
    dv_ID (dc_heap (pr_disc q) ! a) = tx_PubHash r \<and> dv_Status (dc_heap (pr_disc q) ! a) = StatusGray"
proof -
  have "map_of (dc_devices (pr_disc p)) (tx_PubHash r) = None" using assms(4) by (simp add: snapshot_None)
  then show ?thesis
    using assms(2,3,5,6)
    by (intro exI [of _ "length (dc_heap (pr_disc p))"])
      (simp add: assms(7) drun_def handleEntry_def Let_def probeOne_def onFailure_def failures_put maxProbeFailures_def
        setStatus_def map_of_gput emit_def eventBufferSize_def)
qed

lemma dedup_from_set: "set (dedup_from seen xs) = set xs - set seen"
  by (induction seen xs rule: dedup_from.induct) auto

lemma dedup_from_eq: "dedup_from seen xs = filter (\<lambda>s. s \<notin> set seen) (rev (remdups (rev xs)))"
proof (induction xs arbitrary: seen rule: rev_induct)
  case (snoc x xs)
  have app: "dedup_from seen (ys @ [x]) = dedup_from seen ys @ (if x \<in> set seen \<union> set ys then [] else [x])" for ys
    by (induction seen ys rule: dedup_from.induct) auto
  show ?case
    by (auto simp: app snoc)
qed simp

text \<open>The one-pass duplicate filter with its set of seen strings equals the reference: each address once, at its
  first occurrence, in the order of the interfaces; so no local source address is listed twice.\<close>

theorem dedup_reference:
  "dedupStrings xs = rev (remdups (rev xs)) \<and> set (dedupStrings xs) = set xs \<and>
   distinct (LocalSourceIPs ifs) \<and> distinct (localIPv4Strings ifs) \<and> distinct (localIPv6Strings ifs)"
proof -
  have eq: "dedupStrings ys = rev (remdups (rev ys))" for ys
    by (simp add: dedupStrings_def dedup_from_eq)
  show ?thesis
    by (auto simp: eq LocalSourceIPs_def localIPv4Strings_def localIPv6Strings_def split: option.split)
qed


section \<open>A concrete network\<close>

definition demo_hash :: string where "demo_hash = ''0123456789abcdef0123456789abcdef''"

definition demo_txt :: "string list" where
  "demo_txt = [''txt-ver=1'', ''proto=lanos/1.0'', ''platform=linux'', ''port=5533'',
     ''pk-hash=0123456789abcdef0123456789abcdef'', ''device-name=den+pc'', ''ip-ver=4'']"

definition demo_rec :: TXTRecord where
  "demo_rec = \<lparr>tx_TxtVersion = ''1'', tx_Proto = ''lanos/1.0'', tx_Platform = ''linux'', tx_Port = 5533,
     tx_PubHash = demo_hash, tx_DeviceName = ''den pc'', tx_IPVersion = ''4''\<rparr>"

definition demo_entry :: dop where "demo_entry = DEntry 7 (Some (demo_txt, [], [], ''den''))"

definition demo_dev :: Device where
  "demo_dev = \<lparr>dv_ID = demo_hash, dv_Name = ''den pc'', dv_Platform = ''linux'', dv_Port = 5533,
     dv_PubHash = demo_hash, dv_IPVersion = ''4'', dv_IPv4 = [], dv_IPv6 = [], dv_HostName = ''den'',
     dv_FirstSeen = 7, dv_LastSeen = 7, dv_Status = StatusOnline\<rparr>"

lemma demo_parse: "ParseTXT demo_txt = Inr demo_rec"
  by code_simp

definition demo_net :: Prober where
  "demo_net = \<lparr>pr_disc = \<lparr>dc_self = ''me'', dc_devices = [(demo_hash, 0)], dc_heap = [demo_dev],
     dc_events = [(EventOnline, Ptr 0)]\<rparr>, pr_failures = []\<rparr>"

lemma demo_run: "demo_net = drun [demo_entry] (newProber (NewDisc ''me''))"
  by (simp add: demo_net_def drun_def demo_entry_def handleEntry_def demo_parse Let_def newProber_def NewDisc_def
    emit_def eventBufferSize_def demo_rec_def demo_dev_def demo_hash_def ipsToStrings_def)

lemma demo_snapshot: "snapshot demo_hash (pr_disc demo_net) = Some demo_dev"
  by (simp add: demo_net_def snapshot_def)

definition demo_failing :: Prober where
  "demo_failing = demo_net\<lparr>pr_failures := [(demo_hash, 2)]\<rparr>"

lemma demo_failing_run: "demo_failing = drun [demo_entry, DProbe False demo_hash, DProbe False demo_hash] (newProber (NewDisc ''me''))"
  using drun_append [of "[demo_entry]" "[DProbe False demo_hash, DProbe False demo_hash]"]
  by (simp add: demo_run [symmetric])
    (simp add: demo_failing_def demo_net_def drun_def probeOne_def onFailure_def Let_def failures_def maxProbeFailures_def)

lemma txt_roundtrip_witness:
  "\<exists>ls. BuildTXT ''linux'' (Some (5533, ''den = pc'')) (Some ''0123456789abcdef0123456789abcdef'') ''46'' = Inr ls \<and>
    ParseTXT ls = Inr \<lparr>tx_TxtVersion = ''1'', tx_Proto = ''lanos/1.0'', tx_Platform = ''linux'', tx_Port = 5533,
      tx_PubHash = ''0123456789abcdef0123456789abcdef'', tx_DeviceName = ''den = pc'', tx_IPVersion = ''46''\<rparr>"
  by (rule txt_roundtrip) (simp_all add: lower_hex_def less_eq_char_def)

lemma device_table_invariant_witness:
  "dv_ID demo_dev = dv_PubHash demo_dev \<and> dv_ID demo_dev \<noteq> ''me'' \<and> length (dv_ID demo_dev) = 32 \<and>
    (dv_Status demo_dev = StatusOnline \<or> (dv_Status demo_dev = StatusGray \<and> 3 \<le> failures (dv_ID demo_dev) demo_net)) \<and>
    distinct (map dv_ID (Devices (pr_disc demo_net))) \<and>
    sorted (map (\<lambda>d. (dv_Name d, dv_ID d)) (Devices (pr_disc demo_net)))"
  by (rule device_table_invariant [OF demo_run]) (simp add: demo_net_def Devices_def SortDevices_def)

lemma gray_after_three_witness:
  "map_option dv_Status (snapshot demo_hash (pr_disc (probeOne False demo_hash demo_failing))) =
      Some (if 3 \<le> failures demo_hash demo_failing + 1 then StatusGray else StatusOnline) \<and>
    failures demo_hash (probeOne False demo_hash demo_failing) = failures demo_hash demo_failing + 1 \<and>
    map_option dv_Status (snapshot demo_hash (pr_disc (probeOne True demo_hash demo_failing))) = Some StatusOnline \<and>
    failures demo_hash (probeOne True demo_hash demo_failing) = 0"
  by (rule gray_after_three [OF demo_failing_run, where dev = demo_dev]) (simp add: demo_failing_def demo_snapshot)

lemma reap_exact_witness:
  "snapshot demo_hash (reap 40000000000 (pr_disc demo_net)) = None \<and>
    dc_events (reap 40000000000 (pr_disc demo_net)) = [(EventOnline, Ptr 0), (EventOffline, Snap demo_dev)]"
proof -
  have wf: "gwf (dc_devices (pr_disc demo_net))" by (simp add: demo_net_def)
  have "length (dc_events (pr_disc demo_net)) + length (dc_devices (pr_disc demo_net)) \<le> 64" by (simp add: demo_net_def)
  with reap_exact [OF wf, of 40000000000] show ?thesis
    by (auto simp: demo_snapshot) (simp_all add: demo_net_def demo_dev_def)
qed

lemma announcement_keeps_failures_witness:
  "map_option dv_Status (snapshot demo_hash (pr_disc (probeOne False demo_hash
    (dstep (DEntry 9 (Some (demo_txt, [], [], ''den''))) demo_failing)))) = Some StatusGray"
  by (rule announcement_keeps_failures [OF demo_failing_run])
    (simp_all add: demo_failing_def demo_snapshot, simp add: failures_def)

definition demo_probed :: Prober where
  "demo_probed = drun [DEntry 7 (Some (demo_txt, [], [], ''den'')), DProbe False (tx_PubHash demo_rec),
     DProbe False (tx_PubHash demo_rec), DProbe False (tx_PubHash demo_rec)] (newProber (NewDisc ''me''))"

lemma online_event_aliased_witness:
  "\<exists>a. (EventOnline, Ptr a) \<in> set (dc_events (pr_disc demo_probed)) \<and> a < length (dc_heap (pr_disc demo_probed)) \<and>
    dv_ID (dc_heap (pr_disc demo_probed) ! a) = tx_PubHash demo_rec \<and>
    dv_Status (dc_heap (pr_disc demo_probed) ! a) = StatusGray"
  by (rule online_event_aliased [OF newProber_ok demo_parse _ _ _ _ demo_probed_def])
    (simp_all add: demo_rec_def demo_hash_def newProber_def NewDisc_def snapshot_def failures_def)

end
