(* ===== verification/AddrSelect.thy ===== *)
theory AddrSelect
  imports GoIP "HOL-Library.Product_Lexorder"
begin

text \<open>
  Address selection (\<open>core/net/addrselect.go\<close>): destinations a peer advertises are paired with the
  best local source and sorted, after RFC 6724. The pointer to the chosen source is an option; a byte
  or rune loop is a recursive function over the text.
\<close>

unbundle bit_operations_syntax

section \<open>Scopes and precedences\<close>

datatype scope = scopeLinkLocal | scopeLoopback | scopeGlobal | scopeOther

definition ipScope :: "IP \<Rightarrow> scope" where
  "ipScope ip = (if IsLoopback ip then scopeLoopback
     else if IsLinkLocalUnicast ip \<or> IsLinkLocalMulticast ip then scopeLinkLocal
     else if IsGlobalUnicast ip then scopeGlobal else scopeOther)"

definition isULA :: "IP \<Rightarrow> bool" where
  "isULA ip \<longleftrightarrow> To4 ip = None \<and> length ip = 16 \<and> ip ! 0 AND 0xfe = 0xfc"

definition is6to4 :: "IP \<Rightarrow> bool" where
  "is6to4 ip \<longleftrightarrow> To4 ip = None \<and> length ip = 16 \<and> ip ! 0 = 0x20 \<and> ip ! 1 = 0x02"

definition isTeredo :: "IP \<Rightarrow> bool" where
  "isTeredo ip \<longleftrightarrow> To4 ip = None \<and> length ip = 16 \<and> ip ! 0 = 0x20 \<and> ip ! 1 = 0x01 \<and> ip ! 2 = 0 \<and> ip ! 3 = 0"

definition ipPrecedence :: "IP \<Rightarrow> int" where
  "ipPrecedence ip = (if To4 ip \<noteq> None then 20
     else if IsLoopback ip then 50
     else if IP_Equal ip IPv6unspecified then 40
     else if isULA ip then 7
     else if isTeredo ip then 5
     else if is6to4 ip then 30
     else 40)"

section \<open>Sources and destinations\<close>

record sourceIP =
  si_IP :: IP
  si_scope :: scope
  si_isV6 :: bool

record dstEntry =
  de_ip :: IP
  de_zone :: string
  de_isV6 :: bool
  de_scope :: scope
  de_prec :: int
  de_src :: "sourceIP option"
  de_port :: int

definition splitZone :: "string \<Rightarrow> string \<times> string" where
  "splitZone s = (case Cut (CHR ''%'') s of Some (a, z) \<Rightarrow> (a, z) | None \<Rightarrow> (s, []))"

definition stripZone :: "string \<Rightarrow> string" where
  "stripZone s = (case Cut (CHR ''%'') s of Some (a, z) \<Rightarrow> a | None \<Rightarrow> s)"

definition parse_source :: "string \<Rightarrow> sourceIP list" where
  "parse_source raw =
    (let ipStr = TrimSpace raw in
     if ipStr = [] then []
     else case ParseIP (stripZone ipStr) of
       None \<Rightarrow> []
     | Some ip \<Rightarrow>
       if \<not> (IsLinkLocalUnicast ip \<or> IsLinkLocalMulticast ip \<or> IsLoopback ip \<or> IsInterfaceLocalMulticast ip) \<and>
         IsMulticast ip then []
       else [\<lparr>si_IP = ip, si_scope = ipScope ip, si_isV6 = (To4 ip = None)\<rparr>])"

definition parseSources :: "string list \<Rightarrow> sourceIP list" where
  "parseSources sources = concat (map parse_source sources)"

definition normalizeIP :: "IP \<Rightarrow> bool \<Rightarrow> bytes" where
  "normalizeIP ip v6 =
    (if v6 then (if length ip = 4 then v4InV6Prefix @ ip else ip)
     else case To4 ip of Some v4 \<Rightarrow> v4 | None \<Rightarrow> ip)"

text \<open>The inner loop shifts its mask right until it meets the first differing bit.\<close>

function mask_bits :: "8 word \<Rightarrow> 8 word \<Rightarrow> nat" where
  "mask_bits x m = (if m = 0 then 0 else if x AND m \<noteq> 0 then 0 else Suc (mask_bits x (drop_bit 1 m)))"
  by pat_completeness auto
termination
proof (relation "measure (\<lambda>(x, m). unat m)", goal_cases)
  case (2 x m)
  have "unat m \<noteq> 0" using 2(1) by (simp add: unat_eq_0)
  then show ?case by (simp add: drop_bit_eq_div unat_div)
qed simp

declare mask_bits.simps [simp del]

fun common_bits :: "bytes \<Rightarrow> bytes \<Rightarrow> nat" where
  "common_bits (a # as) (b # bs) = (if a = b then 8 + common_bits as bs else mask_bits (a XOR b) 0x80)"
| "common_bits _ _ = 0"

definition commonPrefix :: "IP \<Rightarrow> IP \<Rightarrow> bool \<Rightarrow> nat" where
  "commonPrefix a b v6 = (let aa = normalizeIP a v6; bb = normalizeIP b v6 in
     if length aa \<noteq> length bb then 0 else common_bits aa bb)"

definition compareSource :: "dstEntry \<Rightarrow> sourceIP \<Rightarrow> sourceIP \<Rightarrow> int" where
  "compareSource dst best candidate =
    (if si_scope candidate = de_scope dst \<and> si_scope best \<noteq> de_scope dst then - 1
     else if si_scope candidate \<noteq> de_scope dst \<and> si_scope best = de_scope dst then 1
     else if de_scope dst = scopeGlobal \<and> si_scope candidate = scopeGlobal \<and> si_scope best \<noteq> scopeGlobal then - 1
     else if de_scope dst = scopeGlobal \<and> si_scope candidate \<noteq> scopeGlobal \<and> si_scope best = scopeGlobal then 1
     else
       let c = commonPrefix (de_ip dst) (si_IP candidate) (de_isV6 dst);
           b = commonPrefix (de_ip dst) (si_IP best) (de_isV6 dst)
       in if c \<noteq> b then int c - int b else 0)"

definition compatible :: "dstEntry \<Rightarrow> sourceIP \<Rightarrow> bool" where
  "compatible dst s \<longleftrightarrow> si_isV6 s = de_isV6 dst \<and>
     \<not> (de_scope dst = scopeLinkLocal \<and> si_scope s \<noteq> scopeLinkLocal \<and> si_scope s \<noteq> scopeLoopback)"

fun pick_from :: "dstEntry \<Rightarrow> sourceIP option \<Rightarrow> sourceIP list \<Rightarrow> sourceIP option" where
  "pick_from dst best [] = best"
| "pick_from dst best (s # ss) =
    (if \<not> compatible dst s then pick_from dst best ss
     else case best of
       None \<Rightarrow> pick_from dst (Some s) ss
     | Some b \<Rightarrow> pick_from dst (Some (if compareSource dst b s < 0 then s else b)) ss)"

definition pickSource :: "dstEntry \<Rightarrow> sourceIP list \<Rightarrow> sourceIP option" where
  "pickSource dst sources = pick_from dst None sources"

definition scoped :: "dstEntry \<Rightarrow> bool" where
  "scoped e = (case de_src e of None \<Rightarrow> False | Some s \<Rightarrow> si_scope s = de_scope e)"

definition compareDst :: "dstEntry \<Rightarrow> dstEntry \<Rightarrow> int" where
  "compareDst a b =
    (let aReach = (de_src a \<noteq> None); bReach = (de_src b \<noteq> None) in
     if aReach \<noteq> bReach then (if aReach then - 1 else 1)
     else if scoped a \<noteq> scoped b then (if scoped a then - 1 else 1)
     else
       let prefixes = (case (de_src a, de_src b) of
             (Some s, Some t) \<Rightarrow>
               int (commonPrefix (de_ip b) (si_IP t) (de_isV6 b)) - int (commonPrefix (de_ip a) (si_IP s) (de_isV6 a))
           | _ \<Rightarrow> 0)
       in if prefixes \<noteq> 0 then prefixes
          else if de_prec a \<noteq> de_prec b then de_prec b - de_prec a
          else if de_isV6 a \<noteq> de_isV6 b then (if de_isV6 a then - 1 else 1)
          else 0)"

section \<open>Host and port\<close>

fun port_loop :: "nat \<Rightarrow> string \<Rightarrow> nat option" where
  "port_loop n [] = Some n"
| "port_loop n (c # cs) = (case digit_val c of
      None \<Rightarrow> None
    | Some d \<Rightarrow> let n' = n * 10 + d in if 65535 < n' then None else port_loop n' cs)"

definition parsePort :: "string \<Rightarrow> nat option" where
  "parsePort s = (if s = [] then None else port_loop 0 s)"

definition splitHostPort :: "string \<Rightarrow> (string \<times> string \<times> int) option" where
  "splitHostPort raw0 =
    (let raw = TrimSpace raw0 in
     if raw = [] then None
     else if HasPrefix raw ''['' then
       (case Cut (CHR '']'') raw of
          None \<Rightarrow> None
        | Some (h, rest) \<Rightarrow>
          let host = drop 1 h in
          if rest = [] then Some (stripZone host, [], 0)
          else if \<not> HasPrefix rest '':'' then None
          else (case parsePort (drop 1 rest) of
              None \<Rightarrow> None
            | Some p \<Rightarrow> let (ip, zone) = splitZone host in Some (ip, zone, int p)))
     else (case SplitHostPort raw of
         Some (host, ps) \<Rightarrow>
           let (ip, zone) = splitZone host in
           (case parsePort ps of None \<Rightarrow> None | Some p \<Rightarrow> Some (ip, zone, int p))
       | None \<Rightarrow> let (ip, zone) = splitZone raw in Some (ip, zone, 0)))"

definition joinHostPort :: "IP \<Rightarrow> string \<Rightarrow> int \<Rightarrow> string" where
  "joinHostPort ip zone port =
    (if port = 0 then
       (if To4 ip \<noteq> None then IP_String ip
        else if zone \<noteq> [] then IP_String ip @ ''%'' @ zone else IP_String ip)
     else if To4 ip \<noteq> None then IP_String ip @ '':'' @ Itoa port
     else if zone \<noteq> [] then ''['' @ IP_String ip @ ''%'' @ zone @ '']:'' @ Itoa port
     else ''['' @ IP_String ip @ '']:'' @ Itoa port)"

section \<open>Selection\<close>

record AddrPair =
  ap_Destination :: string
  ap_Source :: string
  ap_IsV6 :: bool

definition dst_entry :: "sourceIP list \<Rightarrow> int \<Rightarrow> string \<Rightarrow> dstEntry list" where
  "dst_entry parsedSrc port raw = (case splitHostPort raw of
      None \<Rightarrow> []
    | Some (ip, zone, p) \<Rightarrow>
      (case ParseIP ip of
         None \<Rightarrow> []
       | Some ipAddr \<Rightarrow>
         let e = \<lparr>de_ip = ipAddr, de_zone = zone, de_isV6 = (To4 ipAddr = None), de_scope = ipScope ipAddr,
                  de_prec = ipPrecedence ipAddr, de_src = None, de_port = (if p = 0 then port else p)\<rparr>
         in [e\<lparr>de_src := pickSource e parsedSrc\<rparr>]))"

text \<open>\<open>sort.SliceStable\<close>, as a stable insertion sort: \<open>before x y\<close> must hold for \<open>x\<close> to overtake \<open>y\<close>.\<close>

fun insert_stable :: "('a \<Rightarrow> 'a \<Rightarrow> bool) \<Rightarrow> 'a \<Rightarrow> 'a list \<Rightarrow> 'a list" where
  "insert_stable before x [] = [x]"
| "insert_stable before x (y # ys) = (if before y x then y # insert_stable before x ys else x # y # ys)"

definition SliceStable :: "('a \<Rightarrow> 'a \<Rightarrow> bool) \<Rightarrow> 'a list \<Rightarrow> 'a list" where
  "SliceStable before xs = foldr (insert_stable before) xs []"

definition SelectAddresses :: "string list \<Rightarrow> string list \<Rightarrow> int \<Rightarrow> AddrPair list" where
  "SelectAddresses dsts sources port =
    (let entries = concat (map (dst_entry (parseSources sources) port) dsts);
         ranked = SliceStable (\<lambda>a b. compareDst a b < 0) entries
     in concat (map (\<lambda>e. case de_src e of
          None \<Rightarrow> []
        | Some s \<Rightarrow> [\<lparr>ap_Destination = joinHostPort (de_ip e) (de_zone e) (de_port e),
            ap_Source = IP_String (si_IP s), ap_IsV6 = de_isV6 e\<rparr>]) ranked))"

definition SelectFirst :: "string list \<Rightarrow> string list \<Rightarrow> int \<Rightarrow> string" where
  "SelectFirst dsts sources port =
    (case SelectAddresses dsts sources port of [] \<Rightarrow> [] | p # ps \<Rightarrow> ap_Destination p)"


section \<open>Common prefixes\<close>

definition byte_bits :: "8 word \<Rightarrow> bool list" where
  "byte_bits x = map (bit x) [7, 6, 5, 4, 3, 2, 1, 0]"

definition ip_bits :: "bytes \<Rightarrow> bool list" where
  "ip_bits bs = concat (map byte_bits bs)"

definition agree :: "'a list \<Rightarrow> 'a list \<Rightarrow> nat" where
  "agree xs ys = length (takeWhile (\<lambda>(x, y). x = y) (zip xs ys))"

lemma length_byte_bits [simp]: "length (byte_bits x) = 8"
  by (simp add: byte_bits_def)

lemma mask_bits_eq: "mask_bits x 0x80 = length (takeWhile Not (byte_bits x))"
  by (simp add: mask_bits.simps byte_bits_def bit_iff_and_push_bit_not_eq_0)

lemma agree_simps [simp]: "agree [] ys = 0" "agree (x # xs) (y # ys) = (if x = y then Suc (agree xs ys) else 0)"
  by (simp_all add: agree_def)

lemma agree_append: "length xs = length ys \<Longrightarrow>
    agree (xs @ us) (ys @ vs) = (if xs = ys then length xs + agree us vs else agree xs ys)"
  by (induction xs ys rule: list_induct2) auto

lemma agree_bits: "agree (byte_bits a) (byte_bits b) = length (takeWhile Not (byte_bits (a XOR b)))"
  by (simp add: byte_bits_def bit_xor_iff)

lemma byte_bits_inj: "byte_bits a = byte_bits b \<longleftrightarrow> a = b"
proof
  assume e: "byte_bits a = byte_bits b"
  show "a = b"
  proof (rule bit_word_eqI)
    fix n
    assume "n < LENGTH(8)"
    then have "n \<in> set [7, 6, 5, 4, 3, 2, 1, 0]" by auto
    then show "bit a n = bit b n" using e by (auto simp: byte_bits_def)
  qed
qed simp

lemma common_bits_eq: "length as = length bs \<Longrightarrow> common_bits as bs = agree (ip_bits as) (ip_bits bs)"
proof (induction as bs rule: list_induct2)
  case (Cons a as b bs)
  then show ?case
    by (simp add: ip_bits_def agree_append agree_bits mask_bits_eq byte_bits_inj)
qed (simp add: ip_bits_def)

lemma length_ip_bits [simp]: "length (ip_bits bs) = 8 * length bs"
  by (induction bs) (simp_all add: ip_bits_def)

lemma agree_le: "agree xs ys \<le> length xs"
  unfolding agree_def by (rule order_trans [OF length_takeWhile_le]) simp

text \<open>The prefix length that ranks addresses is right: for two addresses of one family the byte loop with its
  shifted mask counts exactly the leading bits the addresses share, and so at most 32 or 128.\<close>

theorem common_prefix_reference:
  assumes "length (normalizeIP a v6) = length (normalizeIP b v6)"
  shows "commonPrefix a b v6 = agree (ip_bits (normalizeIP a v6)) (ip_bits (normalizeIP b v6)) \<and>
    commonPrefix a b v6 \<le> 8 * length (normalizeIP a v6)"
  using assms agree_le [of "ip_bits (normalizeIP a v6)" "ip_bits (normalizeIP b v6)"]
  by (simp add: commonPrefix_def Let_def common_bits_eq)


section \<open>The order of destinations\<close>

definition dst_key :: "dstEntry \<Rightarrow> bool \<times> bool \<times> int \<times> int \<times> bool" where
  "dst_key e = (de_src e = None, \<not> scoped e,
     (case de_src e of None \<Rightarrow> 0 | Some s \<Rightarrow> - int (commonPrefix (de_ip e) (si_IP s) (de_isV6 e))),
     - de_prec e, \<not> de_isV6 e)"

lemma compareDst_key: "compareDst a b < 0 \<longleftrightarrow> dst_key a < dst_key b"
  by (auto simp: compareDst_def dst_key_def Let_def less_prod_def scoped_def split: option.splits)

lemma insert_stable_key: "insert_stable (\<lambda>a b. f a < f b) x ys = insort_key f x ys" for f :: "'a \<Rightarrow> 'k :: linorder"
  by (induction ys) auto

lemma SliceStable_key: "SliceStable (\<lambda>a b. f a < f b) xs = sort_key f xs" for f :: "'a \<Rightarrow> 'k :: linorder"
proof -
  have "insert_stable (\<lambda>a b. f a < f b) = insort_key f" by (intro ext) (rule insert_stable_key)
  then show ?thesis by (simp add: SliceStable_def sort_key_def)
qed

text \<open>C13: The chain of comparisons in \<open>compareDst\<close> is consistent: it is negative exactly on a lexicographic key
  (reachable, scope matched, long prefix, high precedence, IPv6), so sorting with it yields the stable
  sort by that key, whatever stable algorithm the library uses.\<close>

theorem destinations_sorted_by_key:
  "(compareDst a b < 0 \<longleftrightarrow> dst_key a < dst_key b) \<and>
   SliceStable (\<lambda>a b. compareDst a b < 0) es = sort_key dst_key es"
  by (simp add: compareDst_key SliceStable_key)

section \<open>The chosen source\<close>

definition src_key :: "dstEntry \<Rightarrow> sourceIP \<Rightarrow> bool \<times> nat" where
  "src_key dst s = (si_scope s \<noteq> de_scope dst, commonPrefix (de_ip dst) (si_IP s) (de_isV6 dst))"

lemma compareSource_key: "compareSource dst b s < 0 \<longleftrightarrow> src_key dst s < src_key dst b"
  by (auto simp: compareSource_def src_key_def Let_def less_prod_def)

lemma pick_from_None: "pick_from dst b ss = None \<longleftrightarrow> b = None \<and> (\<forall>s \<in> set ss. \<not> compatible dst s)"
  by (induction dst b ss rule: pick_from.induct) (auto split: option.splits)

lemma pick_from_least:
  "pick_from dst best ss = Some s \<Longrightarrow>
    (s \<in> set ss \<and> compatible dst s \<or> best = Some s) \<and>
    (\<forall>t. best = Some t \<or> t \<in> set ss \<and> compatible dst t \<longrightarrow> src_key dst s \<le> src_key dst t)"
proof (induction ss arbitrary: best)
  case (Cons x ss)
  show ?case
  proof (cases "compatible dst x")
    case False
    with Cons show ?thesis by auto
  next
    case True
    show ?thesis
    proof (cases best)
      case None
      with True Cons.prems Cons.IH [of "Some x"] show ?thesis by auto
    next
      case (Some b)
      let ?n = "if src_key dst x < src_key dst b then x else b"
      have "src_key dst ?n \<le> src_key dst x" "src_key dst ?n \<le> src_key dst b" by auto
      moreover have "pick_from dst (Some ?n) ss = Some s" using True Some Cons.prems by (simp add: compareSource_key)
      note Cons.IH [OF this]
      ultimately show ?thesis using True Some by (auto split: if_splits)
    qed
  qed
qed simp

text \<open>The chosen source: there is none exactly when no source fits the destination, and otherwise it is a
  fitting one of the matching scope if there is one, with the \<open>shortest\<close> common prefix among those,
  where rule 9 of RFC 6724, which the code cites, asks for the longest.\<close>

theorem pick_source_shortest_prefix:
  "(pickSource dst ss = None \<longleftrightarrow> (\<forall>s \<in> set ss. \<not> compatible dst s)) \<and>
   (\<forall>s. pickSource dst ss = Some s \<longrightarrow> s \<in> set ss \<and> compatible dst s \<and>
     (\<forall>t \<in> set ss. compatible dst t \<longrightarrow>
        (si_scope t = de_scope dst \<longrightarrow> si_scope s = de_scope dst) \<and>
        ((si_scope s = de_scope dst) = (si_scope t = de_scope dst) \<longrightarrow>
          commonPrefix (de_ip dst) (si_IP s) (de_isV6 dst) \<le> commonPrefix (de_ip dst) (si_IP t) (de_isV6 dst))))"
proof -
  have "s \<in> set ss \<and> compatible dst s \<and> (\<forall>t \<in> set ss. compatible dst t \<longrightarrow> src_key dst s \<le> src_key dst t)"
    if "pickSource dst ss = Some s" for s
    using pick_from_least [of dst None ss s] that by (auto simp: pickSource_def)
  then show ?thesis
    by (auto simp: pickSource_def pick_from_None src_key_def less_eq_prod_def)
qed


section \<open>The selected pairs\<close>

text \<open>A destination that parses, with its address, zone and port.\<close>

definition dest_of :: "int \<Rightarrow> string \<Rightarrow> (IP \<times> string \<times> int) option" where
  "dest_of port raw = (case splitHostPort raw of
      None \<Rightarrow> None
    | Some (ip, zone, p) \<Rightarrow> map_option (\<lambda>a. (a, zone, if p = 0 then port else p)) (ParseIP ip))"

definition pair_of :: "IP \<times> string \<times> int \<Rightarrow> sourceIP \<Rightarrow> AddrPair" where
  "pair_of d s = (case d of (a, zone, p) \<Rightarrow>
     \<lparr>ap_Destination = joinHostPort a zone p, ap_Source = IP_String (si_IP s), ap_IsV6 = (To4 a = None)\<rparr>)"

definition fits :: "IP \<Rightarrow> sourceIP \<Rightarrow> bool" where
  "fits a s \<longleftrightarrow> si_isV6 s = (To4 a = None) \<and>
     (ipScope a = scopeLinkLocal \<longrightarrow> si_scope s = scopeLinkLocal \<or> si_scope s = scopeLoopback)"

lemma pickSource_SomeD: "pickSource dst ss = Some s \<Longrightarrow> s \<in> set ss \<and> compatible dst s"
  using pick_from_least [of dst None ss s] by (auto simp: pickSource_def)

lemma dst_entry_of: "dst_entry ss port raw = (case dest_of port raw of None \<Rightarrow> []
    | Some (a, zone, p) \<Rightarrow> let e = \<lparr>de_ip = a, de_zone = zone, de_isV6 = (To4 a = None), de_scope = ipScope a,
        de_prec = ipPrecedence a, de_src = None, de_port = p\<rparr> in [e\<lparr>de_src := pickSource e ss\<rparr>])"
  by (auto simp: dst_entry_def dest_of_def Let_def split: option.split prod.split)

lemma compatible_fits: "compatible \<lparr>de_ip = a, de_zone = zone, de_isV6 = (To4 a = None), de_scope = ipScope a,
    de_prec = ipPrecedence a, de_src = x, de_port = p\<rparr> s \<longleftrightarrow> fits a s"
  by (auto simp: compatible_def fits_def)

lemma SelectAddresses_set: "set (SelectAddresses dsts sources port) =
  (\<Union>raw \<in> set dsts. \<Union>e \<in> set (dst_entry (parseSources sources) port raw).
     case de_src e of None \<Rightarrow> {} | Some s \<Rightarrow> {pair_of (de_ip e, de_zone e, de_port e) s})"
  (is "?l = ?r")
proof -
  let ?ss = "parseSources sources"
  let ?f = "\<lambda>e. case de_src e of None \<Rightarrow> [] | Some s \<Rightarrow> [\<lparr>ap_Destination = joinHostPort (de_ip e) (de_zone e) (de_port e),
      ap_Source = IP_String (si_IP s), ap_IsV6 = de_isV6 e\<rparr>]"
  have f: "set (?f e) = (case de_src e of None \<Rightarrow> {} | Some s \<Rightarrow> {pair_of (de_ip e, de_zone e, de_port e) s})"
    if "e \<in> set (dst_entry ?ss port raw)" for e raw
    using that by (auto simp: dst_entry_of Let_def pair_of_def split: option.splits prod.splits)
  have "?l = (\<Union>e \<in> set (concat (map (dst_entry ?ss port) dsts)). set (?f e))"
    by (simp add: SelectAddresses_def compareDst_key SliceStable_key)
  also have "\<dots> = (\<Union>raw \<in> set dsts. \<Union>e \<in> set (dst_entry ?ss port raw). set (?f e))" by simp
  also have "\<dots> = ?r" by (intro SUP_cong refl f)
  finally show ?thesis .
qed

lemma selection_lemma:
  "(\<forall>pair \<in> set (SelectAddresses dsts sources port). \<exists>raw \<in> set dsts. \<exists>d s. dest_of port raw = Some d \<and>
      s \<in> set (parseSources sources) \<and> fits (fst d) s \<and> pair = pair_of d s) \<and>
   (\<forall>raw \<in> set dsts. \<forall>d s. dest_of port raw = Some d \<and> s \<in> set (parseSources sources) \<and> fits (fst d) s \<longrightarrow>
      (\<exists>t. pair_of d t \<in> set (SelectAddresses dsts sources port)))"
proof (intro conjI ballI allI impI)
  fix pair
  assume "pair \<in> set (SelectAddresses dsts sources port)"
  then obtain raw e s where raw: "raw \<in> set dsts" and e: "e \<in> set (dst_entry (parseSources sources) port raw)"
    and s: "de_src e = Some s" and pair: "pair = pair_of (de_ip e, de_zone e, de_port e) s"
    by (auto simp: SelectAddresses_set split: option.splits)
  from e obtain a zone p where d: "dest_of port raw = Some (a, zone, p)"
    by (cases "dest_of port raw") (auto simp: dst_entry_of)
  with e s have "s \<in> set (parseSources sources)" "fits a s" "pair = pair_of (a, zone, p) s"
    using pair by (auto simp: dst_entry_of Let_def compatible_fits dest!: pickSource_SomeD)
  with raw d show "\<exists>raw \<in> set dsts. \<exists>d s. dest_of port raw = Some d \<and> s \<in> set (parseSources sources) \<and>
      fits (fst d) s \<and> pair = pair_of d s"
    by fastforce
next
  fix raw d s
  assume raw: "raw \<in> set dsts" and d: "dest_of port raw = Some d \<and> s \<in> set (parseSources sources) \<and> fits (fst d) s"
  obtain a zone p where dd: "d = (a, zone, p)" by (cases d)
  let ?e = "\<lparr>de_ip = a, de_zone = zone, de_isV6 = (To4 a = None), de_scope = ipScope a,
        de_prec = ipPrecedence a, de_src = None, de_port = p\<rparr>"
  obtain t where "pickSource ?e (parseSources sources) = Some t"
    using d dd compatible_fits by (cases "pickSource ?e (parseSources sources)") (auto simp: pickSource_def pick_from_None)
  then have "pair_of d t \<in> set (SelectAddresses dsts sources port)"
    using raw d dd by (auto simp: SelectAddresses_set dst_entry_of Let_def intro!: bexI [of _ raw])
  then show "\<exists>t. pair_of d t \<in> set (SelectAddresses dsts sources port)" by blast
qed


text \<open>C34: What is offered for dialling: every pair joins a listed destination that parses with a local source that
  fits it (same family, and for a link-local destination a link-local or loopback source), and every
  destination that has a fitting source is offered; nothing is offered, and the peer is reported
  incompatible, exactly when no destination has one.\<close>

theorem selection_sound_and_complete:
  "(\<forall>pair \<in> set (SelectAddresses dsts sources port). \<exists>raw \<in> set dsts. \<exists>d s. dest_of port raw = Some d \<and>
      s \<in> set (parseSources sources) \<and> fits (fst d) s \<and> pair = pair_of d s) \<and>
   (\<forall>raw \<in> set dsts. \<forall>d s. dest_of port raw = Some d \<and> s \<in> set (parseSources sources) \<and> fits (fst d) s \<longrightarrow>
      (\<exists>t. pair_of d t \<in> set (SelectAddresses dsts sources port)))"
  by (rule selection_lemma)

section \<open>Dial addresses\<close>

lemma port_loop_parse: "parse_digits n s = Some m \<Longrightarrow> m \<le> 65535 \<Longrightarrow> port_loop n s = Some m"
proof (induction s arbitrary: n)
  case (Cons c s)
  have ge: "parse_digits k s = Some m \<Longrightarrow> k \<le> m" for k s
    by (induction s arbitrary: k) (fastforce split: option.splits)+
  from Cons ge show ?case by (fastforce simp: Let_def mult.commute split: option.splits)
qed simp

lemma parsePort_Itoa: "0 \<le> p \<Longrightarrow> p \<le> 65535 \<Longrightarrow> parsePort (Itoa p) = Some (nat p)"
  using port_loop_parse [OF parse_itoa_nat [of "nat p"]] by (simp add: parsePort_def Itoa_def)

lemma Itoa_pos: "0 \<le> p \<Longrightarrow> Itoa p \<noteq> [] \<and> (\<forall>c \<in> set (Itoa p). digit_val c \<noteq> None)"
  using itoa_nat_digits by (auto simp: Itoa_def)

lemma digit_not_special: "digit_val c \<noteq> None \<Longrightarrow> c \<noteq> colon \<and> c \<noteq> CHR ''['' \<and> c \<noteq> CHR '']'' \<and> c \<noteq> CHR ''%''"
  by (auto simp: digit_val_def colon_def)

lemma hex_not_special: "is_hex c \<Longrightarrow> c \<noteq> CHR ''['' \<and> c \<noteq> CHR '']'' \<and> c \<noteq> CHR ''%''"
  by (auto simp: is_hex_def)

lemma splitZone_join: "CHR ''%'' \<notin> set a \<Longrightarrow> splitZone (a @ (if z = [] then [] else CHR ''%'' # z)) = (a, z)"
  by (auto simp: splitZone_def Cut_Some Cut_None [THEN iffD2] split: if_splits)

text \<open>A dial address reads back: splitting what \<open>joinHostPort\<close> prints for a valid address, a zone without a
  closing bracket (for IPv6 only) and a port gives the printed address, the zone and the port again.\<close>

theorem dial_address_roundtrip:
  assumes "length ip = 4 \<or> length ip = 16" "0 < port" "port \<le> 65535" "CHR '']'' \<notin> set zone"
    "To4 ip \<noteq> None \<Longrightarrow> zone = []"
  shows "splitHostPort (joinHostPort ip zone port) = Some (IP_String ip, zone, port)"
proof (cases "To4 ip")
  case None
  with assms(1) have len: "length ip = 16" by (auto simp: To4_def)
  let ?a = "IP_String ip" and ?h = "IP_String ip @ (if zone = [] then [] else CHR ''%'' # zone)"
  have a: "c \<in> set ?a \<Longrightarrow> c \<noteq> CHR '']'' \<and> c \<noteq> CHR ''%''" for c
    using None len set_v6_string hex_not_special by (auto simp: IP_String_def colon_def split: if_splits)
  have j: "joinHostPort ip zone port = (CHR ''['' # ?h) @ CHR '']'' # colon # Itoa port"
    using None assms(2) by (simp add: joinHostPort_def colon_def)
  have "trimmed (joinHostPort ip zone port)"
  proof (rule trimmed_ends)
    have "last (Itoa port) \<in> set (Itoa port)" using Itoa_pos [of port] assms(2) by simp
    then show "graphic (last (joinHostPort ip zone port))"
      using Itoa_pos [of port] assms(2) digit_graphic by (simp add: j)
  qed (simp_all add: j graphic_def)
  moreover have "Cut (CHR '']'') (joinHostPort ip zone port) = Some (CHR ''['' # ?h, colon # Itoa port)"
    unfolding j by (rule Cut_Some) (use a assms(4) in auto)
  moreover have "splitZone ?h = (?a, zone)" using a by (intro splitZone_join) auto
  ultimately show ?thesis
    using assms(2,3) parsePort_Itoa [of port]
    by (simp add: splitHostPort_def TrimSpace_trimmed [THEN iffD2] Let_def) (simp add: j colon_def)
next
  case (Some v4)
  then have len: "length v4 = 4" by (auto simp: To4_def split: if_splits)
  have a: "IP_String ip = dotted v4" using Some assms(1) by (auto simp: IP_String_def)
  have ne: "v4 \<noteq> []" using len by auto
  have j: "joinHostPort ip zone port = dotted v4 @ colon # Itoa port"
    using Some assms(2) by (simp add: joinHostPort_def colon_def a)
  have c: "c \<in> set (dotted v4) \<Longrightarrow> c \<noteq> colon \<and> c \<noteq> CHR ''['' \<and> c \<noteq> CHR '']'' \<and> c \<noteq> CHR ''%'' \<and> graphic c" for c
    using set_dotted [of c v4] digit_not_special digit_graphic by (auto simp: graphic_def colon_def)
  have p: "c \<in> set (Itoa port) \<Longrightarrow> c \<noteq> colon \<and> c \<noteq> CHR ''['' \<and> c \<noteq> CHR '']'' \<and> graphic c" for c
    using Itoa_pos [of port] assms(2) digit_not_special digit_graphic by auto
  have "trimmed (joinHostPort ip zone port)"
  proof (rule trimmed_ends)
    show "graphic (last (joinHostPort ip zone port))" "graphic (hd (joinHostPort ip zone port))"
      using Itoa_pos [of port] assms(2) dotted_ne [OF ne] c p by (simp_all add: j)
  qed (simp add: j)
  moreover have "SplitHostPort (joinHostPort ip zone port) = Some (dotted v4, Itoa port)"
  proof -
    have "colon \<notin> set (dotted v4)" using c by blast
    then show ?thesis using Split_JoinHostPort [of "dotted v4" "Itoa port"] c p by (fastforce simp: j JoinHostPort_def)
  qed
  moreover have "\<not> HasPrefix (joinHostPort ip zone port) ''[''"
    using dotted_ne [OF ne] c by (cases "dotted v4") (auto simp: j HasPrefix_iff)
  moreover have "joinHostPort ip zone port \<noteq> []" by (simp add: j)
  moreover have "splitZone (dotted v4) = (dotted v4, [])"
    using c splitZone_join [of "dotted v4" "[]"] by auto
  ultimately show ?thesis
    using assms(2,3,5) Some parsePort_Itoa [of port]
    by (simp add: splitHostPort_def TrimSpace_trimmed [THEN iffD2] Let_def a)
qed


section \<open>Concrete addresses\<close>

definition demo_near :: sourceIP where
  "demo_near = \<lparr>si_IP = v4InV6Prefix @ [192, 168, 1, 5], si_scope = scopeGlobal, si_isV6 = False\<rparr>"

definition demo_far :: sourceIP where
  "demo_far = \<lparr>si_IP = v4InV6Prefix @ [10, 0, 0, 1], si_scope = scopeGlobal, si_isV6 = False\<rparr>"

definition demo_dst :: dstEntry where
  "demo_dst = \<lparr>de_ip = v4InV6Prefix @ [192, 168, 1, 10], de_zone = [], de_isV6 = False, de_scope = scopeGlobal,
     de_prec = 20, de_src = None, de_port = 5533\<rparr>"

lemma demo_sources: "parseSources [''192.168.1.5'', ''10.0.0.1''] = [demo_near, demo_far]"
  by code_simp

lemma demo_prefixes: "commonPrefix (de_ip demo_dst) (si_IP demo_near) (de_isV6 demo_dst) = 28"
  "commonPrefix (de_ip demo_dst) (si_IP demo_far) (de_isV6 demo_dst) = 0"
  by code_simp+

lemma demo_compatible: "compatible demo_dst demo_near" "compatible demo_dst demo_far"
  by code_simp+

lemma common_prefix_reference_witness:
  "commonPrefix [192, 168, 1, 5] [192, 168, 1, 9] False =
     agree (ip_bits (normalizeIP [192, 168, 1, 5] False)) (ip_bits (normalizeIP [192, 168, 1, 9] False)) \<and>
   commonPrefix [192, 168, 1, 5] [192, 168, 1, 9] False \<le> 8 * length (normalizeIP [192, 168, 1, 5] False)"
  by (rule common_prefix_reference) (simp add: normalizeIP_def To4_def)

lemma pick_source_shortest_prefix_witness: "pickSource demo_dst [demo_near, demo_far] = Some demo_far"
proof -
  note p = pick_source_shortest_prefix [of demo_dst "[demo_near, demo_far]"]
  then obtain s where s: "pickSource demo_dst [demo_near, demo_far] = Some s"
    using demo_compatible by (cases "pickSource demo_dst [demo_near, demo_far]") auto
  with p have "s = demo_near \<or> s = demo_far"
    "commonPrefix (de_ip demo_dst) (si_IP s) (de_isV6 demo_dst) \<le> 0"
    using demo_compatible demo_prefixes by (auto simp: demo_near_def demo_far_def demo_dst_def)
  with s demo_prefixes show ?thesis by auto
qed

lemma demo_dest: "dest_of 5533 ''192.168.1.10'' = Some (v4InV6Prefix @ [192, 168, 1, 10], [], 5533)"
  by code_simp

lemma demo_fits: "fits (v4InV6Prefix @ [192, 168, 1, 10]) demo_near"
  by code_simp

lemma selection_sound_and_complete_witness:
  "SelectAddresses [''192.168.1.10''] [''192.168.1.5'', ''10.0.0.1''] 5533 \<noteq> []"
  using selection_sound_and_complete [of "[''192.168.1.10'']" "[''192.168.1.5'', ''10.0.0.1'']" 5533]
    demo_dest demo_sources demo_fits by fastforce

lemma dial_address_roundtrip_witness:
  "splitHostPort (joinHostPort (0xfe # 0x80 # replicate 13 0 @ [1]) ''eth0'' 5533) =
    Some (IP_String (0xfe # 0x80 # replicate 13 0 @ [1]), ''eth0'', 5533)"
  by (rule dial_address_roundtrip) (simp_all add: To4_def v4InV6Prefix_def)

end
