(* ===== verification/ConnectURI.thy ===== *)
theory ConnectURI
  imports GoURL AddrSelect
begin

text \<open>
  The \<open>lanos://connect\<close> URI of the QR code (\<open>core/net/uri.go\<close>): parsing with every rejection, printing,
  and the destinations it yields. The query's map is the list of its pairs in order.
\<close>

record ConnectURI =
  cu_IP :: string
  cu_IP6 :: string
  cu_Port :: int
  cu_PKHash :: string
  cu_DeviceName :: string
  cu_Raw :: string

datatype URIError = ErrScheme | ErrPath | ErrQuery | ErrUnknownParam | ErrDuplicate string | ErrEmptyIP | ErrIP
  | ErrEmptyIP6 | ErrIP6 | ErrZone | ErrNoAddress | ErrPortRange | ErrNoPort | ErrHash | ErrNoHash
  | ErrName | ErrEmptyName | ErrNoName

definition single :: "(string \<times> string) list \<Rightarrow> string \<Rightarrow> URIError + string option" where
  "single vals key = (case map snd (filter (\<lambda>(k, v). k = key) vals) of
      [] \<Rightarrow> Inr None
    | [v] \<Rightarrow> Inr (Some v)
    | _ \<Rightarrow> Inl (ErrDuplicate key))"

definition isLowerHex :: "string \<Rightarrow> bool" where
  "isLowerHex s \<longleftrightarrow> list_all (\<lambda>c. (CHR ''0'' \<le> c \<and> c \<le> CHR ''9'') \<or> (CHR ''a'' \<le> c \<and> c \<le> CHR ''f'')) s"

definition escapePercent :: "string \<Rightarrow> string" where
  "escapePercent s = ReplaceChar (CHR ''%'') ''%25'' s"

definition isLinkLocalV6 :: "string \<Rightarrow> bool" where
  "isLinkLocalV6 s = (case ParseIP s of None \<Rightarrow> False
     | Some ip \<Rightarrow> To4 ip = None \<and> (IsLinkLocalUnicast ip \<or> IsLinkLocalMulticast ip))"

text \<open>The parameters one by one: absent vals stay empty.\<close>

definition parse_ip :: "(string \<times> string) list \<Rightarrow> URIError + string" where
  "parse_ip vals = (case single vals ''ip'' of
      Inl e \<Rightarrow> Inl e
    | Inr None \<Rightarrow> Inr []
    | Inr (Some v) \<Rightarrow>
        if v = [] then Inl ErrEmptyIP
        else (case ParseIP v of
            None \<Rightarrow> Inl ErrIP
          | Some ip \<Rightarrow> if To4 ip = None then Inl ErrIP else Inr v))"

definition parse_ip6 :: "(string \<times> string) list \<Rightarrow> URIError + string" where
  "parse_ip6 vals = (case single vals ''ip6'' of
      Inl e \<Rightarrow> Inl e
    | Inr None \<Rightarrow> Inr []
    | Inr (Some v) \<Rightarrow>
        if v = [] then Inl ErrEmptyIP6
        else let (ip, zone) = splitZone v in
          (case ParseIP ip of
             None \<Rightarrow> Inl ErrIP6
           | Some a \<Rightarrow> if To4 a \<noteq> None then Inl ErrIP6
               else if isLinkLocalV6 ip \<and> zone = [] then Inl ErrZone else Inr v))"

definition parse_port :: "(string \<times> string) list \<Rightarrow> URIError + int" where
  "parse_port vals = (case single vals ''port'' of
      Inl e \<Rightarrow> Inl e
    | Inr None \<Rightarrow> Inl ErrNoPort
    | Inr (Some v) \<Rightarrow> (case Atoi v of
          None \<Rightarrow> Inl ErrPortRange
        | Some p \<Rightarrow> if p < 1 \<or> 65535 < p then Inl ErrPortRange else Inr p))"

definition parse_hash :: "(string \<times> string) list \<Rightarrow> URIError + string" where
  "parse_hash vals = (case single vals ''pk-hash'' of
      Inl e \<Rightarrow> Inl e
    | Inr None \<Rightarrow> Inl ErrNoHash
    | Inr (Some v) \<Rightarrow>
        if length v \<noteq> 32 \<or> \<not> isLowerHex v then Inl ErrHash
        else if DecodeString v = None then Inl ErrHash else Inr v)"

definition parse_name :: "(string \<times> string) list \<Rightarrow> URIError + string" where
  "parse_name vals = (case single vals ''device-name'' of
      Inl e \<Rightarrow> Inl e
    | Inr None \<Rightarrow> Inl ErrNoName
    | Inr (Some v) \<Rightarrow> (case QueryUnescape v of
          None \<Rightarrow> Inl ErrName
        | Some d \<Rightarrow> if d = [] then Inl ErrEmptyName else Inr d))"

definition uri_params :: "string list" where
  "uri_params = [''ip'', ''ip6'', ''port'', ''pk-hash'', ''device-name'']"

definition ParseConnectURI :: "string \<Rightarrow> URIError + ConnectURI" where
  "ParseConnectURI raw =
    (if \<not> HasPrefix raw ''lanos://'' then Inl ErrScheme
     else
       let rest = drop 8 raw;
           (path, query) = (case Cut (CHR ''?'') rest of Some pq \<Rightarrow> pq | None \<Rightarrow> (rest, []))
       in if path \<noteq> ''connect'' then Inl ErrPath
       else (case ParseQuery query of
         None \<Rightarrow> Inl ErrQuery
       | Some vals \<Rightarrow>
         if \<not> list_all (\<lambda>(k, v). k \<in> set uri_params) vals then Inl ErrUnknownParam
         else (case parse_ip vals of Inl e \<Rightarrow> Inl e | Inr ip \<Rightarrow>
           (case parse_ip6 vals of Inl e \<Rightarrow> Inl e | Inr ip6 \<Rightarrow>
             if ip = [] \<and> ip6 = [] then Inl ErrNoAddress
             else (case parse_port vals of Inl e \<Rightarrow> Inl e | Inr port \<Rightarrow>
               (case parse_hash vals of Inl e \<Rightarrow> Inl e | Inr hash \<Rightarrow>
                 (case parse_name vals of Inl e \<Rightarrow> Inl e | Inr name \<Rightarrow>
                   Inr \<lparr>cu_IP = ip, cu_IP6 = ip6, cu_Port = port, cu_PKHash = hash,
                        cu_DeviceName = name, cu_Raw = raw\<rparr>)))))))"

definition Dests :: "ConnectURI \<Rightarrow> string list" where
  "Dests c = (if cu_IP c \<noteq> [] then [cu_IP c] else []) @ (if cu_IP6 c \<noteq> [] then [cu_IP6 c] else [])"

definition URI_String :: "ConnectURI \<Rightarrow> string" where
  "URI_String c = ''lanos://connect?'' @
     (if cu_IP c \<noteq> [] then ''ip='' @ cu_IP c @ ''&'' else []) @
     (if cu_IP6 c \<noteq> [] then ''ip6='' @ escapePercent (cu_IP6 c) @ ''&'' else []) @
     ''port='' @ Itoa (cu_Port c) @ ''&pk-hash='' @ cu_PKHash c @ ''&device-name='' @ QueryEscape (cu_DeviceName c)"

section \<open>Lemmas on queries\<close>

definition query_safe :: "string \<Rightarrow> bool" where
  "query_safe s \<longleftrightarrow> CHR ''&'' \<notin> set s \<and> CHR '';'' \<notin> set s \<and> CHR ''+'' \<notin> set s"

lemma Unescape_escapePercent: "CHR ''+'' \<notin> set s \<Longrightarrow> QueryUnescape (escapePercent s) = Some s"
proof (induction s)
  case (Cons a s)
  have "char_of (37 :: nat) = CHR ''%''" by code_simp
  with Cons show ?case by (auto simp: escapePercent_def unhex_def)
qed (simp add: escapePercent_def)

lemma set_escapePercent: "c \<in> set (escapePercent s) \<Longrightarrow> c \<in> set s \<or> c = CHR ''%'' \<or> c = CHR ''2'' \<or> c = CHR ''5''"
  by (induction s) (auto simp: escapePercent_def split: if_splits)

text \<open>The pieces of a printed query.\<close>

definition uri_pieces :: "ConnectURI \<Rightarrow> string list" where
  "uri_pieces c = (if cu_IP c \<noteq> [] then [''ip'' @ CHR ''='' # cu_IP c] else []) @
     (if cu_IP6 c \<noteq> [] then [''ip6'' @ CHR ''='' # escapePercent (cu_IP6 c)] else []) @
     [''port'' @ CHR ''='' # Itoa (cu_Port c), ''pk-hash'' @ CHR ''='' # cu_PKHash c,
      ''device-name'' @ CHR ''='' # QueryEscape (cu_DeviceName c)]"

lemma URI_String_pieces: "URI_String c = ''lanos://connect?'' @ Join (CHR ''&'') (uri_pieces c)"
  by (auto simp: URI_String_def uri_pieces_def Join_Cons)

section \<open>Properties\<close>

text \<open>C36: Whatever the parser accepts satisfies the scheme's contract: an address of the right family in each
  address field and at least one of them, a link-local IPv6 address only with a zone, a port from 1 to
  65535, a hash of 32 lower-case hexadecimal digits that decodes to 16 bytes, and a name.\<close>

theorem accepted_uri_valid:
  assumes "ParseConnectURI raw = Inr c"
  shows "cu_Raw c = raw \<and> (cu_IP c \<noteq> [] \<or> cu_IP6 c \<noteq> []) \<and>
    (cu_IP c \<noteq> [] \<longrightarrow> (\<exists>a. ParseIP (cu_IP c) = Some a \<and> To4 a \<noteq> None)) \<and>
    (cu_IP6 c \<noteq> [] \<longrightarrow> (\<exists>a. ParseIP (fst (splitZone (cu_IP6 c))) = Some a \<and> To4 a = None \<and>
      (snd (splitZone (cu_IP6 c)) = [] \<longrightarrow> \<not> IsLinkLocalUnicast a))) \<and>
    1 \<le> cu_Port c \<and> cu_Port c \<le> 65535 \<and>
    isLowerHex (cu_PKHash c) \<and> (\<exists>bs. DecodeString (cu_PKHash c) = Some bs \<and> length bs = 16) \<and> cu_DeviceName c \<noteq> []"
proof -
  obtain vals where v: "parse_ip vals = Inr (cu_IP c)" "parse_ip6 vals = Inr (cu_IP6 c)"
    "cu_IP c \<noteq> [] \<or> cu_IP6 c \<noteq> []" "parse_port vals = Inr (cu_Port c)" "parse_hash vals = Inr (cu_PKHash c)"
    "parse_name vals = Inr (cu_DeviceName c)" "cu_Raw c = raw"
    using assms by (auto simp: ParseConnectURI_def Let_def split: if_splits prod.splits option.splits sum.splits)
  have ip: "cu_IP c \<noteq> [] \<Longrightarrow> \<exists>a. ParseIP (cu_IP c) = Some a \<and> To4 a \<noteq> None"
    using v(1) by (auto simp: parse_ip_def split: if_splits option.splits sum.splits)
  have ip6: "cu_IP6 c \<noteq> [] \<Longrightarrow> \<exists>a. ParseIP (fst (splitZone (cu_IP6 c))) = Some a \<and> To4 a = None \<and>
      (snd (splitZone (cu_IP6 c)) = [] \<longrightarrow> \<not> IsLinkLocalUnicast a)"
    using v(2) by (auto simp: parse_ip6_def isLinkLocalV6_def split: if_splits option.splits sum.splits prod.splits)
  have port: "1 \<le> cu_Port c \<and> cu_Port c \<le> 65535"
    using v(4) by (auto simp: parse_port_def split: if_splits option.splits sum.splits)
  have hash: "isLowerHex (cu_PKHash c) \<and> (\<exists>bs. DecodeString (cu_PKHash c) = Some bs \<and> length bs = 16)"
    using v(5) DecodeString_length [of "cu_PKHash c"]
    by (fastforce simp: parse_hash_def split: if_splits option.splits sum.splits)
  have name: "cu_DeviceName c \<noteq> []"
    using v(6) by (auto simp: parse_name_def split: if_splits option.splits sum.splits)
  show ?thesis using v(3,7) ip ip6 port hash name by blast
qed


lemma parse_printed:
  assumes "cu_IP c \<noteq> [] \<or> cu_IP6 c \<noteq> []"
    "cu_IP c \<noteq> [] \<Longrightarrow> \<exists>a. ParseIP (cu_IP c) = Some a \<and> To4 a \<noteq> None"
    "cu_IP6 c \<noteq> [] \<Longrightarrow> \<exists>a. ParseIP (fst (splitZone (cu_IP6 c))) = Some a \<and> To4 a = None"
    "isLinkLocalV6 (fst (splitZone (cu_IP6 c))) \<Longrightarrow> snd (splitZone (cu_IP6 c)) \<noteq> []"
    "query_safe (cu_IP c)" "CHR ''%'' \<notin> set (cu_IP c)" "query_safe (cu_IP6 c)"
    "1 \<le> cu_Port c" "cu_Port c \<le> 65535"
    "length (cu_PKHash c) = 32" "isLowerHex (cu_PKHash c)" "DecodeString (cu_PKHash c) \<noteq> None"
  shows "ParseConnectURI (URI_String c) = (case QueryUnescape (cu_DeviceName c) of
      None \<Rightarrow> Inl ErrName
    | Some d \<Rightarrow> if d = [] then Inl ErrEmptyName else Inr (c\<lparr>cu_DeviceName := d, cu_Raw := URI_String c\<rparr>))"
proof -
  let ?q = "Join (CHR ''&'') (uri_pieces c)"
  let ?vals = "(if cu_IP c \<noteq> [] then [(''ip'', cu_IP c)] else []) @ (if cu_IP6 c \<noteq> [] then [(''ip6'', cu_IP6 c)] else []) @
    [(''port'', Itoa (cu_Port c)), (''pk-hash'', cu_PKHash c), (''device-name'', cu_DeviceName c)]"
  have hashc: "ch \<in> set (cu_PKHash c) \<Longrightarrow> (CHR ''0'' \<le> ch \<and> ch \<le> CHR ''9'') \<or> (CHR ''a'' \<le> ch \<and> ch \<le> CHR ''f'')" for ch
    using assms(11) by (auto simp: isLowerHex_def list_all_iff)
  have special: "\<not> ((CHR ''0'' \<le> ch \<and> ch \<le> CHR ''9'') \<or> (CHR ''a'' \<le> ch \<and> ch \<le> CHR ''f''))"
    if "ch \<in> {CHR ''&'', CHR '';'', CHR ''+'', CHR ''%''}" for ch
    using that by (auto simp: less_eq_char_def)
  have hash: "CHR ''&'' \<notin> set (cu_PKHash c)" "CHR '';'' \<notin> set (cu_PKHash c)" "CHR ''+'' \<notin> set (cu_PKHash c)"
    "CHR ''%'' \<notin> set (cu_PKHash c)"
    using hashc special by blast+
  have port: "CHR ''&'' \<notin> set (Itoa (cu_Port c))" "CHR '';'' \<notin> set (Itoa (cu_Port c))"
    "CHR ''+'' \<notin> set (Itoa (cu_Port c))" "CHR ''%'' \<notin> set (Itoa (cu_Port c))"
    using Itoa_pos [of "cu_Port c"] assms(8) by (auto simp: digit_val_def less_eq_char_def)
  have ip6: "CHR ''&'' \<notin> set (escapePercent (cu_IP6 c))" "CHR '';'' \<notin> set (escapePercent (cu_IP6 c))"
    using assms(7) set_escapePercent by (auto simp: query_safe_def)
  have ip: "CHR ''&'' \<notin> set (cu_IP c)" "CHR '';'' \<notin> set (cu_IP c)" "CHR ''+'' \<notin> set (cu_IP c)" "CHR ''+'' \<notin> set (cu_IP6 c)"
    using assms(5,7) by (auto simp: query_safe_def)
  have "Split (CHR ''&'') ?q = uri_pieces c"
    by (rule Split_Join) (use ip ip6 port hash QueryEscape_not in \<open>auto simp: uri_pieces_def split: if_splits\<close>)
  moreover have "parse_pairs (uri_pieces c) = Some ?vals"
    using ip ip6 port hash assms(6) QueryEscape_not
    by (auto simp: uri_pieces_def Unescape_plain Unescape_escapePercent)
  moreover have "?q \<noteq> []" by (auto simp: uri_pieces_def Join_Cons)
  ultimately have pq: "ParseQuery ?q = Some ?vals" by (simp add: ParseQuery_def)
  have "Atoi (Itoa (cu_Port c)) = Some (cu_Port c)" using assms(8,9) by (intro Atoi_Itoa) (simp add: in64_def)
  then have "parse_port ?vals = Inr (cu_Port c)" "parse_hash ?vals = Inr (cu_PKHash c)"
    "parse_name ?vals = (case QueryUnescape (cu_DeviceName c) of None \<Rightarrow> Inl ErrName
       | Some d \<Rightarrow> if d = [] then Inl ErrEmptyName else Inr d)"
    "parse_ip ?vals = Inr (cu_IP c)" "parse_ip6 ?vals = Inr (cu_IP6 c)"
    using assms by (auto simp: parse_port_def parse_hash_def parse_name_def parse_ip_def parse_ip6_def single_def split: prod.splits)
  moreover have "list_all (\<lambda>(k, v). k \<in> set uri_params) ?vals" by (simp add: uri_params_def)
  moreover have "URI_String c = ''lanos://'' @ ''connect'' @ CHR ''?'' # ?q"
    by (simp add: URI_String_pieces)
  moreover have "Cut (CHR ''?'') (''connect'' @ CHR ''?'' # ?q) = Some (''connect'', ?q)" by (rule Cut_Some) simp
  ultimately show ?thesis
    using pq assms(1) by (simp add: ParseConnectURI_def Let_def split: option.split)
qed


text \<open>C35: Printing and parsing a valid URI gives back every field, except that the device name is decoded twice:
  the result carries the printed name unescaped once more, so names with a plus sign or a percent sign
  come back changed or make the parser fail, and all others come back as they were.\<close>

theorem uri_roundtrip:
  assumes "cu_IP c \<noteq> [] \<or> cu_IP6 c \<noteq> []"
    "cu_IP c \<noteq> [] \<Longrightarrow> \<exists>a. ParseIP (cu_IP c) = Some a \<and> To4 a \<noteq> None"
    "cu_IP6 c \<noteq> [] \<Longrightarrow> \<exists>a. ParseIP (fst (splitZone (cu_IP6 c))) = Some a \<and> To4 a = None"
    "isLinkLocalV6 (fst (splitZone (cu_IP6 c))) \<Longrightarrow> snd (splitZone (cu_IP6 c)) \<noteq> []"
    "query_safe (cu_IP c)" "CHR ''%'' \<notin> set (cu_IP c)" "query_safe (cu_IP6 c)"
    "1 \<le> cu_Port c" "cu_Port c \<le> 65535"
    "length (cu_PKHash c) = 32" "isLowerHex (cu_PKHash c)" "DecodeString (cu_PKHash c) \<noteq> None"
  shows "ParseConnectURI (URI_String c) = (case QueryUnescape (cu_DeviceName c) of
      None \<Rightarrow> Inl ErrName
    | Some d \<Rightarrow> if d = [] then Inl ErrEmptyName else Inr (c\<lparr>cu_DeviceName := d, cu_Raw := URI_String c\<rparr>))"
  using assms by (rule parse_printed)

section \<open>A concrete URI\<close>

definition demo_uri :: "string \<Rightarrow> ConnectURI" where
  "demo_uri name = \<lparr>cu_IP = ''192.168.1.10'', cu_IP6 = ''fe80::1%eth0'', cu_Port = 5533,
     cu_PKHash = ''0123456789abcdef0123456789abcdef'', cu_DeviceName = name, cu_Raw = []\<rparr>"

lemma demo_zone: "splitZone ''fe80::1%eth0'' = (''fe80::1'', ''eth0'')"
  by (simp add: splitZone_def)

lemma demo_hash_hex: "isLowerHex ''0123456789abcdef0123456789abcdef''"
  "\<not> Option.is_none (DecodeString ''0123456789abcdef0123456789abcdef'')"
  by code_simp+

lemma demo_printed: "ParseConnectURI (URI_String (demo_uri n)) = (case QueryUnescape n of
      None \<Rightarrow> Inl ErrName
    | Some d \<Rightarrow> if d = [] then Inl ErrEmptyName else Inr ((demo_uri n)\<lparr>cu_DeviceName := d, cu_Raw := URI_String (demo_uri n)\<rparr>))"
  using parse_printed [of "demo_uri n"] demo_hash_hex
  by (simp add: demo_uri_def parsed_v4 parsed_v6 demo_zone query_safe_def To4_def v4InV6Prefix_def
    Option.is_none_def)

lemma uri_roundtrip_witness:
  "ParseConnectURI (URI_String (demo_uri ''a+b'')) = Inr ((demo_uri ''a b'')\<lparr>cu_Raw := URI_String (demo_uri ''a+b'')\<rparr>) \<and>
   ParseConnectURI (URI_String (demo_uri ''100%'')) = Inl ErrName"
proof -
  have "ParseConnectURI (URI_String (demo_uri n)) = (case QueryUnescape (cu_DeviceName (demo_uri n)) of
      None \<Rightarrow> Inl ErrName
    | Some d \<Rightarrow> if d = [] then Inl ErrEmptyName
        else Inr ((demo_uri n)\<lparr>cu_DeviceName := d, cu_Raw := URI_String (demo_uri n)\<rparr>))" for n
    using demo_hash_hex by (intro uri_roundtrip)
      (simp_all add: demo_uri_def parsed_v4 parsed_v6 demo_zone query_safe_def To4_def v4InV6Prefix_def
        Option.is_none_def)
  from this [of "''a+b''"] this [of "''100%''"] show ?thesis by (simp add: demo_uri_def)
qed

lemma demo_parsed: "ParseConnectURI (URI_String (demo_uri ''den'')) =
    Inr ((demo_uri ''den'')\<lparr>cu_Raw := URI_String (demo_uri ''den'')\<rparr>)"
  by (simp add: demo_printed) (simp add: demo_uri_def)

lemma accepted_uri_valid_witness:
  "cu_Port (demo_uri ''den'') \<le> 65535 \<and> isLowerHex (cu_PKHash (demo_uri ''den'')) \<and> cu_DeviceName (demo_uri ''den'') \<noteq> []"
  using accepted_uri_valid [OF demo_parsed] by simp

end
