(* ===== verification/TrustStore.thy ===== *)
theory TrustStore
  imports GoText
begin

text \<open>
  The trust store (\<open>core/identity/trusted_devices.go\<close>) and the local identity (\<open>core/identity/identity.go\<close>).
  The store's file is kept as what reading and decoding it yields, so JSON itself is not modelled; which
  step of a write fails is an argument. Ed25519, SHA-256 and PEM are parameters.
\<close>

section \<open>The store\<close>

record TrustedDevice =
  td_PubKey :: string
  td_StaticKey :: string
  td_Name :: string
  td_TrustedAt :: int
  td_AutoReceive :: bool

datatype PeerVerification = PeerUnknown | PeerTrusted | PeerKeyMismatch

datatype TrustError = ErrTrustStoreCorrupt | ErrReadStore | ErrMarshal | ErrCreateTemp | ErrWriteTemp | ErrCloseTemp
  | ErrChmodTemp | ErrRename | ErrKeyLength

text \<open>Reading the file: missing, unreadable, not JSON of the right shape, \<open>null\<close>, or a map.\<close>

datatype TrustFile = Missing | Unreadable | Garbage | NullMap | Entries "(string, TrustedDevice) gomap"

definition no_device :: TrustedDevice where
  "no_device = \<lparr>td_PubKey = [], td_StaticKey = [], td_Name = [], td_TrustedAt = 0, td_AutoReceive = False\<rparr>"

definition Trust_load :: "TrustFile \<Rightarrow> TrustError + (string, TrustedDevice) gomap" where
  "Trust_load f = (case f of
      Missing \<Rightarrow> Inr []
    | Unreadable \<Rightarrow> Inl ErrReadStore
    | Garbage \<Rightarrow> Inl ErrTrustStoreCorrupt
    | NullMap \<Rightarrow> Inr []
    | Entries m \<Rightarrow> Inr m)"

text \<open>The steps of a save in order; only the rename touches the store's own file.\<close>

definition Trust_save :: "TrustError option \<Rightarrow> (string, TrustedDevice) gomap \<Rightarrow> TrustFile \<Rightarrow> TrustError option \<times> TrustFile" where
  "Trust_save failing m f = (case failing of Some e \<Rightarrow> (Some e, f) | None \<Rightarrow> (None, Entries m))"

definition lookupLocked :: "string \<Rightarrow> TrustFile \<Rightarrow> TrustError + TrustedDevice \<times> bool" where
  "lookupLocked deviceID f = (case Trust_load f of
      Inl e \<Rightarrow> Inl e
    | Inr m \<Rightarrow> (case map_of m deviceID of None \<Rightarrow> Inr (no_device, False) | Some td \<Rightarrow> Inr (td, True)))"

definition Trust_Lookup :: "string \<Rightarrow> TrustFile \<Rightarrow> TrustError + TrustedDevice \<times> bool" where
  "Trust_Lookup deviceID f = lookupLocked deviceID f"

definition Trust ::
  "TrustError option \<Rightarrow> int \<Rightarrow> string \<Rightarrow> bytes \<Rightarrow> bytes \<Rightarrow> string \<Rightarrow> bool \<Rightarrow> TrustFile \<Rightarrow> TrustError option \<times> TrustFile" where
  "Trust failing now deviceID staticKey edPubKey name autoReceive f =
    (if length staticKey \<noteq> 32 then (Some ErrKeyLength, f)
     else case Trust_load f of
       Inl e \<Rightarrow> (Some e, f)
     | Inr m \<Rightarrow>
       let td = \<lparr>td_PubKey = [], td_StaticKey = EncodeToString staticKey, td_Name = name, td_TrustedAt = now,
             td_AutoReceive = autoReceive\<rparr>;
           td' = (if 0 < length edPubKey then td\<lparr>td_PubKey := EncodeToString edPubKey\<rparr> else td)
       in Trust_save failing (gput deviceID td' m) f)"

definition Trust_Remove :: "TrustError option \<Rightarrow> string \<Rightarrow> TrustFile \<Rightarrow> TrustError option \<times> TrustFile" where
  "Trust_Remove failing deviceID f = (case Trust_load f of
      Inl e \<Rightarrow> (Some e, f)
    | Inr m \<Rightarrow> if map_of m deviceID = None then (None, f) else Trust_save failing (gdel deviceID m) f)"

fun equal_from :: "bytes \<Rightarrow> bytes \<Rightarrow> bool" where
  "equal_from (a # as) (b # bs) = (if a \<noteq> b then False else equal_from as bs)"
| "equal_from _ _ = True"

definition equalBytes :: "bytes \<Rightarrow> bytes \<Rightarrow> bool" where
  "equalBytes a b = (if length a \<noteq> length b then False else equal_from a b)"

definition VerifyPeer :: "string \<Rightarrow> bytes \<Rightarrow> TrustFile \<Rightarrow> (TrustError + PeerVerification \<times> TrustedDevice)" where
  "VerifyPeer deviceID peerStatic f = (case lookupLocked deviceID f of
      Inl e \<Rightarrow> Inl e
    | Inr (td, ok) \<Rightarrow>
        if \<not> ok then Inr (PeerUnknown, no_device)
        else (case DecodeString (td_StaticKey td) of
            None \<Rightarrow> Inr (PeerKeyMismatch, td)
          | Some stored \<Rightarrow>
              if length stored \<noteq> 32 \<or> length peerStatic \<noteq> 32 then Inr (PeerKeyMismatch, td)
              else if equalBytes stored peerStatic then Inr (PeerTrusted, td)
              else Inr (PeerKeyMismatch, td)))"

definition Trust_List :: "TrustFile \<Rightarrow> TrustError + (string, TrustedDevice) gomap" where
  "Trust_List f = Trust_load f"

section \<open>The identity\<close>

record Identity =
  id_PrivED :: bytes
  id_PubED :: bytes
  id_PubHash :: string
  id_DeviceID :: string

datatype IdentityError = ErrReadIdentity | ErrFormat | ErrKeySize | ErrGenerate | ErrWriteIdentity | ErrNoAppData | ErrNoHome

datatype KeyLoad = KeyData bytes | KeyNotFound | KeyLoadError

definition fromKeys :: "(bytes \<Rightarrow> bytes) \<Rightarrow> bytes \<Rightarrow> bytes \<Rightarrow> Identity" where
  "fromKeys sha priv pub = (let s = sha pub in
     \<lparr>id_PrivED = priv, id_PubED = pub, id_PubHash = EncodeToString (take 16 s), id_DeviceID = EncodeToString (take 8 s)\<rparr>)"

definition parse_identity ::
  "(bytes \<Rightarrow> bytes) \<Rightarrow> (bytes \<Rightarrow> bytes) \<Rightarrow> (bytes \<Rightarrow> (string \<times> bytes) option) \<Rightarrow> bytes \<Rightarrow> IdentityError + Identity" where
  "parse_identity sha public pem_decode data = (case pem_decode data of
      None \<Rightarrow> Inl ErrFormat
    | Some (typ, b) \<Rightarrow>
        if typ \<noteq> ''LANOS IDENTITY'' then Inl ErrFormat
        else if length b \<noteq> 64 then Inl ErrKeySize
        else Inr (fromKeys sha b (public b)))"

text \<open>Generation takes the key pair, or its failure, and the outcome of the keystore's save.\<close>

definition generate_identity ::
  "(bytes \<Rightarrow> bytes) \<Rightarrow> (string \<Rightarrow> bytes \<Rightarrow> bytes) \<Rightarrow> (bytes \<times> bytes) option \<Rightarrow> bool \<Rightarrow> KeyLoad \<Rightarrow>
    (IdentityError + Identity) \<times> KeyLoad" where
  "generate_identity sha pem_encode key save_ok store = (case key of
      None \<Rightarrow> (Inl ErrGenerate, store)
    | Some (pub, priv) \<Rightarrow>
        let data = pem_encode ''LANOS IDENTITY'' priv in
        if save_ok then (Inr (fromKeys sha priv pub), KeyData data) else (Inl ErrWriteIdentity, store))"

definition loadOrCreateWithKeystore ::
  "(bytes \<Rightarrow> bytes) \<Rightarrow> (bytes \<Rightarrow> bytes) \<Rightarrow> (bytes \<Rightarrow> (string \<times> bytes) option) \<Rightarrow> (string \<Rightarrow> bytes \<Rightarrow> bytes) \<Rightarrow>
    (bytes \<times> bytes) option \<Rightarrow> bool \<Rightarrow> KeyLoad \<Rightarrow> (IdentityError + Identity) \<times> KeyLoad" where
  "loadOrCreateWithKeystore sha public pem_decode pem_encode key save_ok store = (case store of
      KeyData data \<Rightarrow> (parse_identity sha public pem_decode data, store)
    | KeyLoadError \<Rightarrow> (Inl ErrReadIdentity, store)
    | KeyNotFound \<Rightarrow> generate_identity sha pem_encode key save_ok store)"

definition dataDir :: "string \<Rightarrow> string \<Rightarrow> string option \<Rightarrow> IdentityError + string list" where
  \<comment> \<open>The path's components; \<open>home\<close> is what \<open>os.UserHomeDir\<close> yields.\<close>
  "dataDir goos appdata home =
    (if goos = ''windows'' then (if appdata = [] then Inl ErrNoAppData else Inr [appdata, ''Lanos''])
     else (case home of
         None \<Rightarrow> Inl ErrNoHome
       | Some h \<Rightarrow> if goos = ''darwin'' then Inr [h, ''Library'', ''Application Support'', ''Lanos'']
           else Inr [h, ''.config'', ''lanos'']))"

section \<open>Runs of the store\<close>

datatype top = TTrust "TrustError option" int string bytes bytes string bool | TRemove "TrustError option" string

fun tstep :: "top \<Rightarrow> TrustFile \<Rightarrow> TrustError option \<times> TrustFile" where
  "tstep (TTrust failing now i k e n a) f = Trust failing now i k e n a f"
| "tstep (TRemove failing i) f = Trust_Remove failing i f"

definition trun :: "top list \<Rightarrow> TrustFile \<Rightarrow> TrustFile" where
  "trun xs f = fold (\<lambda>x f. snd (tstep x f)) xs f"

text \<open>The specification: a partial function from device ids to keys, changed by the operations that succeed.\<close>

definition keys_of :: "TrustFile \<Rightarrow> string \<Rightarrow> string option" where
  "keys_of f i = (case Trust_load f of Inl e \<Rightarrow> None | Inr m \<Rightarrow> map_option td_StaticKey (map_of m i))"

fun spec_step :: "top \<Rightarrow> bool \<Rightarrow> (string \<Rightarrow> string option) \<Rightarrow> (string \<Rightarrow> string option)" where
  "spec_step (TTrust failing now i k e n a) ok t = (if ok then t(i := Some (EncodeToString k)) else t)"
| "spec_step (TRemove failing i) ok t = (if ok then t(i := None) else t)"

lemma equal_from_eq: "length a = length b \<Longrightarrow> equal_from a b \<longleftrightarrow> a = b"
  by (induction a b rule: list_induct2) auto

lemma equalBytes_eq [simp]: "equalBytes a b \<longleftrightarrow> a = b"
  by (auto simp: equalBytes_def equal_from_eq)

lemma step_refines:
  "keys_of (snd (tstep x f)) = spec_step x (fst (tstep x f) = None) (keys_of f)"
  by (cases x)
    (auto simp: Trust_def Trust_Remove_def Trust_save_def keys_of_def Let_def fun_eq_iff map_of_gput map_of_gdel Trust_load_def
      split: sum.splits option.splits TrustFile.splits)

text \<open>C14: The trust store refines a partial map from device ids to keys: an operation that reports success changes
  the map exactly at its device, and one that reports an error, at whatever step of the write, leaves the
  file as it was; a corrupt or unreadable file is never overwritten.\<close>

theorem trust_store_refines_map:
  "keys_of (snd (tstep x f)) = spec_step x (fst (tstep x f) = None) (keys_of f) \<and>
   (fst (tstep x f) \<noteq> None \<longrightarrow> snd (tstep x f) = f) \<and>
   (f = Garbage \<or> f = Unreadable \<longrightarrow> trun xs f = f)"
proof (intro conjI impI)
  show "keys_of (snd (tstep x f)) = spec_step x (fst (tstep x f) = None) (keys_of f)" by (rule step_refines)
  have err: "snd (tstep y g) = g" if "fst (tstep y g) \<noteq> None" for y g
    using that by (cases y) (auto simp: Trust_def Trust_Remove_def Trust_save_def Let_def split: sum.splits option.splits if_splits)
  then show "snd (tstep x f) = f" if "fst (tstep x f) \<noteq> None" using that .
  assume "f = Garbage \<or> f = Unreadable"
  then have "fst (tstep y f) \<noteq> None" for y by (cases y) (auto simp: Trust_def Trust_Remove_def Trust_load_def)
  then show "trun xs f = f" using err by (induction xs) (simp_all add: trun_def)
qed

text \<open>A peer is trusted exactly by the key it was trusted with: after a successful \<open>Trust\<close> the same key is
  trusted and every other key of 32 bytes is a mismatch, no other device is affected, and after a successful
  removal the peer is unknown again.\<close>

theorem trusted_by_its_key:
  assumes "Trust failing now i key ed name auto f = (None, g)"
  shows "(\<exists>td. VerifyPeer i peer g = Inr (if peer = key then PeerTrusted else PeerKeyMismatch, td) \<and>
      td_Name td = name \<and> td_AutoReceive td = auto) \<and>
    (\<forall>j. j \<noteq> i \<longrightarrow> VerifyPeer j peer g = VerifyPeer j peer f) \<and>
    (\<forall>h. Trust_Remove None i g = (None, h) \<longrightarrow> VerifyPeer i peer h = Inr (PeerUnknown, no_device))"
proof -
  define td where "td = \<lparr>td_PubKey = (if 0 < length ed then EncodeToString ed else []),
    td_StaticKey = EncodeToString key, td_Name = name, td_TrustedAt = now, td_AutoReceive = auto\<rparr>"
  have td: "td_StaticKey td = EncodeToString key" "td_Name td = name" "td_AutoReceive td = auto"
    by (simp_all add: td_def)
  obtain m where m: "Trust_load f = Inr m" and len: "length key = 32" and g: "g = Entries (gput i td m)"
    using assms by (auto simp: Trust_def Trust_save_def Let_def td_def split: if_splits sum.splits option.splits)
  have "VerifyPeer i peer g = Inr (if peer = key then PeerTrusted else PeerKeyMismatch, td)"
    using td len by (auto simp: g VerifyPeer_def lookupLocked_def Trust_load_def map_of_gput)
  moreover have "VerifyPeer j peer g = VerifyPeer j peer f" if "j \<noteq> i" for j
    using m that by (simp add: g VerifyPeer_def lookupLocked_def Trust_load_def map_of_gput)
  moreover have "VerifyPeer i peer h = Inr (PeerUnknown, no_device)" if "Trust_Remove None i g = (None, h)" for h
    using that by (auto simp: g VerifyPeer_def Trust_Remove_def Trust_save_def lookupLocked_def Trust_load_def map_of_gput map_of_gdel)
  ultimately show ?thesis using td by blast
qed

lemma restart_lemma:
  assumes "loadOrCreateWithKeystore sha public pem_decode pem_encode key save_ok st = (Inr ident, st')"
    "\<And>pub priv. key = Some (pub, priv) \<Longrightarrow> public priv = pub \<and> length priv = 64"
    "\<And>b. pem_decode (pem_encode ''LANOS IDENTITY'' b) = Some (''LANOS IDENTITY'', b)"
  shows "fst (loadOrCreateWithKeystore sha public pem_decode pem_encode key' save_ok' st') = Inr ident"
proof (cases st)
  case KeyNotFound
  with assms(1) obtain pub priv where k: "key = Some (pub, priv)" "ident = fromKeys sha priv pub"
    "st' = KeyData (pem_encode ''LANOS IDENTITY'' priv)"
    by (auto simp: loadOrCreateWithKeystore_def generate_identity_def Let_def split: option.splits if_splits)
  with assms(2) have "public priv = pub" "length priv = 64" by blast+
  then show ?thesis by (simp add: k loadOrCreateWithKeystore_def parse_identity_def assms(3))
qed (use assms(1) in \<open>auto simp: loadOrCreateWithKeystore_def\<close>)

text \<open>The identity survives a restart: whatever \<open>LoadOrCreate\<close> returned, created or loaded, the next call
  returns the same keys and hashes, given that PEM decodes what it encoded and that the key pair belongs
  together; a keystore that fails is never written over, and the device id is the first half of the hash.\<close>

theorem identity_survives_restart:
  assumes "loadOrCreateWithKeystore sha public pem_decode pem_encode key save_ok st = (Inr ident, st')"
    "\<And>pub priv. key = Some (pub, priv) \<Longrightarrow> public priv = pub \<and> length priv = 64"
    "\<And>b. pem_decode (pem_encode ''LANOS IDENTITY'' b) = Some (''LANOS IDENTITY'', b)"
    "\<And>b. length (sha b) = 32"
  shows "fst (loadOrCreateWithKeystore sha public pem_decode pem_encode key' save_ok' st') = Inr ident \<and>
    (st = KeyLoadError \<or> (\<exists>d. st = KeyData d) \<longrightarrow> st' = st) \<and>
    length (id_PubHash ident) = 32 \<and> id_DeviceID ident = take 16 (id_PubHash ident)"
proof -
  have take: "EncodeToString (take n bs) = take (2 * n) (EncodeToString bs)" for n bs
  proof (induction bs arbitrary: n)
    case (Cons b bs)
    then show ?case by (cases n) simp_all
  qed simp
  obtain priv pub where "ident = fromKeys sha priv pub"
    using assms(1) by (auto simp: loadOrCreateWithKeystore_def parse_identity_def generate_identity_def Let_def
      split: KeyLoad.splits option.splits if_splits)
  then have "length (id_PubHash ident) = 32" "id_DeviceID ident = take 16 (id_PubHash ident)"
    using assms(4) [of pub] by (simp_all add: fromKeys_def Let_def take)
  moreover have "st = KeyLoadError \<or> (\<exists>d. st = KeyData d) \<longrightarrow> st' = st"
    using assms(1) by (auto simp: loadOrCreateWithKeystore_def)
  ultimately show ?thesis using restart_lemma [OF assms(1-3)] by blast
qed

section \<open>A concrete store and keystore\<close>

lemma trust_store_refines_map_witness:
  "snd (tstep (TTrust (Some ErrRename) 7 ''a'' (replicate 32 1) [] ''den'' True) (Entries [])) = Entries [] \<and>
    trun [TRemove None ''a''] Garbage = Garbage"
  using trust_store_refines_map [of "TTrust (Some ErrRename) 7 ''a'' (replicate 32 1) [] ''den'' True" "Entries []" "[]"]
    trust_store_refines_map [of "TRemove None ''a''" Garbage "[TRemove None ''a'']"]
  by (simp add: Trust_def Trust_load_def Trust_save_def Let_def)

definition demo_trusted :: TrustFile where
  "demo_trusted = snd (Trust None 7 ''a'' (replicate 32 1) [] ''den'' True Missing)"

lemma trusted_by_its_key_witness:
  "\<exists>td. VerifyPeer ''a'' (replicate 32 2) demo_trusted = Inr (PeerKeyMismatch, td)"
proof -
  have "Trust None 7 ''a'' (replicate 32 1) [] ''den'' True Missing = (None, demo_trusted)"
    by (simp add: demo_trusted_def Trust_def Trust_load_def Trust_save_def Let_def)
  from trusted_by_its_key [OF this, of "replicate 32 2"] show ?thesis by (auto simp: replicate_eq_replicate)
qed

definition demo_public :: "bytes \<Rightarrow> bytes" where "demo_public priv = drop 32 priv"
definition demo_sha :: "bytes \<Rightarrow> bytes" where "demo_sha b = take 32 (b @ replicate 32 0)"
definition demo_pem :: "string \<Rightarrow> bytes \<Rightarrow> bytes" where "demo_pem t b = 45 # b"
definition demo_unpem :: "bytes \<Rightarrow> (string \<times> bytes) option" where
  "demo_unpem d = (if d \<noteq> [] \<and> hd d = 45 then Some (''LANOS IDENTITY'', tl d) else None)"

lemma identity_survives_restart_witness:
  "fst (loadOrCreateWithKeystore demo_sha demo_public demo_unpem demo_pem None False
     (snd (loadOrCreateWithKeystore demo_sha demo_public demo_unpem demo_pem (Some (replicate 32 2, replicate 64 2)) True KeyNotFound)))
   = Inr (fromKeys demo_sha (replicate 64 2) (replicate 32 2))"
proof -
  have "loadOrCreateWithKeystore demo_sha demo_public demo_unpem demo_pem (Some (replicate 32 2, replicate 64 2)) True KeyNotFound
    = (Inr (fromKeys demo_sha (replicate 64 2) (replicate 32 2)), KeyData (demo_pem ''LANOS IDENTITY'' (replicate 64 2)))"
    by (simp add: loadOrCreateWithKeystore_def generate_identity_def)
  from identity_survives_restart [OF this, of None False] this show ?thesis
    by (simp add: demo_public_def demo_unpem_def demo_pem_def demo_sha_def)
qed

end
