(* ===== verification/Settings.thy ===== *)
theory Settings
  imports GoNet
begin

text \<open>
  The settings with their lock and their file (\<open>core/config/config.go\<close>), and the startup helpers that
  draw the API token and bind the local port (\<open>core/lifecycle/lifecycle.go\<close>). YAML is a pair of
  parameters. A call that waits for the configuration's lock for ever is the outcome \<open>Blocked\<close>, so that
  a call holding the write lock and asking for the read lock is seen to hang.
\<close>

section \<open>The settings\<close>

record Settings =
  st_DeviceName :: string
  st_DownloadPath :: string
  st_Port :: int
  st_AutoReceive :: string
  st_ConflictPolicy :: string
  st_SharePortRange :: string
  st_StealthMode :: bool
  st_NetworkInterface :: string
  st_MaxActiveShares :: int
  st_Language :: string
  st_NotifyReceive :: bool
  st_NotifySent :: bool
  st_NotifyShare :: bool
  st_RecordRetention :: int
  st_IPv6Preferred :: bool
  st_MobileDataAllowed :: bool

definition Defaults :: Settings where
  "Defaults = \<lparr>st_DeviceName = [], st_DownloadPath = [], st_Port = 0, st_AutoReceive = ''ask'',
     st_ConflictPolicy = ''skip'', st_SharePortRange = ''auto'', st_StealthMode = False,
     st_NetworkInterface = [], st_MaxActiveShares = 64, st_Language = [], st_NotifyReceive = True,
     st_NotifySent = True, st_NotifyShare = True, st_RecordRetention = 1000, st_IPv6Preferred = True,
     st_MobileDataAllowed = False\<rparr>"

datatype ConfigError = ErrDeviceName | ErrPortRange | ErrMaxShares | ErrAutoReceive | ErrMarshalConfig | ErrWriteConfig
  | ErrRenameConfig | ErrReadConfig | ErrParseConfig | ErrHome | ErrMkdir

text \<open>The configuration: its fields, whether a writer holds its lock, and \<open>config.yaml\<close> (None: missing).\<close>

record Config =
  cf_set :: Settings
  cf_locked :: bool
  cf_file :: "bytes option"

datatype 'r outcome = Returned 'r | Blocked

definition validateLocked :: "Settings \<Rightarrow> ConfigError option" where
  "validateLocked s =
    (if st_DeviceName s = [] then Some ErrDeviceName
     else if st_Port s \<noteq> 0 \<and> (st_Port s < 1024 \<or> 65535 < st_Port s) then Some ErrPortRange
     else if st_MaxActiveShares s < 16 \<or> 256 < st_MaxActiveShares s then Some ErrMaxShares
     else if st_AutoReceive s \<notin> {[], ''ask'', ''trusted'', ''all''} then Some ErrAutoReceive
     else None)"

text \<open>\<open>io\<close> is the error of writing the temporary file or of renaming it, if one occurs.\<close>

definition Config_Save ::
  "(Settings \<Rightarrow> bytes option) \<Rightarrow> ConfigError option \<Rightarrow> Config \<Rightarrow> ConfigError option outcome \<times> Config" where
  "Config_Save marshal io c =
    (if cf_locked c then (Blocked, c)
     else case marshal (cf_set c) of
       None \<Rightarrow> (Returned (Some ErrMarshalConfig), c)
     | Some data \<Rightarrow> (case io of
           Some e \<Rightarrow> (Returned (Some e), c)
         | None \<Rightarrow> (Returned None, c\<lparr>cf_file := Some data\<rparr>)))"

text \<open>A decoded JSON value, as far as \<open>Apply\<close> looks at it; a number is what \<open>int64\<close> makes of it, or
  None for NaN and the infinities.\<close>

datatype jval = JString string | JBool bool | JInt int | JFloat "int option" | JOther

definition set_string :: "(string \<times> jval) list \<Rightarrow> string \<Rightarrow> string \<Rightarrow> string" where
  "set_string updates tag old = (case map_of updates tag of Some (JString s) \<Rightarrow> s | _ \<Rightarrow> old)"

definition set_bool :: "(string \<times> jval) list \<Rightarrow> string \<Rightarrow> bool \<Rightarrow> bool" where
  "set_bool updates tag old = (case map_of updates tag of Some (JBool b) \<Rightarrow> b | _ \<Rightarrow> old)"

definition set_int :: "(string \<times> jval) list \<Rightarrow> string \<Rightarrow> int \<Rightarrow> int" where
  "set_int updates tag old = (case map_of updates tag of
      Some (JInt i) \<Rightarrow> i | Some (JFloat (Some i)) \<Rightarrow> i | _ \<Rightarrow> old)"

definition apply_updates :: "(string \<times> jval) list \<Rightarrow> Settings \<Rightarrow> Settings" where
  "apply_updates u s = \<lparr>st_DeviceName = set_string u ''device_name'' (st_DeviceName s),
     st_DownloadPath = set_string u ''download_path'' (st_DownloadPath s),
     st_Port = set_int u ''port'' (st_Port s),
     st_AutoReceive = set_string u ''auto_receive'' (st_AutoReceive s),
     st_ConflictPolicy = set_string u ''conflict_policy'' (st_ConflictPolicy s),
     st_SharePortRange = set_string u ''share_port_range'' (st_SharePortRange s),
     st_StealthMode = set_bool u ''stealth_mode'' (st_StealthMode s),
     st_NetworkInterface = set_string u ''network_interface'' (st_NetworkInterface s),
     st_MaxActiveShares = set_int u ''max_active_shares'' (st_MaxActiveShares s),
     st_Language = set_string u ''language'' (st_Language s),
     st_NotifyReceive = set_bool u ''notify_receive'' (st_NotifyReceive s),
     st_NotifySent = set_bool u ''notify_sent'' (st_NotifySent s),
     st_NotifyShare = set_bool u ''notify_share'' (st_NotifyShare s),
     st_RecordRetention = set_int u ''record_retention'' (st_RecordRetention s),
     st_IPv6Preferred = set_bool u ''ipv6_preferred'' (st_IPv6Preferred s),
     st_MobileDataAllowed = set_bool u ''mobile_data_allowed'' (st_MobileDataAllowed s)\<rparr>"

text \<open>\<open>Apply\<close> takes the write lock, which its deferred unlock gives back on return; a call to \<open>Save\<close> that
  never returns leaves it held.\<close>

definition Config_Apply ::
  "(Settings \<Rightarrow> bytes option) \<Rightarrow> ConfigError option \<Rightarrow> (string \<times> jval) list \<Rightarrow> Config \<Rightarrow>
    ConfigError option outcome \<times> Config" where
  "Config_Apply marshal io u c =
    (if cf_locked c then (Blocked, c)
     else
       let c1 = c\<lparr>cf_locked := True, cf_set := apply_updates u (cf_set c)\<rparr> in
       (case validateLocked (cf_set c1) of
          Some e \<Rightarrow> (Returned (Some e), c1\<lparr>cf_locked := False\<rparr>)
        | None \<Rightarrow> (case Config_Save marshal io c1 of
              (Blocked, c2) \<Rightarrow> (Blocked, c2)
            | (Returned r, c2) \<Rightarrow> (Returned r, c2\<lparr>cf_locked := False\<rparr>))))"

definition SetDeviceName ::
  "(Settings \<Rightarrow> bytes option) \<Rightarrow> ConfigError option \<Rightarrow> string \<Rightarrow> Config \<Rightarrow> ConfigError option outcome \<times> Config" where
  "SetDeviceName marshal io name c =
    (if cf_locked c then (Blocked, c)
     else
       let c1 = c\<lparr>cf_set := (cf_set c)\<lparr>st_DeviceName := name\<rparr>\<rparr> in
       (case validateLocked (cf_set c1) of
          Some e \<Rightarrow> (Returned (Some e), c1)
        | None \<Rightarrow> Config_Save marshal io c1))"

text \<open>Loading: the data directory, the file (an unreadable one is \<open>Some None\<close>) and the host's name.\<close>

definition Config_Load ::
  "(Settings \<Rightarrow> bytes option) \<Rightarrow> (bytes \<Rightarrow> Settings \<Rightarrow> Settings option) \<Rightarrow> ConfigError option \<Rightarrow> ConfigError option \<Rightarrow>
    string option \<Rightarrow> bytes option option \<Rightarrow> ConfigError + Config" where
  "Config_Load marshal unmarshal dir io host file =
    (case dir of Some e \<Rightarrow> Inl e | None \<Rightarrow>
      (case file of
         Some None \<Rightarrow> Inl ErrReadConfig
       | None \<Rightarrow>
         let name = (case host of Some h \<Rightarrow> h | None \<Rightarrow> ''Lanos-Device'');
             c = \<lparr>cf_set = Defaults\<lparr>st_DeviceName := name\<rparr>, cf_locked = False, cf_file = None\<rparr>
         in (case Config_Save marshal io c of
               (Returned None, c') \<Rightarrow> Inr c'
             | (Returned (Some e), c') \<Rightarrow> Inl e
             | (Blocked, c') \<Rightarrow> Inl ErrWriteConfig)
       | Some (Some data) \<Rightarrow>
         (case unmarshal data Defaults of
            None \<Rightarrow> Inl ErrParseConfig
          | Some s \<Rightarrow> Inr \<lparr>cf_set = s, cf_locked = False, cf_file = Some data\<rparr>)))"

section \<open>Startup\<close>

definition PortRangeMin :: int where "PortRangeMin = 52100"
definition PortRangeMax :: int where "PortRangeMax = 52999"

definition NewToken :: "bytes option \<Rightarrow> string option" where
  "NewToken rnd = map_option RawURLEncode rnd"

datatype BindError = ErrOutsideRange | ErrBind

text \<open>\<open>listen p\<close>: whether binding \<open>127.0.0.1:p\<close> succeeds.\<close>

definition BindLocal :: "(int \<Rightarrow> bool) \<Rightarrow> int \<Rightarrow> BindError + int" where
  "BindLocal listen port =
    (if port \<noteq> 0 \<and> (port < PortRangeMin \<or> PortRangeMax < port) then Inl ErrOutsideRange
     else case List.find listen (if port \<noteq> 0 then [port] else [PortRangeMin..PortRangeMax]) of
       Some p \<Rightarrow> Inr p
     | None \<Rightarrow> Inl ErrBind)"


section \<open>Properties\<close>

lemma blocked_when_locked: "cf_locked c \<Longrightarrow> Config_Save m io c = (Blocked, c) \<and> Config_Apply m io u c = (Blocked, c) \<and>
    SetDeviceName m io name c = (Blocked, c)"
  by (simp add: Config_Save_def Config_Apply_def SetDeviceName_def)

lemma Apply_cases:
  assumes "\<not> cf_locked c"
  shows "Config_Apply m io u c = (case validateLocked (apply_updates u (cf_set c)) of
      None \<Rightarrow> (Blocked, c\<lparr>cf_locked := True, cf_set := apply_updates u (cf_set c)\<rparr>)
    | Some e \<Rightarrow> (Returned (Some e), c\<lparr>cf_set := apply_updates u (cf_set c), cf_locked := False\<rparr>))"
  using assms by (simp add: Config_Apply_def Config_Save_def Let_def split: option.split)

text \<open>C37: A settings update never succeeds: with the lock free, \<open>Apply\<close> returns only the error of a rejected update;
  when the update is valid it asks for the read lock under its own write lock and hangs, the file is never
  written, and every later \<open>Apply\<close>, \<open>SetDeviceName\<close> and \<open>Save\<close> hangs as well.\<close>

theorem valid_update_hangs:
  assumes "\<not> cf_locked c" "Config_Apply m io u c = (out, c')"
  shows "out \<noteq> Returned None \<and> (out = Blocked \<longleftrightarrow> validateLocked (apply_updates u (cf_set c)) = None) \<and>
    cf_file c' = cf_file c \<and>
    (out = Blocked \<longrightarrow> (\<forall>m io u name. Config_Save m io c' = (Blocked, c') \<and> Config_Apply m io u c' = (Blocked, c') \<and>
      SetDeviceName m io name c' = (Blocked, c')))"
  using assms Apply_cases [OF assms(1), of m io u] blocked_when_locked [of c'] by (auto split: option.splits)

text \<open>A rejected update is not undone: the fields it names keep their new values, so after an update with, say, a
  port out of range the same error is returned for every new device name, and nothing can be saved.\<close>

theorem rejected_update_sticks:
  assumes "\<not> cf_locked c" "validateLocked (apply_updates u (cf_set c)) = Some e" "e \<noteq> ErrDeviceName" "name \<noteq> []"
  shows "\<exists>c'. Config_Apply m io u c = (Returned (Some e), c') \<and> cf_set c' = apply_updates u (cf_set c) \<and>
    fst (SetDeviceName m io' name c') = Returned (Some e) \<and> cf_file (snd (SetDeviceName m io' name c')) = cf_file c"
proof -
  let ?s = "apply_updates u (cf_set c)"
  have "validateLocked (?s\<lparr>st_DeviceName := name\<rparr>) = Some e"
    using assms(2-4) by (auto simp: validateLocked_def split: if_splits)
  then show ?thesis using Apply_cases [OF assms(1), of m io u] assms(2) by (simp add: SetDeviceName_def)
qed

lemma upto_find: "List.find P [a..b] = Some p \<Longrightarrow> a \<le> p \<and> p \<le> b \<and> P p \<and> (\<forall>q. a \<le> q \<and> q < p \<longrightarrow> \<not> P q)"
proof -
  assume "List.find P [a..b] = Some p"
  then obtain i where i: "i < length [a..b]" "P ([a..b] ! i)" "p = [a..b] ! i" "\<forall>j < i. \<not> P ([a..b] ! j)"
    by (auto simp: find_Some_iff)
  have nth: "[a..b] ! j = a + int j" if "j < length [a..b]" for j using that by (simp add: nth_upto)
  have "\<not> P q" if "a \<le> q" "q < p" for q
  proof -
    have "nat (q - a) < i" using i nth that by auto
    then have "\<not> P ([a..b] ! nat (q - a))" using i(4) by blast
    then show ?thesis using nth [of "nat (q - a)"] \<open>nat (q - a) < i\<close> i(1) that by simp
  qed
  then show ?thesis using i nth by auto
qed

text \<open>The local port: with port 0 the first free port of 52100 to 52999 is bound, if there is one; a configured
  port is bound only inside that range, and no other is tried when it is busy, although the settings accept
  every port from 1024 to 65535; an accepted port outside the range makes the next start fail.\<close>

theorem bind_local_ports:
  "(BindLocal listen 0 = Inr p \<longrightarrow> 52100 \<le> p \<and> p \<le> 52999 \<and> listen p \<and> (\<forall>q. 52100 \<le> q \<and> q < p \<longrightarrow> \<not> listen q)) \<and>
   (BindLocal listen 0 = Inl ErrBind \<longleftrightarrow> (\<forall>q. 52100 \<le> q \<and> q \<le> 52999 \<longrightarrow> \<not> listen q)) \<and>
   (52100 \<le> port \<and> port \<le> 52999 \<longrightarrow> BindLocal listen port = (if listen port then Inr port else Inl ErrBind)) \<and>
   (1024 \<le> port \<and> port \<le> 65535 \<and> \<not> (52100 \<le> port \<and> port \<le> 52999) \<longrightarrow>
      BindLocal listen port = Inl ErrOutsideRange \<and>
      validateLocked (s\<lparr>st_Port := port\<rparr>) = validateLocked (s\<lparr>st_Port := 0\<rparr>))"
proof (intro conjI impI)
  assume "BindLocal listen 0 = Inr p"
  then have "List.find listen [52100..52999] = Some p"
    unfolding BindLocal_def by (simp add: PortRangeMin_def PortRangeMax_def del: upto_rec_numeral split: option.splits)
  from upto_find [OF this] show "52100 \<le> p" "p \<le> 52999" "listen p" "\<forall>q. 52100 \<le> q \<and> q < p \<longrightarrow> \<not> listen q"
    by auto
next
  have "BindLocal listen 0 = Inl ErrBind \<longleftrightarrow> List.find listen [52100..52999] = None"
    unfolding BindLocal_def by (simp add: PortRangeMin_def PortRangeMax_def del: upto_rec_numeral split: option.split)
  then show "BindLocal listen 0 = Inl ErrBind \<longleftrightarrow> (\<forall>q. 52100 \<le> q \<and> q \<le> 52999 \<longrightarrow> \<not> listen q)"
    by (auto simp: find_None_iff simp del: upto_rec_numeral)
qed (auto simp: BindLocal_def PortRangeMin_def PortRangeMax_def validateLocked_def simp del: upto_rec_numeral)

text \<open>The configuration survives a restart: what the first start wrote, the second reads back, device name
  included, given that YAML decodes over the defaults what it encoded.\<close>

theorem config_survives_restart:
  assumes "\<And>h. unmarshal (the (marshal (Defaults\<lparr>st_DeviceName := h\<rparr>))) Defaults = Some (Defaults\<lparr>st_DeviceName := h\<rparr>)"
    "Config_Load marshal unmarshal None io host None = Inr c"
  shows "st_DeviceName (cf_set c) = (case host of Some h \<Rightarrow> h | None \<Rightarrow> ''Lanos-Device'') \<and> cf_file c \<noteq> None \<and>
    Config_Load marshal unmarshal None io' host' (Some (cf_file c)) = Inr c"
proof -
  let ?n = "case host of Some h \<Rightarrow> h | None \<Rightarrow> ''Lanos-Device''"
  obtain data where "marshal (Defaults\<lparr>st_DeviceName := ?n\<rparr>) = Some data"
    "c = \<lparr>cf_set = Defaults\<lparr>st_DeviceName := ?n\<rparr>, cf_locked = False, cf_file = Some data\<rparr>"
    using assms(2) by (auto simp: Config_Load_def Config_Save_def Let_def split: option.splits)
  then show ?thesis using assms(1) [of ?n] by (simp add: Config_Load_def)
qed

section \<open>A concrete configuration\<close>

definition demo_config :: Config where
  "demo_config = \<lparr>cf_set = Defaults\<lparr>st_DeviceName := ''den''\<rparr>, cf_locked = False, cf_file = None\<rparr>"

definition demo_yaml :: "Settings \<Rightarrow> bytes option" where
  "demo_yaml s = Some (str_bytes (st_DeviceName s))"

definition demo_unyaml :: "bytes \<Rightarrow> Settings \<Rightarrow> Settings option" where
  "demo_unyaml b s = Some (s\<lparr>st_DeviceName := bytes_str b\<rparr>)"

lemma valid_update_hangs_witness:
  "fst (Config_Apply demo_yaml None [(''port'', JFloat (Some 52101))] demo_config) = Blocked"
  using valid_update_hangs [of demo_config demo_yaml None "[(''port'', JFloat (Some 52101))]"]
  by (cases "Config_Apply demo_yaml None [(''port'', JFloat (Some 52101))] demo_config")
    (auto simp: demo_config_def Defaults_def apply_updates_def set_string_def set_int_def set_bool_def validateLocked_def)

lemma rejected_update_sticks_witness:
  "\<exists>c'. Config_Apply demo_yaml None [(''port'', JFloat (Some 80))] demo_config = (Returned (Some ErrPortRange), c') \<and>
    cf_set c' = apply_updates [(''port'', JFloat (Some 80))] (cf_set demo_config) \<and>
    fst (SetDeviceName demo_yaml None ''pc'' c') = Returned (Some ErrPortRange) \<and>
    cf_file (snd (SetDeviceName demo_yaml None ''pc'' c')) = cf_file demo_config"
  by (rule rejected_update_sticks)
    (simp_all add: demo_config_def Defaults_def apply_updates_def set_string_def set_int_def set_bool_def validateLocked_def)

lemma bind_local_ports_witness:
  "BindLocal (\<lambda>p. True) 8080 = Inl ErrOutsideRange \<and>
   validateLocked ((cf_set demo_config)\<lparr>st_Port := 8080\<rparr>) = validateLocked ((cf_set demo_config)\<lparr>st_Port := 0\<rparr>)"
  using bind_local_ports [of "\<lambda>p. True" 52100 8080 "cf_set demo_config"] by simp

definition demo_loaded :: Config where
  "demo_loaded = \<lparr>cf_set = Defaults\<lparr>st_DeviceName := ''den''\<rparr>, cf_locked = False,
     cf_file = demo_yaml (Defaults\<lparr>st_DeviceName := ''den''\<rparr>)\<rparr>"

lemma demo_load: "Config_Load demo_yaml demo_unyaml None None (Some ''den'') None = Inr demo_loaded"
  by (simp add: Config_Load_def Config_Save_def demo_yaml_def demo_loaded_def)

lemma config_survives_restart_witness:
  "Config_Load demo_yaml demo_unyaml None None None (Some (cf_file demo_loaded)) = Inr demo_loaded"
proof -
  have "demo_unyaml (the (demo_yaml (Defaults\<lparr>st_DeviceName := h\<rparr>))) Defaults = Some (Defaults\<lparr>st_DeviceName := h\<rparr>)" for h
    by (simp add: demo_yaml_def demo_unyaml_def)
  from config_survives_restart [OF this demo_load] show ?thesis by blast
qed

end
