(* ===== verification/InstanceLock.thy ===== *)
theory InstanceLock
  imports Prelude
begin

text \<open>
  The single-instance lock (\<open>core/instance/instance.go\<close>, with \<open>flock\<close> of \<open>instance_unix.go\<close>) as
  interleaved system calls of several processes. A path names a file, a lock belongs to the file, and
  a removed path leaves the file behind for those that have it open.
\<close>

section \<open>Processes and files\<close>

text \<open>Where a process is: before \<open>Acquire\<close>, after opening file \<open>i\<close>, holding its lock, or in \<open>Release\<close> after
  unlocking and closing.\<close>

datatype pc = Idle | Opened nat | Holding nat | Released

record LockState =
  ls_path :: "nat option"
  ls_next :: nat
  ls_owner :: "nat \<Rightarrow> nat option"
  ls_pc :: "nat \<Rightarrow> pc"

definition start :: LockState where
  "start = \<lparr>ls_path = None, ls_next = 0, ls_owner = (\<lambda>_. None), ls_pc = (\<lambda>_. Idle)\<rparr>"

datatype laction = Open nat | TryLock nat | Unlock nat | RemovePath nat | Crash nat

text \<open>\<open>Acquire\<close> opens (and creates) the path, then tries the lock; \<open>Release\<close> unlocks, then removes the path.
  A crash drops what the process holds. None: the process is not at that step.\<close>

definition Acquire_open :: "nat \<Rightarrow> LockState \<Rightarrow> LockState option" where
  "Acquire_open p s = (if ls_pc s p \<noteq> Idle then None
     else case ls_path s of
       Some i \<Rightarrow> Some (s\<lparr>ls_pc := (ls_pc s)(p := Opened i)\<rparr>)
     | None \<Rightarrow> Some (s\<lparr>ls_path := Some (ls_next s), ls_next := Suc (ls_next s), ls_pc := (ls_pc s)(p := Opened (ls_next s))\<rparr>))"

definition Acquire_lock :: "nat \<Rightarrow> LockState \<Rightarrow> LockState option" where
  "Acquire_lock p s = (case ls_pc s p of
      Opened i \<Rightarrow> Some (if ls_owner s i = None
        then s\<lparr>ls_owner := (ls_owner s)(i := Some p), ls_pc := (ls_pc s)(p := Holding i)\<rparr>
        else s\<lparr>ls_pc := (ls_pc s)(p := Idle)\<rparr>)
    | _ \<Rightarrow> None)"

definition Release_unlock :: "nat \<Rightarrow> LockState \<Rightarrow> LockState option" where
  "Release_unlock p s = (case ls_pc s p of
      Holding i \<Rightarrow> Some (s\<lparr>ls_owner := (ls_owner s)(i := None), ls_pc := (ls_pc s)(p := Released)\<rparr>)
    | _ \<Rightarrow> None)"

definition Release_remove :: "nat \<Rightarrow> LockState \<Rightarrow> LockState option" where
  "Release_remove p s = (case ls_pc s p of
      Released \<Rightarrow> Some (s\<lparr>ls_path := None, ls_pc := (ls_pc s)(p := Idle)\<rparr>)
    | _ \<Rightarrow> None)"

definition crash :: "nat \<Rightarrow> LockState \<Rightarrow> LockState option" where
  "crash p s = Some (s\<lparr>ls_owner := (case ls_pc s p of Holding i \<Rightarrow> (ls_owner s)(i := None) | _ \<Rightarrow> ls_owner s),
     ls_pc := (ls_pc s)(p := Idle)\<rparr>)"

fun act :: "laction \<Rightarrow> LockState \<Rightarrow> LockState option" where
  "act (Open p) s = Acquire_open p s"
| "act (TryLock p) s = Acquire_lock p s"
| "act (Unlock p) s = Release_unlock p s"
| "act (RemovePath p) s = Release_remove p s"
| "act (Crash p) s = crash p s"

inductive reach :: "(laction \<Rightarrow> bool) \<Rightarrow> LockState \<Rightarrow> bool" for allowed where
  init: "reach allowed start"
| step: "reach allowed s \<Longrightarrow> allowed a \<Longrightarrow> act a s = Some t \<Longrightarrow> reach allowed t"

fun removes :: "laction \<Rightarrow> bool" where
  "removes (RemovePath p) = True"
| "removes _ = False"

section \<open>Properties\<close>

definition lock_inv :: "LockState \<Rightarrow> bool" where
  "lock_inv s \<longleftrightarrow> (\<forall>p i. ls_owner s i = Some p \<longleftrightarrow> ls_pc s p = Holding i)"

lemmas act_defs = Acquire_open_def Acquire_lock_def Release_unlock_def Release_remove_def crash_def

lemma act_inv: "lock_inv s \<Longrightarrow> act a s = Some t \<Longrightarrow> lock_inv t"
  by (cases a)
    (auto simp: act_defs lock_inv_def split: option.splits pc.splits if_splits, (metis option.distinct(1) option.inject)+)

lemma lock_reach_inv: "reach P s \<Longrightarrow> lock_inv s"
  by (induction rule: reach.induct) (simp add: start_def lock_inv_def, rule act_inv)

text \<open>As long as the path is never removed, every process works on the one file it names.\<close>

definition one_file :: "LockState \<Rightarrow> bool" where
  "one_file s \<longleftrightarrow> (\<forall>p i. ls_pc s p = Opened i \<or> ls_pc s p = Holding i \<longrightarrow> ls_path s = Some i)"

lemma act_one_file: "one_file s \<Longrightarrow> act a s = Some t \<Longrightarrow> \<not> removes a \<Longrightarrow> one_file t"
  by (cases a)
    (auto simp: act_defs one_file_def split: option.splits pc.splits if_splits, (metis option.distinct(1) option.inject)+)

lemma reach_one_file: "reach (\<lambda>a. \<not> removes a) s \<Longrightarrow> one_file s"
  by (induction rule: reach.induct) (simp add: start_def one_file_def, rule act_one_file)


text \<open>Mutual exclusion: as long as no process releases its lock (they end by exiting or crashing, which drops the
  lock), at most one process holds the instance lock in every reachable state.\<close>

theorem one_instance_without_release:
  assumes "reach (\<lambda>a. \<not> removes a) s" "ls_pc s p = Holding i" "ls_pc s q = Holding j"
  shows "p = q \<and> i = j"
proof -
  have "i = j" using reach_one_file [OF assms(1)] assms(2,3) by (metis one_file_def option.inject)
  moreover have "ls_owner s i = Some p" "ls_owner s j = Some q"
    using lock_reach_inv [OF assms(1)] assms(2,3) by (simp_all add: lock_inv_def)
  ultimately show ?thesis by simp
qed

text \<open>Three processes: the first releases, the second locks the old file between the unlock and the removal of the
  path, the third creates a new file.\<close>

definition race :: "laction list" where
  "race = [Open 1, TryLock 1, Open 2, Unlock 1, TryLock 2, RemovePath 1, Open 3, TryLock 3]"

definition run :: "laction list \<Rightarrow> LockState \<Rightarrow> LockState option" where
  "run as s = foldl (\<lambda>t a. Option.bind t (act a)) (Some s) as"

lemma run_reach: "reach P s \<Longrightarrow> list_all P as \<Longrightarrow> run as s = Some t \<Longrightarrow> reach P t"
proof (induction as arbitrary: s)
  case (Cons a as)
  have none: "foldl (\<lambda>t a. Option.bind t (act a)) None xs = None" for xs by (induction xs) simp_all
  from Cons.prems obtain u where u: "act a s = Some u" "run as u = Some t"
    by (cases "act a s") (auto simp: run_def none)
  with Cons show ?case by (auto intro: reach.step)
qed (simp add: run_def)

text \<open>\<open>Release\<close> breaks mutual exclusion: it removes the path after it has given up the lock, so a process that has
  opened the old file in between and one that creates the new file both hold the lock, as two instances.\<close>

theorem release_allows_two_instances:
  "\<exists>s i j. reach (\<lambda>a. True) s \<and> ls_pc s 2 = Holding i \<and> ls_pc s 3 = Holding j \<and> i \<noteq> j"
proof -
  obtain s where s: "run race start = Some s" "ls_pc s 2 = Holding 0" "ls_pc s 3 = Holding 1"
    by (simp add: run_def race_def start_def act_defs)
  then have "reach (\<lambda>a. True) s" using run_reach [OF reach.init, of "\<lambda>a. True" race] by (simp add: list_all_iff)
  with s show ?thesis by (intro exI [of _ s] exI [of _ 0] exI [of _ 1]) simp
qed

lemma one_instance_without_release_witness: "\<exists>s. reach (\<lambda>a. \<not> removes a) s \<and> ls_pc s 7 = Holding 0 \<and> (7 :: nat) = 7"
proof -
  obtain s where s: "run [Open 7, TryLock 7] start = Some s" "ls_pc s 7 = Holding 0"
    by (simp add: run_def start_def act_defs)
  then have r: "reach (\<lambda>a. \<not> removes a) s" using run_reach [OF reach.init, of "\<lambda>a. \<not> removes a" "[Open 7, TryLock 7]"] by simp
  show ?thesis using one_instance_without_release [OF r s(2) s(2)] r s(2) by blast
qed

end
