(* ===== verification/Store.thy ===== *)
theory Store
  imports GoText "HOL-Library.Sublist"
begin

text \<open>
  The transfer log (\<open>core/store/crud.go\<close>): the two tables as lists of rows, and each function as what its
  SQL statement says. The order of rows with equal keys is SQLite's choice, so sorting is a parameter;
  so are the failures of a statement, the choice of a random column, and the printing of a time. Times
  are nanoseconds, the columns hold seconds.
\<close>

section \<open>Records and rows\<close>

record ShareRecord =
  sr_ID :: string
  sr_Kind :: string
  sr_Target :: string
  sr_FilePath :: string
  sr_Size :: int
  sr_Status :: string
  sr_CreatedAt :: int
  sr_ExpiresAt :: "int option"
  sr_Downloads :: int
  sr_MaxDownloads :: "int option"

record TransferRecord =
  tr_ID :: string
  tr_Direction :: string
  tr_PeerDeviceID :: string
  tr_PeerName :: string
  tr_FilePath :: string
  tr_Size :: int
  tr_Status :: string
  tr_StartedAt :: int
  tr_FinishedAt :: "int option"
  tr_Error :: string

text \<open>The rows: a text column that can be NULL is an option.\<close>

record ShareRow =
  sw_id :: string
  sw_kind :: string
  sw_target :: "string option"
  sw_file_path :: string
  sw_size :: int
  sw_status :: string
  sw_created_at :: int
  sw_expires_at :: "int option"
  sw_downloads :: int
  sw_max_downloads :: "int option"

record TransferRow =
  tw_id :: string
  tw_direction :: string
  tw_peer_device_id :: string
  tw_peer_name :: "string option"
  tw_file_path :: string
  tw_size :: int
  tw_status :: string
  tw_started_at :: int
  tw_finished_at :: "int option"
  tw_error :: "string option"

record DB =
  db_shares :: "ShareRow list"
  db_transfers :: "TransferRow list"

datatype SortField = SortByTime | SortBySize | SortByName | SortByStatus | OtherField string
datatype SortOrder = SortDesc | SortAsc | OtherOrder string

record ListOptions =
  lo_Search :: string
  lo_SortBy :: SortField
  lo_Order :: SortOrder
  lo_Limit :: int
  lo_Offset :: int

definition DefaultListOptions :: ListOptions where
  "DefaultListOptions = \<lparr>lo_Search = [], lo_SortBy = SortByTime, lo_Order = SortDesc, lo_Limit = 100, lo_Offset = 0\<rparr>"

datatype DBError = ErrConstraint | ErrNoRows | ErrSQL string | ErrScanNull

definition Unix :: "int \<Rightarrow> int" where "Unix t = t div 1000000000"
definition from_Unix :: "int \<Rightarrow> int" where "from_Unix s = s * 1000000000"

definition nullTime :: "int option \<Rightarrow> int option" where "nullTime t = map_option Unix t"
definition nullInt :: "int option \<Rightarrow> int option" where "nullInt i = i"

text \<open>A statement that fails leaves the tables alone.\<close>

definition exec :: "DBError option \<Rightarrow> (DB \<Rightarrow> DB) \<Rightarrow> DB \<Rightarrow> DBError option \<times> DB" where
  "exec err f db = (case err of Some e \<Rightarrow> (Some e, db) | None \<Rightarrow> (None, f db))"

section \<open>Shares\<close>

definition CreateShare :: "DBError option \<Rightarrow> ShareRecord \<Rightarrow> DB \<Rightarrow> DBError option \<times> DB" where
  "CreateShare err r db =
    (if \<exists>row \<in> set (db_shares db). sw_id row = sr_ID r then (Some ErrConstraint, db)
     else exec err (\<lambda>db. db\<lparr>db_shares := db_shares db @ [\<lparr>sw_id = sr_ID r, sw_kind = sr_Kind r, sw_target = Some (sr_Target r),
       sw_file_path = sr_FilePath r, sw_size = sr_Size r, sw_status = sr_Status r, sw_created_at = Unix (sr_CreatedAt r),
       sw_expires_at = nullTime (sr_ExpiresAt r), sw_downloads = sr_Downloads r,
       sw_max_downloads = nullInt (sr_MaxDownloads r)\<rparr>]\<rparr>) db)"

definition scan_share :: "ShareRow \<Rightarrow> ShareRecord" where
  "scan_share w = \<lparr>sr_ID = sw_id w, sr_Kind = sw_kind w, sr_Target = (case sw_target w of None \<Rightarrow> [] | Some t \<Rightarrow> t),
     sr_FilePath = sw_file_path w, sr_Size = sw_size w, sr_Status = sw_status w,
     sr_CreatedAt = from_Unix (sw_created_at w), sr_ExpiresAt = map_option from_Unix (sw_expires_at w),
     sr_Downloads = sw_downloads w, sr_MaxDownloads = sw_max_downloads w\<rparr>"

definition GetShare :: "DBError option \<Rightarrow> string \<Rightarrow> DB \<Rightarrow> DBError + ShareRecord" where
  "GetShare err i db = (case err of Some e \<Rightarrow> Inl e
     | None \<Rightarrow> (case List.find (\<lambda>w. sw_id w = i) (db_shares db) of None \<Rightarrow> Inl ErrNoRows | Some w \<Rightarrow> Inr (scan_share w)))"

definition UpdateShareStatus :: "DBError option \<Rightarrow> string \<Rightarrow> string \<Rightarrow> DB \<Rightarrow> DBError option \<times> DB" where
  "UpdateShareStatus err i status = exec err (\<lambda>db. db\<lparr>db_shares :=
     map (\<lambda>w. if sw_id w = i then w\<lparr>sw_status := status\<rparr> else w) (db_shares db)\<rparr>)"

definition IncrementShareDownloads :: "DBError option \<Rightarrow> string \<Rightarrow> DB \<Rightarrow> DBError option \<times> DB" where
  "IncrementShareDownloads err i = exec err (\<lambda>db. db\<lparr>db_shares :=
     map (\<lambda>w. if sw_id w = i then w\<lparr>sw_downloads := sw_downloads w + 1\<rparr> else w) (db_shares db)\<rparr>)"

definition DeleteShare :: "DBError option \<Rightarrow> string \<Rightarrow> DB \<Rightarrow> DBError option \<times> DB" where
  "DeleteShare err i = exec err (\<lambda>db. db\<lparr>db_shares := filter (\<lambda>w. sw_id w \<noteq> i) (db_shares db)\<rparr>)"

section \<open>Queries\<close>

text \<open>The columns a query may be ordered by.\<close>

definition validShareOrderBy :: "(SortField \<times> string) list" where
  "validShareOrderBy = [(SortByTime, ''created_at''), (SortBySize, ''size''), (SortByName, ''file_path''), (SortByStatus, ''status'')]"

definition validTransferOrderBy :: "(SortField \<times> string) list" where
  "validTransferOrderBy = [(SortByTime, ''started_at''), (SortBySize, ''size''), (SortByName, ''file_path''), (SortByStatus, ''status'')]"

text \<open>For an unknown field the loop over the map returns the column it visits first, which Go leaves open:
  \<open>first\<close> is the position.\<close>

definition safeOrderBy :: "nat \<Rightarrow> (SortField \<times> string) list \<Rightarrow> SortField \<Rightarrow> string" where
  "safeOrderBy first m field = (case map_of m field of
      Some col \<Rightarrow> col
    | None \<Rightarrow> if m = [] then ''created_at'' else snd (m ! (first mod length m)))"

definition safeOrder :: "SortOrder \<Rightarrow> string" where
  "safeOrder ord = (if ord = SortAsc then ''ASC'' else ''DESC'')"

definition escapeLike :: "string \<Rightarrow> string" where
  "escapeLike s = ReplaceChar (CHR ''_'') ''!_'' (ReplaceChar (CHR ''%'') ''!%'' (ReplaceChar (CHR ''!'') ''!!'' s))"

text \<open>SQL's \<open>LIKE\<close> with the escape character \<open>!\<close>, without regard to the case of ASCII letters.\<close>

definition fold_char :: "char \<Rightarrow> char" where
  "fold_char c = (if CHR ''A'' \<le> c \<and> c \<le> CHR ''Z'' then char_of (of_char c + (32 :: nat)) else c)"

fun like :: "string \<Rightarrow> string \<Rightarrow> bool" where
  "like [] s \<longleftrightarrow> s = []"
| "like (c # p) s \<longleftrightarrow>
    (if c = CHR ''%'' then list_ex (\<lambda>n. like p (drop n s)) [0..<Suc (length s)]
     else if c = CHR ''_'' then s \<noteq> [] \<and> like p (tl s)
     else if c = CHR ''!'' then (case p of [] \<Rightarrow> False | d # p' \<Rightarrow> s \<noteq> [] \<and> fold_char (hd s) = fold_char d \<and> like p' (tl s))
     else s \<noteq> [] \<and> fold_char (hd s) = fold_char c \<and> like p (tl s))"

definition matches :: "string \<Rightarrow> string \<Rightarrow> bool" where
  "matches search path \<longleftrightarrow> search = [] \<or> like (''%'' @ escapeLike search @ ''%'') path"

definition page :: "int \<Rightarrow> int \<Rightarrow> 'a list \<Rightarrow> 'a list" where
  "page limit offset rows = take (nat (if limit \<le> 0 then 100 else limit)) (drop (nat offset) rows)"

text \<open>\<open>srt col dir rows\<close>: the rows as \<open>ORDER BY col dir\<close> delivers them.\<close>

definition ListShares ::
  "(string \<Rightarrow> string \<Rightarrow> ShareRow list \<Rightarrow> ShareRow list) \<Rightarrow> DBError option \<Rightarrow> nat \<Rightarrow> ListOptions \<Rightarrow> DB \<Rightarrow> DBError + ShareRecord list" where
  "ListShares srt err first opts db = (case err of Some e \<Rightarrow> Inl e
     | None \<Rightarrow> Inr (map scan_share (page (lo_Limit opts) (lo_Offset opts)
         (srt (safeOrderBy first validShareOrderBy (lo_SortBy opts)) (safeOrder (lo_Order opts))
           (filter (\<lambda>w. matches (lo_Search opts) (sw_file_path w)) (db_shares db))))))"

definition CountShares :: "DBError option \<Rightarrow> DB \<Rightarrow> DBError + nat" where
  "CountShares err db = (case err of Some e \<Rightarrow> Inl e | None \<Rightarrow> Inr (length (db_shares db)))"

section \<open>Transfers\<close>

definition CreateTransfer :: "DBError option \<Rightarrow> TransferRecord \<Rightarrow> DB \<Rightarrow> DBError option \<times> DB" where
  "CreateTransfer err r db =
    (if \<exists>row \<in> set (db_transfers db). tw_id row = tr_ID r then (Some ErrConstraint, db)
     else exec err (\<lambda>db. db\<lparr>db_transfers := db_transfers db @ [\<lparr>tw_id = tr_ID r, tw_direction = tr_Direction r,
       tw_peer_device_id = tr_PeerDeviceID r, tw_peer_name = Some (tr_PeerName r), tw_file_path = tr_FilePath r,
       tw_size = tr_Size r, tw_status = tr_Status r, tw_started_at = Unix (tr_StartedAt r),
       tw_finished_at = nullTime (tr_FinishedAt r), tw_error = Some (tr_Error r)\<rparr>]\<rparr>) db)"

definition scan_transfer :: "TransferRow \<Rightarrow> TransferRecord" where
  "scan_transfer w = \<lparr>tr_ID = tw_id w, tr_Direction = tw_direction w, tr_PeerDeviceID = tw_peer_device_id w,
     tr_PeerName = (case tw_peer_name w of None \<Rightarrow> [] | Some n \<Rightarrow> n), tr_FilePath = tw_file_path w, tr_Size = tw_size w,
     tr_Status = tw_status w, tr_StartedAt = from_Unix (tw_started_at w),
     tr_FinishedAt = map_option from_Unix (tw_finished_at w),
     tr_Error = (case tw_error w of None \<Rightarrow> [] | Some e \<Rightarrow> e)\<rparr>"

definition GetTransfer :: "DBError option \<Rightarrow> string \<Rightarrow> DB \<Rightarrow> DBError + TransferRecord" where
  "GetTransfer err i db = (case err of Some e \<Rightarrow> Inl e
     | None \<Rightarrow> (case List.find (\<lambda>w. tw_id w = i) (db_transfers db) of None \<Rightarrow> Inl ErrNoRows | Some w \<Rightarrow> Inr (scan_transfer w)))"

definition UpdateTransferStatus ::
  "DBError option \<Rightarrow> string \<Rightarrow> string \<Rightarrow> int option \<Rightarrow> string \<Rightarrow> DB \<Rightarrow> DBError option \<times> DB" where
  "UpdateTransferStatus err i status finishedAt errMsg = exec err (\<lambda>db. db\<lparr>db_transfers :=
     map (\<lambda>w. if tw_id w = i then w\<lparr>tw_status := status, tw_finished_at := nullTime finishedAt, tw_error := Some errMsg\<rparr>
       else w) (db_transfers db)\<rparr>)"

definition DeleteTransfer :: "DBError option \<Rightarrow> string \<Rightarrow> DB \<Rightarrow> DBError option \<times> DB" where
  "DeleteTransfer err i = exec err (\<lambda>db. db\<lparr>db_transfers := filter (\<lambda>w. tw_id w \<noteq> i) (db_transfers db)\<rparr>)"

definition ListTransfers ::
  "(string \<Rightarrow> string \<Rightarrow> TransferRow list \<Rightarrow> TransferRow list) \<Rightarrow> DBError option \<Rightarrow> nat \<Rightarrow> ListOptions \<Rightarrow> DB \<Rightarrow>
    DBError + TransferRecord list" where
  "ListTransfers srt err first opts db = (case err of Some e \<Rightarrow> Inl e
     | None \<Rightarrow> Inr (map scan_transfer (page (lo_Limit opts) (lo_Offset opts)
         (srt (safeOrderBy first validTransferOrderBy (lo_SortBy opts)) (safeOrder (lo_Order opts))
           (filter (\<lambda>w. matches (lo_Search opts) (tw_file_path w)) (db_transfers db))))))"

definition CountTransfers :: "DBError option \<Rightarrow> DB \<Rightarrow> DBError + nat" where
  "CountTransfers err db = (case err of Some e \<Rightarrow> Inl e | None \<Rightarrow> Inr (length (db_transfers db)))"

section \<open>Batches and retention\<close>

text \<open>A transaction: \<open>err\<close> is the first failure of its steps, begin, prepare, one execution per id, commit;
  the deferred rollback then undoes the deletions made so far.\<close>

definition DeleteShares :: "DBError option \<Rightarrow> string list \<Rightarrow> DB \<Rightarrow> DBError option \<times> DB" where
  "DeleteShares err ids db = (if ids = [] then (None, db)
     else exec err (\<lambda>db. db\<lparr>db_shares := fold (\<lambda>i. filter (\<lambda>w. sw_id w \<noteq> i)) ids (db_shares db)\<rparr>) db)"

definition DeleteTransfers :: "DBError option \<Rightarrow> string list \<Rightarrow> DB \<Rightarrow> DBError option \<times> DB" where
  "DeleteTransfers err ids db = (if ids = [] then (None, db)
     else exec err (\<lambda>db. db\<lparr>db_transfers := fold (\<lambda>i. filter (\<lambda>w. tw_id w \<noteq> i)) ids (db_transfers db)\<rparr>) db)"

definition EnforceRetention ::
  "(string \<Rightarrow> string \<Rightarrow> ShareRow list \<Rightarrow> ShareRow list) \<Rightarrow> (string \<Rightarrow> string \<Rightarrow> TransferRow list \<Rightarrow> TransferRow list) \<Rightarrow>
    DBError option \<Rightarrow> DBError option \<Rightarrow> int \<Rightarrow> DB \<Rightarrow> DBError option \<times> DB" where
  "EnforceRetention srt srt' err err' keep db = (if keep \<le> 0 then (None, db)
     else case exec err (\<lambda>db. db\<lparr>db_shares := filter (\<lambda>w. sw_id w \<in>
            sw_id ` set (take (nat keep) (srt ''created_at'' ''DESC'' (db_shares db)))) (db_shares db)\<rparr>) db of
         (Some e, db1) \<Rightarrow> (Some e, db1)
       | (None, db1) \<Rightarrow> exec err' (\<lambda>db. db\<lparr>db_transfers := filter (\<lambda>w. tw_id w \<in>
            tw_id ` set (take (nat keep) (srt' ''started_at'' ''DESC'' (db_transfers db)))) (db_transfers db)\<rparr>) db1)"

section \<open>CSV export\<close>

text \<open>\<open>encoding/csv\<close>'s writer: when a field is quoted, and how.\<close>

definition fieldNeedsQuotes :: "string \<Rightarrow> bool" where
  "fieldNeedsQuotes f \<longleftrightarrow> f \<noteq> [] \<and> (f = [CHR 0x5C, CHR ''.''] \<or>
     list_ex (\<lambda>c. c = LF \<or> c = CHR 0x0D \<or> c = CHR 0x22 \<or> c = CHR '','') f \<or> list_ex (HasPrefix f) space_seqs)"

definition csv_field :: "string \<Rightarrow> string" where
  "csv_field f = (if fieldNeedsQuotes f then CHR 0x22 # ReplaceChar (CHR 0x22) [CHR 0x22, CHR 0x22] f @ [CHR 0x22] else f)"

definition csv_row :: "string list \<Rightarrow> string" where
  "csv_row fs = Join (CHR '','') (map csv_field fs) @ [LF]"

text \<open>\<open>rfc3339\<close> prints a time given in seconds.\<close>

definition nullTimeStr :: "(int \<Rightarrow> string) \<Rightarrow> int option \<Rightarrow> string" where
  "nullTimeStr rfc3339 n = (case n of None \<Rightarrow> [] | Some s \<Rightarrow> rfc3339 s)"

definition nullIntStr :: "int option \<Rightarrow> string" where
  "nullIntStr n = (case n of None \<Rightarrow> [] | Some i \<Rightarrow> Itoa i)"

definition share_fields :: "(int \<Rightarrow> string) \<Rightarrow> ShareRow \<Rightarrow> string list option" where
  "share_fields rfc3339 w = (case sw_target w of None \<Rightarrow> None
     | Some t \<Rightarrow> Some [sw_id w, sw_kind w, t, sw_file_path w, Itoa (sw_size w), sw_status w, rfc3339 (sw_created_at w),
         nullTimeStr rfc3339 (sw_expires_at w), Itoa (sw_downloads w), nullIntStr (sw_max_downloads w)])"

definition transfer_fields :: "(int \<Rightarrow> string) \<Rightarrow> TransferRow \<Rightarrow> string list option" where
  "transfer_fields rfc3339 w = (case (tw_peer_name w, tw_error w) of
       (Some n, Some e) \<Rightarrow> Some [tw_id w, tw_direction w, tw_peer_device_id w, n, tw_file_path w, Itoa (tw_size w), tw_status w,
         rfc3339 (tw_started_at w), nullTimeStr rfc3339 (tw_finished_at w), e]
     | _ \<Rightarrow> None)"

text \<open>Writing the rows until one does not scan: a NULL in a text column is an error.\<close>

fun csv_rows :: "('a \<Rightarrow> string list option) \<Rightarrow> 'a list \<Rightarrow> string \<Rightarrow> DBError option \<times> string" where
  "csv_rows cols [] out = (None, out)"
| "csv_rows cols (w # ws) out = (case cols w of
      None \<Rightarrow> (Some ErrScanNull, out)
    | Some fs \<Rightarrow> csv_rows cols ws (out @ csv_row fs))"

definition ExportSharesCSV ::
  "(string \<Rightarrow> string \<Rightarrow> ShareRow list \<Rightarrow> ShareRow list) \<Rightarrow> (int \<Rightarrow> string) \<Rightarrow> DBError option \<Rightarrow> DB \<Rightarrow> DBError option \<times> string" where
  "ExportSharesCSV srt rfc3339 err db =
    (let hdr = csv_row [''id'', ''kind'', ''target'', ''file_path'', ''size'', ''status'', ''created_at'', ''expires_at'',
           ''downloads'', ''max_downloads''] in
     case err of Some e \<Rightarrow> (Some e, hdr)
     | None \<Rightarrow> csv_rows (share_fields rfc3339) (srt ''created_at'' ''DESC'' (db_shares db)) hdr)"

definition ExportTransfersCSV ::
  "(string \<Rightarrow> string \<Rightarrow> TransferRow list \<Rightarrow> TransferRow list) \<Rightarrow> (int \<Rightarrow> string) \<Rightarrow> DBError option \<Rightarrow> DB \<Rightarrow> DBError option \<times> string" where
  "ExportTransfersCSV srt rfc3339 err db =
    (let hdr = csv_row [''id'', ''direction'', ''peer_device_id'', ''peer_name'', ''file_path'', ''size'', ''status'',
           ''started_at'', ''finished_at'', ''error''] in
     case err of Some e \<Rightarrow> (Some e, hdr)
     | None \<Rightarrow> csv_rows (transfer_fields rfc3339) (srt ''started_at'' ''DESC'' (db_transfers db)) hdr)"

section \<open>The search\<close>

lemma ReplaceChar_append: "ReplaceChar c r (s @ t) = ReplaceChar c r s @ ReplaceChar c r t"
  by (induction s) auto

lemma escapeLike_Cons: "escapeLike (c # s) = (if c \<in> {CHR ''!'', CHR ''%'', CHR ''_''} then [CHR ''!'', c] else [c]) @ escapeLike s"
  by (auto simp: escapeLike_def)

lemma like_escaped: "like (escapeLike q @ p) s \<longleftrightarrow>
    length q \<le> length s \<and> map fold_char (take (length q) s) = map fold_char q \<and> like p (drop (length q) s)"
proof (induction q arbitrary: s)
  case (Cons c q)
  show ?case
    by (cases s) (auto simp: escapeLike_Cons Cons)
qed (simp add: escapeLike_def)

lemma like_any: "like (CHR ''%'' # p) s \<longleftrightarrow> (\<exists>a b. s = a @ b \<and> like p b)"
proof
  assume "like (CHR ''%'' # p) s"
  then obtain n where "like p (drop n s)" by (auto simp: list_ex_iff simp del: upt_Suc)
  then show "\<exists>a b. s = a @ b \<and> like p b" by (metis append_take_drop_id)
next
  assume "\<exists>a b. s = a @ b \<and> like p b"
  then obtain a b where "s = a @ b" "like p b" by blast
  then have "length a \<in> set [0..<Suc (length s)]" "like p (drop (length a) s)" by auto
  then show "like (CHR ''%'' # p) s" by (simp only: like.simps list_ex_iff simp_thms if_True) blast
qed

text \<open>The search finds exactly the records whose path contains the text: wildcard characters in the search stand
  for themselves, and only the case of ASCII letters is ignored.\<close>

theorem search_is_substring:
  "matches q path \<longleftrightarrow> (\<exists>a m b. path = a @ m @ b \<and> map fold_char m = map fold_char q)"
proof -
  have "like (escapeLike q @ ''%'') s \<longleftrightarrow> (\<exists>m b. s = m @ b \<and> map fold_char m = map fold_char q)" for s
  proof -
    have "like ''%'' t" for t unfolding like_any by (intro exI [of _ t] exI [of _ "[]"]) simp
    then have "like (escapeLike q @ ''%'') s \<longleftrightarrow> length q \<le> length s \<and> map fold_char (take (length q) s) = map fold_char q"
      by (simp only: like_escaped simp_thms)
    also have "\<dots> \<longleftrightarrow> (\<exists>m b. s = m @ b \<and> map fold_char m = map fold_char q)"
    proof
      assume "length q \<le> length s \<and> map fold_char (take (length q) s) = map fold_char q"
      then show "\<exists>m b. s = m @ b \<and> map fold_char m = map fold_char q"
        by (intro exI [of _ "take (length q) s"] exI [of _ "drop (length q) s"]) simp
    next
      assume "\<exists>m b. s = m @ b \<and> map fold_char m = map fold_char q"
      then obtain m b where s: "s = m @ b" "map fold_char m = map fold_char q" by blast
      then have "length m = length q" by (metis length_map)
      with s show "length q \<le> length s \<and> map fold_char (take (length q) s) = map fold_char q" by simp
    qed
    finally show ?thesis .
  qed
  then have "like (''%'' @ escapeLike q @ ''%'') path \<longleftrightarrow> (\<exists>a m b. path = a @ m @ b \<and> map fold_char m = map fold_char q)"
    by (auto simp only: append_Cons append_Nil like_any)
  moreover have "path = [] @ [] @ path \<and> map fold_char [] = map fold_char []" by simp
  ultimately show ?thesis unfolding matches_def by blast
qed


section \<open>Records\<close>

text \<open>A logged share reads back: after a successful insert, looking the id up gives the record, its times cut to
  seconds, and every other id as before; a second insert under the same id is refused and changes nothing.\<close>

theorem share_record_roundtrip:
  assumes "CreateShare None r db = (None, db')"
  shows "GetShare None (sr_ID r) db' = Inr (r\<lparr>sr_CreatedAt := from_Unix (Unix (sr_CreatedAt r)),
      sr_ExpiresAt := map_option (from_Unix \<circ> Unix) (sr_ExpiresAt r)\<rparr>) \<and>
    (\<forall>i. i \<noteq> sr_ID r \<longrightarrow> GetShare None i db' = GetShare None i db) \<and>
    (\<forall>err r'. sr_ID r' = sr_ID r \<longrightarrow> CreateShare err r' db' = (Some ErrConstraint, db'))"
proof -
  have fresh: "\<not> (\<exists>row \<in> set (db_shares db). sw_id row = sr_ID r)" using assms by (auto simp: CreateShare_def split: if_splits)
  then have none: "List.find (\<lambda>w. sw_id w = sr_ID r) (db_shares db) = None" by (auto simp: find_None_iff)
  have app: "List.find P (xs @ [x]) = (case List.find P xs of None \<Rightarrow> if P x then Some x else None | Some y \<Rightarrow> Some y)"
    for P and xs :: "ShareRow list" and x by (induction xs) auto
  from assms fresh have db': "db_shares db' = db_shares db @ [\<lparr>sw_id = sr_ID r, sw_kind = sr_Kind r, sw_target = Some (sr_Target r),
       sw_file_path = sr_FilePath r, sw_size = sr_Size r, sw_status = sr_Status r, sw_created_at = Unix (sr_CreatedAt r),
       sw_expires_at = nullTime (sr_ExpiresAt r), sw_downloads = sr_Downloads r,
       sw_max_downloads = nullInt (sr_MaxDownloads r)\<rparr>]"
    by (auto simp: CreateShare_def exec_def)
  show ?thesis
    by (auto simp: GetShare_def CreateShare_def db' app none scan_share_def nullTime_def nullInt_def option.map_comp split: option.split)
qed

section \<open>Retention\<close>

text \<open>What \<open>ORDER BY key DESC\<close> delivers: the rows in some order of falling keys.\<close>

definition sorts_desc :: "('a \<Rightarrow> int) \<Rightarrow> ('a list \<Rightarrow> 'a list) \<Rightarrow> bool" where
  "sorts_desc key f \<longleftrightarrow> (\<forall>rows. mset (f rows) = mset rows \<and> sorted_wrt (\<lambda>a b. key b \<le> key a) (f rows))"

lemma keep_newest: fixes k :: nat
  assumes "sorts_desc key f" "distinct (map ident rows)"
  defines "kept \<equiv> filter (\<lambda>w. ident w \<in> ident ` set (take k (f rows))) rows"
  shows "length kept = min k (length rows)" "\<And>a b. a \<in> set kept \<Longrightarrow> b \<in> set rows \<Longrightarrow> b \<notin> set kept \<Longrightarrow> key b \<le> key a"
proof -
  have ms: "mset (f rows) = mset rows" and srt: "sorted_wrt (\<lambda>a b. key b \<le> key a) (f rows)"
    using assms(1) by (auto simp: sorts_desc_def)
  have set_eq: "set (f rows) = set rows" using ms by (metis set_mset_mset)
  have dist: "distinct (f rows)" "distinct rows"
    using assms(2) ms by (metis distinct_map mset_eq_imp_distinct_iff)+
  have inj: "inj_on ident (set rows)" using assms(2) by (simp add: distinct_map)
  have sub: "set (take k (f rows)) \<subseteq> set rows" using set_eq set_take_subset by fast
  have kept: "set kept = set (take k (f rows))"
    using inj sub by (auto simp: kept_def inj_on_def)
  have "length kept = card (set kept)" using dist by (simp add: kept_def distinct_card [symmetric])
  also have "\<dots> = length (take k (f rows))" using dist by (simp add: kept distinct_card)
  also have "\<dots> = min k (length rows)" using ms by (metis length_take min.commute size_mset)
  finally show "length kept = min k (length rows)" .
  fix a b
  assume "a \<in> set kept" "b \<in> set rows" "b \<notin> set kept"
  then have "a \<in> set (take k (f rows))" "b \<in> set (drop k (f rows))"
    using kept set_eq by (metis, metis UnE append_take_drop_id set_append)
  moreover have "sorted_wrt (\<lambda>a b. key b \<le> key a) (take k (f rows) @ drop k (f rows))" using srt by simp
  ultimately show "key b \<le> key a" by (simp only: sorted_wrt_append)
qed

text \<open>Retention keeps the newest records: for a positive limit, whatever order the database gives to records of
  the same second, each table has at most that many rows left, exactly that many if it had more, and no
  deleted row is newer than a kept one; a limit of zero deletes nothing.\<close>

theorem retention_keeps_newest:
  assumes "sorts_desc sw_created_at (srt ''created_at'' ''DESC'')" "sorts_desc tw_started_at (srt' ''started_at'' ''DESC'')"
    "distinct (map sw_id (db_shares db))" "distinct (map tw_id (db_transfers db))"
    "EnforceRetention srt srt' None None keep db = (None, db')"
  shows "if keep \<le> 0 then db' = db else
    length (db_shares db') = min (nat keep) (length (db_shares db)) \<and>
    length (db_transfers db') = min (nat keep) (length (db_transfers db)) \<and>
    (\<forall>a \<in> set (db_shares db'). \<forall>b \<in> set (db_shares db) - set (db_shares db'). sw_created_at b \<le> sw_created_at a) \<and>
    (\<forall>a \<in> set (db_transfers db'). \<forall>b \<in> set (db_transfers db) - set (db_transfers db'). tw_started_at b \<le> tw_started_at a)"
proof (cases "keep \<le> 0")
  case False
  have e: "db_shares db' = filter (\<lambda>w. sw_id w \<in> sw_id ` set (take (nat keep) (srt ''created_at'' ''DESC'' (db_shares db)))) (db_shares db)"
    "db_transfers db' = filter (\<lambda>w. tw_id w \<in> tw_id ` set (take (nat keep) (srt' ''started_at'' ''DESC'' (db_transfers db)))) (db_transfers db)"
    using assms(5) False by (auto simp: EnforceRetention_def exec_def)
  note sh = keep_newest [OF assms(1,3), where k = "nat keep", folded e(1)]
  note tr = keep_newest [OF assms(2,4), where k = "nat keep", folded e(2)]
  show ?thesis using False sh(1) tr(1) by (simp, blast intro: sh(2) tr(2))
qed (use assms(5) in \<open>simp add: EnforceRetention_def\<close>)

section \<open>Reading CSV back\<close>

text \<open>A reader of one line with a known number of fields, after RFC 4180.\<close>

fun read_quoted :: "string \<Rightarrow> string \<times> string" where
  "read_quoted [] = ([], [])"
| "read_quoted (c # s) = (if c = CHR 0x22 then
     (case s of d # s' \<Rightarrow> if d = CHR 0x22 then (let (f, r) = read_quoted s' in (CHR 0x22 # f, r)) else ([], s) | [] \<Rightarrow> ([], []))
     else let (f, r) = read_quoted s in (c # f, r))"

definition read_field :: "string \<Rightarrow> string \<times> string" where
  "read_field s = (if s \<noteq> [] \<and> hd s = CHR 0x22 then read_quoted (tl s)
     else (takeWhile (\<lambda>c. c \<noteq> CHR '','' \<and> c \<noteq> LF) s, dropWhile (\<lambda>c. c \<noteq> CHR '','' \<and> c \<noteq> LF) s))"

fun read_row :: "nat \<Rightarrow> string \<Rightarrow> string list \<times> string" where
  "read_row 0 s = ([], s)"
| "read_row (Suc n) s = (let (f, r) = read_field s; (fs, r') = read_row n (tl r) in (f # fs, r'))"

lemma read_quoted_field: "r \<noteq> [] \<Longrightarrow> hd r \<noteq> CHR 0x22 \<Longrightarrow>
    read_quoted (ReplaceChar (CHR 0x22) [CHR 0x22, CHR 0x22] f @ CHR 0x22 # r) = (f, r)"
  by (induction f) (auto simp: neq_Nil_conv)

lemma read_csv_field:
  assumes "r \<noteq> []" "hd r = CHR '','' \<or> hd r = LF"
  shows "read_field (csv_field f @ r) = (f, r)"
proof (cases "fieldNeedsQuotes f")
  case True
  have "hd r \<noteq> CHR 0x22" using assms(2) by (auto simp: LF_def)
  with True assms(1) show ?thesis by (simp add: csv_field_def read_field_def read_quoted_field)
next
  case False
  then have "\<forall>c \<in> set f. c \<noteq> CHR '','' \<and> c \<noteq> LF \<and> c \<noteq> CHR 0x22"
    by (auto simp: fieldNeedsQuotes_def list_ex_iff)
  moreover obtain d r' where r: "r = d # r'" using assms(1) by (cases r) auto
  ultimately show ?thesis using False assms(2)
    by (cases f) (auto simp: csv_field_def read_field_def LF_def takeWhile_append2 dropWhile_append2)
qed

text \<open>The export reads back: for every row of at least one field, whatever commas, quotes, spaces and line feeds
  its fields contain, a CSV reader recovers exactly the fields and what follows the line.\<close>

theorem csv_row_reads_back:
  assumes "fs \<noteq> []"
  shows "read_row (length fs) (csv_row fs @ rest) = (fs, rest)"
  using assms
proof (induction fs)
  case (Cons f fs)
  show ?case
  proof (cases "fs = []")
    case True
    have "read_field (csv_field f @ LF # rest) = (f, LF # rest)" by (rule read_csv_field) simp_all
    then show ?thesis by (simp add: True csv_row_def)
  next
    case False
    have "read_field (csv_field f @ CHR '','' # csv_row fs @ rest) = (f, CHR '','' # csv_row fs @ rest)"
      by (rule read_csv_field) simp_all
    with Cons False show ?thesis by (simp add: csv_row_def Join_Cons)
  qed
qed simp

section \<open>A concrete log\<close>

definition demo_share :: ShareRecord where
  "demo_share = \<lparr>sr_ID = ''a'', sr_Kind = ''link'', sr_Target = [], sr_FilePath = ''/tmp/x'', sr_Size = 7, sr_Status = ''active'',
     sr_CreatedAt = 7000000009, sr_ExpiresAt = None, sr_Downloads = 0, sr_MaxDownloads = None\<rparr>"

lemma demo_create: "CreateShare None demo_share \<lparr>db_shares = [], db_transfers = []\<rparr> =
    (None, snd (CreateShare None demo_share \<lparr>db_shares = [], db_transfers = []\<rparr>))"
  by (simp add: CreateShare_def exec_def)

lemma share_record_roundtrip_witness:
  "GetShare None ''a'' (snd (CreateShare None demo_share \<lparr>db_shares = [], db_transfers = []\<rparr>)) =
    Inr (demo_share\<lparr>sr_CreatedAt := 7000000000\<rparr>)"
  using share_record_roundtrip [OF demo_create] by (simp add: demo_share_def Unix_def from_Unix_def)

definition demo_sort :: "('a \<Rightarrow> int) \<Rightarrow> 'a list \<Rightarrow> 'a list" where
  "demo_sort key rows = sort_key (\<lambda>w. - key w) rows"

lemma demo_sort_sorts: "sorts_desc key (demo_sort key)"
proof -
  have "sorted_wrt (\<lambda>a b. - key a \<le> - key b) (sort_key (\<lambda>w. - key w) rows)" for rows
    using sorted_sort_key [of "\<lambda>w. - key w" rows] by (simp only: sorted_map)
  then show ?thesis by (simp add: sorts_desc_def demo_sort_def)
qed

definition demo_db :: DB where
  "demo_db = snd (CreateShare None demo_share \<lparr>db_shares = [], db_transfers = []\<rparr>)"

lemma retention_keeps_newest_witness:
  "length (db_shares (snd (EnforceRetention (\<lambda>c d. demo_sort sw_created_at) (\<lambda>c d. demo_sort tw_started_at) None None 7 demo_db))) = 1"
proof -
  have "EnforceRetention (\<lambda>c d. demo_sort sw_created_at) (\<lambda>c d. demo_sort tw_started_at) None None 7 demo_db =
    (None, snd (EnforceRetention (\<lambda>c d. demo_sort sw_created_at) (\<lambda>c d. demo_sort tw_started_at) None None 7 demo_db))"
    by (simp add: EnforceRetention_def exec_def)
  from retention_keeps_newest [OF demo_sort_sorts demo_sort_sorts _ _ this] show ?thesis
    by (simp add: demo_db_def CreateShare_def exec_def)
qed

lemma csv_row_reads_back_witness: "read_row 2 (csv_row [''a,b'', '' c''] @ ''x'') = ([''a,b'', '' c''], ''x'')"
  using csv_row_reads_back [of "[''a,b'', '' c'']" "''x''"] by (simp add: numeral_2_eq_2)

end
