(* ===== verification/Api.thy ===== *)
theory Api
  imports UseCases Share Store Discovery AddrSelect Settings
begin

text \<open>
  The local REST API (\<open>core/api/server.go\<close>, \<open>core/api/handlers.go\<close>): registration of the routes,
  authentication, and every handler over the managers it calls. Request bodies are what the JSON decoder
  yields (None: malformed), file information, clock readings and random bytes are arguments. Routing
  itself is chi's and a parameter; a reply is its status with what it carries.
\<close>

section \<open>Requests, replies and the server\<close>

record Request =
  rq_Path :: string
  rq_Authorization :: string
  rq_Origin :: string
  rq_Host :: string
  rq_RemoteAddr :: string
  rq_Query :: "(string \<times> string) list"
  rq_Id :: string

datatype ApiReply = AError nat string | ACode nat string string | AOk | AVersion string
  | ADevices "Device option" "Device list" | ADiagnostics string "InterfaceInfo list" "string list"
  | AShares "Share list" | AShareReply Share.Share | ACreatedShare Share.Share string nat int | AStopped
  | AShareHistory "ShareRecord list" | AExport string
  | ATransfers "TransferRecord list" | ATransferRecord TransferRecord | ADeleted | ATransfer nat Transfer
  | AIncomings "Incoming list" | AIncoming Incoming | AConfig Settings | AUpdated | AHangs

text \<open>The managers behind the server; a missing one is None. \<open>sv_self\<close> is what \<open>Self\<close> reports.\<close>

record Server =
  sv_Version :: string
  sv_Token :: string
  sv_Config :: "Config option"
  sv_DB :: "DB option"
  sv_Discovery :: "Disc option"
  sv_self :: "Device option"
  sv_ShareManager :: "SManager option"
  sv_SharePort :: int
  sv_TransferMgr :: "Manager option"
  sv_ReceiveMgr :: "RManager option"

section \<open>Building the router\<close>

text \<open>The calls \<open>NewServer\<close> makes on its router, in order: middlewares and routes.\<close>

datatype RouterCall = Use string | Route string

definition NewServer_calls :: "RouterCall list" where
  "NewServer_calls = [Use ''Recoverer'', Use ''RequestID'', Route ''/ui'', Route ''/ui/'', Use ''bearerAuth'', Use ''corsGuard'',
     Route ''/api/v1'']"

section \<open>Middleware\<close>

definition isExempt :: "Request \<Rightarrow> bool" where
  "isExempt r \<longleftrightarrow> rq_Path r = ''/api/v1/ping''"

text \<open>\<open>bearerAuth\<close> and \<open>corsGuard\<close> around the rest of the chain. \<open>hostname\<close> is \<open>url.Parse\<close> followed by
  \<open>Hostname\<close>; None when the origin does not parse.\<close>

definition bearerAuth :: "string \<Rightarrow> (Request \<Rightarrow> Server \<Rightarrow> ApiReply \<times> Server) \<Rightarrow> Request \<Rightarrow> Server \<Rightarrow> ApiReply \<times> Server" where
  "bearerAuth token nxt r s =
    (if isExempt r then nxt r s
     else if \<not> HasPrefix (rq_Authorization r) ''Bearer '' then (ACode 401 ''UNAUTHORIZED'' ''missing bearer token'', s)
     else if TrimPrefix (rq_Authorization r) ''Bearer '' \<noteq> token then (ACode 401 ''UNAUTHORIZED'' ''invalid token'', s)
     else nxt r s)"

definition isLocalhostOrigin :: "(string \<Rightarrow> string option) \<Rightarrow> string \<Rightarrow> bool" where
  "isLocalhostOrigin hostname origin = (case hostname origin of
      None \<Rightarrow> False | Some h \<Rightarrow> h = ''localhost'' \<or> h = ''127.0.0.1'' \<or> h = ''::1'')"

definition corsGuard ::
  "(string \<Rightarrow> string option) \<Rightarrow> (Request \<Rightarrow> Server \<Rightarrow> ApiReply \<times> Server) \<Rightarrow> Request \<Rightarrow> Server \<Rightarrow> ApiReply \<times> Server" where
  "corsGuard hostname nxt r s =
    (if rq_Origin r \<noteq> [] \<and> \<not> isLocalhostOrigin hostname (rq_Origin r) then (AError 403 ''origin not allowed'', s)
     else nxt r s)"

definition serve ::
  "(string \<Rightarrow> string option) \<Rightarrow> (Request \<Rightarrow> Server \<Rightarrow> ApiReply \<times> Server) \<Rightarrow> Request \<Rightarrow> Server \<Rightarrow> ApiReply \<times> Server" where
  "serve hostname handler r s = bearerAuth (sv_Token s) (corsGuard hostname handler) r s"

section \<open>Status handlers\<close>

definition handlePing :: "Request \<Rightarrow> Server \<Rightarrow> ApiReply \<times> Server" where
  "handlePing r s = (AOk, s)"

definition handleVersion :: "Request \<Rightarrow> Server \<Rightarrow> ApiReply \<times> Server" where
  "handleVersion r s = (AVersion (sv_Version s), s)"

definition handleDevices :: "Request \<Rightarrow> Server \<Rightarrow> ApiReply \<times> Server" where
  "handleDevices r s = (case sv_Discovery s of
      None \<Rightarrow> (ADevices None [], s) | Some d \<Rightarrow> (ADevices (sv_self s) (Devices d), s))"

definition handleDiagnostics :: "Iface list option \<Rightarrow> Request \<Rightarrow> Server \<Rightarrow> ApiReply \<times> Server" where
  "handleDiagnostics ifs r s = (ADiagnostics (detectIPVersion ifs) (Interfaces ifs) (LocalSourceIPs ifs), s)"

section \<open>Shares\<close>

definition handleListShares :: "int \<Rightarrow> Request \<Rightarrow> Server \<Rightarrow> ApiReply \<times> Server" where
  "handleListShares now r s = (case sv_ShareManager s of
      None \<Rightarrow> (AError 503 ''share manager not available'', s)
    | Some m \<Rightarrow> (AShares (Share.ListShares now m), s))"

definition query_get :: "Request \<Rightarrow> string \<Rightarrow> string" where
  "query_get r k = (case map_of (rq_Query r) k of None \<Rightarrow> [] | Some v \<Rightarrow> v)"

definition parseInt :: "string \<Rightarrow> int option" where
  "parseInt t = Atoi t"

definition limit_opt :: "Request \<Rightarrow> ListOptions \<Rightarrow> ListOptions" where
  "limit_opt r opts = (if query_get r ''limit'' = [] then opts
     else case parseInt (query_get r ''limit'') of
       None \<Rightarrow> opts | Some n \<Rightarrow> if 0 < n then opts\<lparr>lo_Limit := n\<rparr> else opts)"

definition history_opts :: "Request \<Rightarrow> ListOptions" where
  "history_opts r =
    (let o1 = (if query_get r ''q'' \<noteq> [] then DefaultListOptions\<lparr>lo_Search := query_get r ''q''\<rparr> else DefaultListOptions);
         sb = query_get r ''sort_by'';
         o2 = (if sb = ''time'' then o1\<lparr>lo_SortBy := SortByTime\<rparr>
               else if sb = ''size'' then o1\<lparr>lo_SortBy := SortBySize\<rparr>
               else if sb = ''name'' then o1\<lparr>lo_SortBy := SortByName\<rparr>
               else if sb = ''status'' then o1\<lparr>lo_SortBy := SortByStatus\<rparr> else o1);
         o3 = (if query_get r ''order'' = ''asc'' then o2\<lparr>lo_Order := SortAsc\<rparr> else o2)
     in limit_opt r o3)"

definition handleListShareHistory ::
  "(string \<Rightarrow> string \<Rightarrow> ShareRow list \<Rightarrow> ShareRow list) \<Rightarrow> DBError option \<Rightarrow> nat \<Rightarrow> Request \<Rightarrow> Server \<Rightarrow> ApiReply \<times> Server" where
  "handleListShareHistory srt err first r s = (case sv_DB s of
      None \<Rightarrow> (AError 503 ''database not available'', s)
    | Some db \<Rightarrow> (case Store.ListShares srt err first (history_opts r) db of
          Inl e \<Rightarrow> (AError 500 ''list shares'', s) | Inr l \<Rightarrow> (AShareHistory l, s)))"

definition handleExportShares ::
  "(string \<Rightarrow> string \<Rightarrow> ShareRow list \<Rightarrow> ShareRow list) \<Rightarrow> (int \<Rightarrow> string) \<Rightarrow> DBError option \<Rightarrow> Request \<Rightarrow> Server \<Rightarrow>
    ApiReply \<times> Server" where
  "handleExportShares srt rfc3339 err r s = (case sv_DB s of
      None \<Rightarrow> (AError 503 ''database not available'', s)
    | Some db \<Rightarrow> (AExport (snd (ExportSharesCSV srt rfc3339 err db)), s))"

definition handleExportTransfers ::
  "(string \<Rightarrow> string \<Rightarrow> TransferRow list \<Rightarrow> TransferRow list) \<Rightarrow> (int \<Rightarrow> string) \<Rightarrow> DBError option \<Rightarrow> Request \<Rightarrow> Server \<Rightarrow>
    ApiReply \<times> Server" where
  "handleExportTransfers srt rfc3339 err r s = (case sv_DB s of
      None \<Rightarrow> (AError 503 ''database not available'', s)
    | Some db \<Rightarrow> (AExport (snd (ExportTransfersCSV srt rfc3339 err db)), s))"

text \<open>The body of a share request: path, password, expiry in seconds, download limit.\<close>

record ShareRequest =
  rs_Path :: string
  rs_Password :: string
  rs_Expiry :: int
  rs_MaxDownloads :: int

text \<open>What the file system says: \<open>Stat\<close> of the path, its base name, and the counted files of a directory.\<close>

record PathInfo =
  pi_IsDir :: bool
  pi_Size :: int
  pi_Base :: string
  pi_Count :: "(nat \<times> int) option"

definition share_url_host :: "string \<Rightarrow> string" where
  "share_url_host host = (let h = (case SplitHostPort host of Some (a, _) \<Rightarrow> a | None \<Rightarrow> host) in
     if h = [] then ''localhost'' else h)"

definition share_url :: "string \<Rightarrow> int \<Rightarrow> string \<Rightarrow> string" where
  "share_url host port token = ''http://'' @ JoinHostPort (share_url_host host) (Itoa port) @ ''/dl/'' @ token"

definition handleCreateShare ::
  "(bytes \<Rightarrow> bytes) \<Rightarrow> bytes option \<Rightarrow> bytes option \<Rightarrow> int \<Rightarrow> DBError option \<Rightarrow> ShareRequest option \<Rightarrow> PathInfo option \<Rightarrow>
    Request \<Rightarrow> Server \<Rightarrow> ApiReply \<times> Server" where
  "handleCreateShare sha rnd rsalt now dberr body info r s = (case sv_ShareManager s of
      None \<Rightarrow> (AError 503 ''share manager not available'', s)
    | Some m \<Rightarrow> (case body of
        None \<Rightarrow> (AError 400 ''invalid JSON'', s)
      | Some req \<Rightarrow>
        if rs_Path req = [] then (AError 400 ''path is required'', s)
        else (case info of
          None \<Rightarrow> (AError 400 ''path not accessible'', s)
        | Some fi \<Rightarrow> (case (if pi_IsDir fi then pi_Count fi else Some (1, pi_Size fi)) of
            None \<Rightarrow> (AError 500 ''count files'', s)
          | Some (fileCount, sz) \<Rightarrow>
            let expiry0 = wrap64 (rs_Expiry req * 1000000000);
                expiry = (if expiry0 \<le> 0 then DefaultExpiry else expiry0);
                maxDl = (if rs_MaxDownloads req \<le> 0 then MaxDownloadCount else rs_MaxDownloads req)
            in (case Share.CreateShare sha rnd rsalt now (rs_Path req) (pi_IsDir fi) (pi_Base fi) sz (rs_Password req) expiry maxDl m of
                Inl e \<Rightarrow> (if e = ErrShareLimit then (AError 409 ''concurrent share limit reached'', s)
                          else (AError 500 ''create share'', s))
              | Inr (sh, m') \<Rightarrow>
                  let db' = map_option (\<lambda>db. snd (Store.CreateShare dberr \<lparr>sr_ID = sh_Token sh, sr_Kind = ''link'', sr_Target = [],
                        sr_FilePath = rs_Path req, sr_Size = sz, sr_Status = ''active'', sr_CreatedAt = now,
                        sr_ExpiresAt = Some (now + expiry), sr_Downloads = 0, sr_MaxDownloads = Some maxDl\<rparr> db)) (sv_DB s)
                  in (ACreatedShare sh (share_url (rq_Host r) (sv_SharePort s) (sh_Token sh)) fileCount sz,
                      s\<lparr>sv_ShareManager := Some m', sv_DB := db'\<rparr>))))))"

definition handleGetShare :: "int \<Rightarrow> Request \<Rightarrow> Server \<Rightarrow> ApiReply \<times> Server" where
  "handleGetShare now r s = (case sv_ShareManager s of
      None \<Rightarrow> (AError 503 ''share manager not available'', s)
    | Some m \<Rightarrow>
      if ValidateToken (rq_Id r) \<noteq> None then (AError 400 ''invalid token'', s)
      else (case Share.GetShare now (rq_Id r) (ClientIP (rq_RemoteAddr r)) m of
          (Inl e, m') \<Rightarrow> (AError 404 ''share not found'', s\<lparr>sv_ShareManager := Some m'\<rparr>)
        | (Inr sh, m') \<Rightarrow> (AShareReply sh, s\<lparr>sv_ShareManager := Some m'\<rparr>)))"

definition handleStopShare :: "Request \<Rightarrow> Server \<Rightarrow> ApiReply \<times> Server" where
  "handleStopShare r s = (case sv_ShareManager s of
      None \<Rightarrow> (AError 503 ''share manager not available'', s)
    | Some m \<Rightarrow> (case StopShare (rq_Id r) m of
          (False, m') \<Rightarrow> (AError 404 ''share not found'', s\<lparr>sv_ShareManager := Some m'\<rparr>)
        | (True, m') \<Rightarrow> (AStopped, s\<lparr>sv_ShareManager := Some m'\<rparr>)))"

section \<open>Transfers\<close>

definition handleListTransfers ::
  "(string \<Rightarrow> string \<Rightarrow> TransferRow list \<Rightarrow> TransferRow list) \<Rightarrow> DBError option \<Rightarrow> nat \<Rightarrow> Request \<Rightarrow> Server \<Rightarrow> ApiReply \<times> Server" where
  "handleListTransfers srt err first r s = (case sv_DB s of
      None \<Rightarrow> (AError 503 ''database not available'', s)
    | Some db \<Rightarrow>
      let o1 = (if query_get r ''q'' \<noteq> [] then DefaultListOptions\<lparr>lo_Search := query_get r ''q''\<rparr> else DefaultListOptions) in
      (case ListTransfers srt err first (limit_opt r o1) db of
          Inl e \<Rightarrow> (AError 500 ''list transfers'', s) | Inr l \<Rightarrow> (ATransfers l, s)))"

definition handleGetTransfer :: "DBError option \<Rightarrow> Request \<Rightarrow> Server \<Rightarrow> ApiReply \<times> Server" where
  "handleGetTransfer err r s = (case sv_DB s of
      None \<Rightarrow> (AError 503 ''database not available'', s)
    | Some db \<Rightarrow> (case GetTransfer err (rq_Id r) db of
          Inl e \<Rightarrow> (AError 404 ''transfer not found'', s) | Inr t \<Rightarrow> (ATransferRecord t, s)))"

definition handleDeleteTransfer :: "DBError option \<Rightarrow> Request \<Rightarrow> Server \<Rightarrow> ApiReply \<times> Server" where
  "handleDeleteTransfer err r s = (case sv_DB s of
      None \<Rightarrow> (AError 503 ''database not available'', s)
    | Some db \<Rightarrow> (case DeleteTransfer err (rq_Id r) db of
          (Some e, db') \<Rightarrow> (AError 500 ''delete transfer'', s\<lparr>sv_DB := Some db'\<rparr>)
        | (None, db') \<Rightarrow> (ADeleted, s\<lparr>sv_DB := Some db'\<rparr>)))"

definition findDeviceByID :: "string \<Rightarrow> Server \<Rightarrow> Device option" where
  "findDeviceByID i s = (case sv_Discovery s of None \<Rightarrow> None | Some d \<Rightarrow> List.find (\<lambda>dev. dv_ID dev = i) (Devices d))"

datatype PeerError = ErrNoPeerAddress | ErrIncompatibleIPVersion

record peerSelectResult =
  ps_DialAddr :: string
  ps_Version :: string

definition peerAddressWith :: "Device \<Rightarrow> string list \<Rightarrow> PeerError + peerSelectResult" where
  "peerAddressWith d sources =
    (if dv_Port d \<le> 0 then Inl ErrNoPeerAddress
     else
       let dsts = dv_IPv4 d @ dv_IPv6 d in
       if dsts = [] then Inl ErrNoPeerAddress
       else (case SelectAddresses dsts sources (dv_Port d) of
           [] \<Rightarrow> Inl ErrIncompatibleIPVersion
         | p # ps \<Rightarrow> Inr \<lparr>ps_DialAddr = ap_Destination p, ps_Version = (if ap_IsV6 p then ''6'' else ''4'')\<rparr>))"

definition peerAddress :: "Iface list option \<Rightarrow> Device \<Rightarrow> PeerError + peerSelectResult" where
  "peerAddress ifs d = peerAddressWith d (LocalSourceIPs ifs)"

text \<open>The send that the handler starts in the background: its configuration and the address to dial.\<close>

type_synonym Spawn = "(SendConfig \<times> string) option"

definition handleCreateTransfer ::
  "string \<Rightarrow> int \<Rightarrow> (string \<times> string) option \<Rightarrow> FileStat option \<Rightarrow> Iface list option \<Rightarrow> Request \<Rightarrow> Server \<Rightarrow>
    ApiReply \<times> Spawn \<times> Server" where
  "handleCreateTransfer uid now body info ifs r s = (case sv_TransferMgr s of
      None \<Rightarrow> (AError 503 ''transfer manager not available'', None, s)
    | Some m \<Rightarrow>
      if sv_Discovery s = None then (AError 503 ''discovery not available'', None, s)
      else (case body of
        None \<Rightarrow> (AError 400 ''invalid JSON'', None, s)
      | Some (peerID, filePath) \<Rightarrow>
        if peerID = [] then (AError 400 ''peer_id is required'', None, s)
        else if filePath = [] then (AError 400 ''file_path is required'', None, s)
        else (case info of
          None \<Rightarrow> (AError 400 ''file not accessible'', None, s)
        | Some fi \<Rightarrow>
          if fst_IsDir fi then (AError 400 ''directories not yet supported'', None, s)
          else (case findDeviceByID peerID s of
            None \<Rightarrow> (AError 404 ''peer not found or offline'', None, s)
          | Some peer \<Rightarrow> (case peerAddress ifs peer of
              Inl e \<Rightarrow> (ACode 503 (if e = ErrIncompatibleIPVersion then ''INCOMPATIBLE_IP_VERSION'' else ''PEER_UNREACHABLE'')
                  ''peer has no reachable address'', None, s)
            | Inr sel \<Rightarrow> (case Manager_Create uid now peerID (dv_Name peer) filePath (fst_Name fi) (fst_Size fi) m of
                Inl e \<Rightarrow> (AError 500 ''create transfer'', None, s)
              | Inr (t, m') \<Rightarrow>
                  (ATransfer 201 t,
                   Some (\<lparr>sc_PeerID = peerID, sc_PeerName = dv_Name peer, sc_FilePath = filePath, sc_TransferID = Transfer.tr_ID t\<rparr>,
                     ps_DialAddr sel),
                   s\<lparr>sv_TransferMgr := Some m'\<rparr>)))))))"

definition handleCancelTransfer :: "int \<Rightarrow> Request \<Rightarrow> Server \<Rightarrow> ApiReply \<times> Effect list \<times> Server" where
  "handleCancelTransfer now r s = (case sv_TransferMgr s of
      None \<Rightarrow> (AError 503 ''transfer manager not available'', [], s)
    | Some m \<Rightarrow> (case Manager_Cancel (rq_Id r) now m of
          Inl e \<Rightarrow> (AError 404 ''cannot cancel'', [], s)
        | Inr (t, m', fx) \<Rightarrow> (ATransfer 200 t, fx, s\<lparr>sv_TransferMgr := Some m'\<rparr>)))"

section \<open>Incoming transfers\<close>

definition handleListIncoming :: "Request \<Rightarrow> Server \<Rightarrow> ApiReply \<times> Server" where
  "handleListIncoming r s = (case sv_ReceiveMgr s of
      None \<Rightarrow> (AError 503 ''receive manager not available'', s)
    | Some m \<Rightarrow> (AIncomings (Recv_List m), s))"

definition incoming_reply :: "Server \<Rightarrow> (ReceiveError + Incoming \<times> RManager) \<Rightarrow> ApiReply \<times> Server" where
  "incoming_reply s res = (case res of
      Inl e \<Rightarrow> (AError 409 ''conflict'', s)
    | Inr (inc, m') \<Rightarrow> (AIncoming inc, s\<lparr>sv_ReceiveMgr := Some m'\<rparr>))"

definition handleAcceptIncoming :: "int \<Rightarrow> string option \<Rightarrow> Request \<Rightarrow> Server \<Rightarrow> ApiReply \<times> Server" where
  "handleAcceptIncoming now body r s = (case sv_ReceiveMgr s of
      None \<Rightarrow> (AError 503 ''receive manager not available'', s)
    | Some m \<Rightarrow> (case body of
        None \<Rightarrow> (AError 400 ''invalid JSON'', s)
      | Some savePath \<Rightarrow>
        if savePath = [] then (AError 400 ''save_path is required'', s)
        else incoming_reply s (Recv_Accept now (rq_Id r) savePath m)))"

definition handleRejectIncoming :: "int \<Rightarrow> Request \<Rightarrow> Server \<Rightarrow> ApiReply \<times> Server" where
  "handleRejectIncoming now r s = (case sv_ReceiveMgr s of
      None \<Rightarrow> (AError 503 ''receive manager not available'', s)
    | Some m \<Rightarrow> incoming_reply s (Recv_Reject now (rq_Id r) m))"

definition handleCancelIncoming :: "int \<Rightarrow> Request \<Rightarrow> Server \<Rightarrow> ApiReply \<times> Server" where
  "handleCancelIncoming now r s = (case sv_ReceiveMgr s of
      None \<Rightarrow> (AError 503 ''receive manager not available'', s)
    | Some m \<Rightarrow> incoming_reply s (Recv_Cancel now (rq_Id r) m))"

section \<open>Settings\<close>

definition handleGetSettings :: "Request \<Rightarrow> Server \<Rightarrow> ApiReply \<times> Server" where
  "handleGetSettings r s = (case sv_Config s of
      None \<Rightarrow> (AError 503 ''config not available'', s) | Some c \<Rightarrow> (AConfig (cf_set c), s))"

text \<open>A handler whose call never returns gives no reply: \<open>AHangs\<close>.\<close>

definition handleUpdateSettings ::
  "(Settings \<Rightarrow> bytes option) \<Rightarrow> ConfigError option \<Rightarrow> (string \<times> jval) list option \<Rightarrow> Request \<Rightarrow> Server \<Rightarrow> ApiReply \<times> Server" where
  "handleUpdateSettings marshal io body r s = (case sv_Config s of
      None \<Rightarrow> (AError 503 ''config not available'', s)
    | Some c \<Rightarrow> (case body of
        None \<Rightarrow> (AError 400 ''invalid JSON'', s)
      | Some u \<Rightarrow> (case Config_Apply marshal io u c of
            (Blocked, c') \<Rightarrow> (AHangs, s\<lparr>sv_Config := Some c'\<rparr>)
          | (Returned (Some e), c') \<Rightarrow> (AError 500 ''save config'', s\<lparr>sv_Config := Some c'\<rparr>)
          | (Returned None, c') \<Rightarrow> (AUpdated, s\<lparr>sv_Config := Some c'\<rparr>))))"

section \<open>Properties\<close>


lemma late_use_lemma:
  "(\<And>cs xs p ys m zs. accepts cs \<Longrightarrow> cs \<noteq> xs @ Route p # ys @ Use m # zs) \<Longrightarrow> \<not> accepts NewServer_calls"
proof
  assume assms: "\<And>cs xs p ys m zs. accepts cs \<Longrightarrow> cs \<noteq> xs @ Route p # ys @ Use m # zs"
  assume "accepts NewServer_calls"
  from assms [OF this, of "[Use ''Recoverer'', Use ''RequestID'']" "''/ui''" "[Route ''/ui/'']" "''bearerAuth''"
      "[Use ''corsGuard'', Route ''/api/v1'']"]
  show False by (simp add: NewServer_calls_def)
qed

text \<open>The server never starts: chi refuses a middleware added after a route (\<open>accepts\<close> holds only of call
  sequences without one), and \<open>NewServer\<close> registers the Web UI before the authentication.\<close>

theorem middleware_registered_too_late:
  assumes "\<And>cs xs p ys m zs. accepts cs \<Longrightarrow> cs \<noteq> xs @ Route p # ys @ Use m # zs"
  shows "\<not> accepts NewServer_calls"
  using assms by (rule late_use_lemma)

text \<open>The rule as a function: after a route there is no middleware.\<close>

fun no_late_use :: "RouterCall list \<Rightarrow> bool" where
  "no_late_use [] = True"
| "no_late_use (Use m # cs) = no_late_use cs"
| "no_late_use (Route p # cs) = list_all (\<lambda>c. case c of Use m \<Rightarrow> False | Route q \<Rightarrow> True) cs"

lemma no_late_use_spec: "no_late_use cs \<Longrightarrow> cs \<noteq> xs @ Route p # ys @ Use m # zs"
proof (induction cs arbitrary: xs rule: no_late_use.induct)
  case (2 u cs)
  then show ?case by (cases xs) auto
next
  case (3 q cs)
  then show ?case by (cases xs) (auto simp: list_all_iff)
qed simp

lemma middleware_registered_too_late_witness: "no_late_use [Use ''a'', Route ''b''] \<and> \<not> no_late_use NewServer_calls"
  using middleware_registered_too_late [of no_late_use] no_late_use_spec by simp

section \<open>Peers and sends\<close>

text \<open>The reason of an unreachable peer is exact: a peer with a port and addresses is reported as of an incompatible
  IP version exactly when no address it announces fits any local source, and otherwise the address to
  dial is the one of a fitting pair.\<close>

theorem incompatible_version_exact:
  assumes "0 < dv_Port d" "dv_IPv4 d @ dv_IPv6 d \<noteq> []"
  shows "(peerAddressWith d sources = Inl ErrIncompatibleIPVersion \<longleftrightarrow>
      (\<forall>raw \<in> set (dv_IPv4 d @ dv_IPv6 d). \<forall>x src. dest_of (dv_Port d) raw = Some x \<and> src \<in> set (parseSources sources) \<longrightarrow>
        \<not> fits (fst x) src)) \<and>
    (\<forall>sel. peerAddressWith d sources = Inr sel \<longrightarrow>
      (\<exists>raw \<in> set (dv_IPv4 d @ dv_IPv6 d). \<exists>x src. dest_of (dv_Port d) raw = Some x \<and> src \<in> set (parseSources sources) \<and>
        fits (fst x) src \<and> ps_DialAddr sel = ap_Destination (pair_of x src)))"
proof -
  let ?ds = "dv_IPv4 d @ dv_IPv6 d"
  let ?sel = "SelectAddresses ?ds sources (dv_Port d)"
  note sound = selection_lemma [of ?ds sources "dv_Port d", THEN conjunct1]
    and complete = selection_lemma [of ?ds sources "dv_Port d", THEN conjunct2]
  show ?thesis
  proof (cases ?sel)
    case Nil
    then have "peerAddressWith d sources = Inl ErrIncompatibleIPVersion"
      using assms by (simp add: peerAddressWith_def Let_def)
    then show ?thesis using complete Nil by (auto simp del: set_append)
  next
    case (Cons p ps)
    then have r: "peerAddressWith d sources = Inr \<lparr>ps_DialAddr = ap_Destination p, ps_Version = (if ap_IsV6 p then ''6'' else ''4'')\<rparr>"
      using assms by (simp add: peerAddressWith_def Let_def)
    have "p \<in> set ?sel" using Cons by simp
    then obtain raw x src where "raw \<in> set ?ds" "dest_of (dv_Port d) raw = Some x" "src \<in> set (parseSources sources)"
      "fits (fst x) src" "p = pair_of x src" using sound by blast
    note found = this
    have "peerAddressWith d sources \<noteq> Inl ErrIncompatibleIPVersion" using r by simp
    moreover have "\<not> (\<forall>raw \<in> set ?ds. \<forall>x src. dest_of (dv_Port d) raw = Some x \<and> src \<in> set (parseSources sources) \<longrightarrow>
        \<not> fits (fst x) src)" using found by blast
    moreover have "ps_DialAddr sel = ap_Destination (pair_of x src)" if "peerAddressWith d sources = Inr sel" for sel
      using r that found by auto
    ultimately show ?thesis using found by blast
  qed
qed


section \<open>Share links\<close>

text \<open>A created share can be fetched: when the request for a new share succeeds (with 32 random bytes for its
  token), the token is valid, it is in the returned link, and asking for it before it expires answers with
  that share; the log keeps a record of it if there is a database that has none under the same id.\<close>

theorem created_share_found:
  assumes "handleCreateShare sha (Some rnd) rsalt now dberr body info r s = (ACreatedShare sh url n sz, s')" "length rnd = 32"
    "rq_Id r' = sh_Token sh" "now' \<le> sh_Expiry sh"
  shows "ValidateToken (sh_Token sh) = None \<and> fst (handleGetShare now' r' s') = AShareReply sh \<and>
    url = share_url (rq_Host r) (sv_SharePort s) (sh_Token sh)"
proof -
  obtain m m' path dir base pw expiry maxDl sz' where m: "sv_ShareManager s = Some m" "sv_ShareManager s' = Some m'"
    and c: "Share.CreateShare sha (Some rnd) rsalt now path dir base sz' pw expiry maxDl m = Inr (sh, m')"
    and u: "url = share_url (rq_Host r) (sv_SharePort s) (sh_Token sh)"
    using assms(1) by (auto simp: handleCreateShare_def Let_def MaxDownloadCount_def split: option.splits if_splits prod.splits sum.splits)
  have tok: "sh_Token sh = RawURLEncode rnd"
    and act: "\<not> sh_Stopped sh" "sh_Downloads sh = 0" "sh_MaxDownloads sh = maxDl"
    and stored: "map_of (sm_shares m') (sh_Token sh) = Some sh"
    using c by (auto simp: Share.CreateShare_def NewShare_def GenerateToken_def Let_def map_of_gput split: if_splits sum.splits option.splits)
  have valid: "ValidateToken (sh_Token sh) = None"
    using assms(2) RawURLEncode_safe by (auto simp: ValidateToken_def tok length_RawURLEncode TokenURLLength_def)
  have "Active now' sh" using act assms(4) by (simp add: Active_def Expired_def Exhausted_def)
  with stored have "fst (Share.GetShare now' (sh_Token sh) ip m') = Inr sh" for ip by (simp add: Share.GetShare_def)
  then have "fst (handleGetShare now' r' s') = AShareReply sh"
    using valid m(2) assms(3) by (auto simp: handleGetShare_def split: prod.split sum.split) (metis fst_conv sum.simps(4) sum.inject(2))+
  with valid u show ?thesis by blast
qed


section \<open>A concrete server\<close>

definition demo_peer :: Device where
  "demo_peer = \<lparr>dv_ID = demo_hash, dv_Name = ''den pc'', dv_Platform = ''linux'', dv_Port = 5533,
     dv_PubHash = demo_hash, dv_IPVersion = ''4'', dv_IPv4 = [''192.168.1.10''], dv_IPv6 = [], dv_HostName = ''den'',
     dv_FirstSeen = 7, dv_LastSeen = 7, dv_Status = StatusOnline\<rparr>"

definition demo_server :: Server where
  "demo_server = \<lparr>sv_Version = ''0.1.0'', sv_Token = ''t'', sv_Config = None, sv_DB = Some \<lparr>db_shares = [], db_transfers = []\<rparr>,
     sv_Discovery = Some \<lparr>dc_self = ''me'', dc_devices = [(demo_hash, 0)], dc_heap = [demo_peer], dc_events = []\<rparr>, sv_self = None,
     sv_ShareManager = Some (NewSManager 64), sv_SharePort = 52104, sv_TransferMgr = Some (NewManager 3), sv_ReceiveMgr = None\<rparr>"

definition demo_ifs :: "Iface list option" where
  "demo_ifs = Some [\<lparr>if_Name = ''eth0'', if_Up = True, if_Loopback = False, if_Broadcast = True, if_PointToPoint = False,
     if_MTU = 1500, if_Hardware = [], if_Addrs = Some [Some [192, 168, 1, 5], Some [10, 0, 0, 1]]\<rparr>]"

lemma demo_reachable: "\<exists>sel. peerAddressWith demo_peer [''192.168.1.5'', ''10.0.0.1''] = Inr sel"
proof -
  have "SelectAddresses [''192.168.1.10''] [''192.168.1.5'', ''10.0.0.1''] 5533 \<noteq> []"
    using selection_lemma [of "[''192.168.1.10'']" "[''192.168.1.5'', ''10.0.0.1'']" 5533] demo_dest demo_sources demo_fits
    by fastforce
  then show ?thesis by (auto simp: peerAddressWith_def demo_peer_def split: list.split)
qed

lemma demo_sources_ifs: "LocalSourceIPs demo_ifs = [''192.168.1.5'', ''10.0.0.1'']"
  by code_simp

definition demo_request :: Request where
  "demo_request = \<lparr>rq_Path = ''/api/v1/transfers'', rq_Authorization = ''Bearer t'', rq_Origin = [], rq_Host = ''127.0.0.1:52103'',
     rq_RemoteAddr = ''127.0.0.1:40000'', rq_Query = [], rq_Id = []\<rparr>"

lemma incompatible_version_exact_witness:
  "\<exists>raw x src. dest_of (dv_Port demo_peer) raw = Some x \<and> fits (fst x) src"
proof -
  obtain sel where "peerAddressWith demo_peer [''192.168.1.5'', ''10.0.0.1''] = Inr sel" using demo_reachable by blast
  moreover have "0 < dv_Port demo_peer" "dv_IPv4 demo_peer @ dv_IPv6 demo_peer \<noteq> []" by (simp_all add: demo_peer_def)
  ultimately show ?thesis using incompatible_version_exact [of demo_peer "[''192.168.1.5'', ''10.0.0.1'']"] by blast
qed


lemma demo_share_created:
  "\<exists>sh url s'. handleCreateShare (\<lambda>b. b) (Some (replicate 32 0)) None 7 None
      (Some \<lparr>rs_Path = ''/tmp/x'', rs_Password = [], rs_Expiry = 0, rs_MaxDownloads = 0\<rparr>)
      (Some \<lparr>pi_IsDir = False, pi_Size = 7, pi_Base = ''x'', pi_Count = None\<rparr>) demo_request demo_server =
    (ACreatedShare sh url 1 7, s') \<and> sh_Expiry sh = 7 + DefaultExpiry"
  by (simp add: handleCreateShare_def demo_server_def NewSManager_def Share.CreateShare_def NewShare_def GenerateToken_def Let_def
    wrap64_id in64_def)

lemma created_share_found_witness:
  "\<exists>sh s'. ValidateToken (sh_Token sh) = None \<and> fst (handleGetShare 8 (demo_request\<lparr>rq_Id := sh_Token sh\<rparr>) s') = AShareReply sh"
proof -
  obtain sh url s' where c: "handleCreateShare (\<lambda>b. b) (Some (replicate 32 0)) None 7 None
      (Some \<lparr>rs_Path = ''/tmp/x'', rs_Password = [], rs_Expiry = 0, rs_MaxDownloads = 0\<rparr>)
      (Some \<lparr>pi_IsDir = False, pi_Size = 7, pi_Base = ''x'', pi_Count = None\<rparr>) demo_request demo_server =
    (ACreatedShare sh url 1 7, s')" and e: "sh_Expiry sh = 7 + DefaultExpiry"
    using demo_share_created by blast
  from created_share_found [OF c, of "demo_request\<lparr>rq_Id := sh_Token sh\<rparr>" 8] e show ?thesis
    by (auto simp: DefaultExpiry_def)
qed

end
