(* ===== verification/Sse.thy ===== *)
theory Sse
  imports Discovery
begin

text \<open>
  The event stream (\<open>core/api/sse.go\<close>): the broker that fans discovery events out to its subscribers,
  the throttled stream of one subscriber, and the handler that
  ties them together. A channel is a list of bounded length; JSON and the
  response writer are not modelled, an event is written with the device it holds at that moment.
\<close>

type_synonym Event = "EventType \<times> EvDevice"

section \<open>The broker\<close>

definition subBuffer :: nat where "subBuffer = 32"

record Broker =
  br_subs :: "(nat, Event list) gomap"
  br_next :: nat

definition newEventBroker :: Broker where
  "newEventBroker = \<lparr>br_subs = [], br_next = 0\<rparr>"

text \<open>One turn of \<open>run\<close>: the event goes to every channel that has room.\<close>

definition publish :: "Event \<Rightarrow> Broker \<Rightarrow> Broker" where
  "publish ev b = b\<lparr>br_subs := map (\<lambda>(i, ch). (i, if length ch < subBuffer then ch @ [ev] else ch)) (br_subs b)\<rparr>"

definition subscribe :: "Broker \<Rightarrow> nat \<times> Broker" where
  "subscribe b = (br_next b, b\<lparr>br_subs := gput (br_next b) [] (br_subs b), br_next := Suc (br_next b)\<rparr>)"

definition unsubscribe :: "nat \<Rightarrow> Broker \<Rightarrow> Broker" where
  "unsubscribe i b = b\<lparr>br_subs := gdel i (br_subs b)\<rparr>"

text \<open>The subscriber takes the oldest event of its channel.\<close>

definition take_event :: "nat \<Rightarrow> Broker \<Rightarrow> Event option \<times> Broker" where
  "take_event i b = (case map_of (br_subs b) i of
      Some (ev # ch) \<Rightarrow> (Some ev, b\<lparr>br_subs := gput i ch (br_subs b)\<rparr>)
    | _ \<Rightarrow> (None, b))"

section \<open>The stream\<close>

fun type_text :: "EventType \<Rightarrow> string" where
  "type_text EventOnline = ''online''"
| "type_text EventOffline = ''offline''"
| "type_text EventUpdate = ''update''"

definition sseEventName :: "EventType \<Rightarrow> string" where
  "sseEventName t = ''device.'' @ type_text t"

definition deref :: "Device list \<Rightarrow> EvDevice \<Rightarrow> Device" where
  "deref heap d = (case d of Ptr a \<Rightarrow> heap ! a | Snap dev \<Rightarrow> dev)"

definition ev_key :: "Device list \<Rightarrow> Event \<Rightarrow> string" where
  "ev_key heap ev = type_text (fst ev) @ CHR '':'' # dv_ID (deref heap (snd ev))"

text \<open>The coalescing state: pending events by key, the keys in order, and what has been written.\<close>

record Stream =
  sm_pending :: "(string, Event) gomap"
  sm_order :: "string list"
  sm_out :: "(string \<times> EventType \<times> Device) list"

definition newStream :: Stream where
  "newStream = \<lparr>sm_pending = [], sm_order = [], sm_out = []\<rparr>"

definition on_event :: "Device list \<Rightarrow> Event \<Rightarrow> Stream \<Rightarrow> Stream" where
  "on_event heap ev s =
    (let key = ev_key heap ev;
         s1 = (if map_of (sm_pending s) key = None then s\<lparr>sm_order := sm_order s @ [key]\<rparr> else s)
     in s1\<lparr>sm_pending := gput key ev (sm_pending s1)\<rparr>)"

definition flush :: "Device list \<Rightarrow> Stream \<Rightarrow> Stream" where
  "flush heap s =
    (if sm_pending s = [] then s
     else s\<lparr>sm_out := sm_out s @ map (\<lambda>key. let ev = the (map_of (sm_pending s) key) in
              (sseEventName (fst ev), fst ev, deref heap (snd ev))) (sm_order s),
            sm_pending := [], sm_order := []\<rparr>)"

definition window :: "Device list \<Rightarrow> Event list \<Rightarrow> Stream \<Rightarrow> Stream" where
  "window heap evs s = flush heap (fold (on_event heap) evs s)"

section \<open>Properties\<close>

text \<open>The reference: each key once, at its first event, with its last event.\<close>

definition first_keys :: "string list \<Rightarrow> string list" where
  "first_keys ks = rev (remdups (rev ks))"

definition last_with :: "Device list \<Rightarrow> string \<Rightarrow> Event list \<Rightarrow> Event" where
  "last_with heap k evs = last (filter (\<lambda>ev. ev_key heap ev = k) evs)"

lemma first_keys_snoc: "first_keys (ks @ [k]) = (if k \<in> set ks then first_keys ks else first_keys ks @ [k])"
  by (simp add: first_keys_def)

lemma stream_state:
  "sm_order (fold (on_event heap) evs newStream) = first_keys (map (ev_key heap) evs) \<and>
   map_of (sm_pending (fold (on_event heap) evs newStream)) =
     (\<lambda>k. if k \<in> ev_key heap ` set evs then Some (last_with heap k evs) else None) \<and>
   sm_out (fold (on_event heap) evs newStream) = []"
proof (induction evs rule: rev_induct)
  case (snoc ev evs)
  then show ?case
    by (auto simp: on_event_def Let_def first_keys_snoc map_of_gput last_with_def fun_eq_iff)
qed (simp add: newStream_def first_keys_def fun_eq_iff)

lemma set_first_keys [simp]: "set (first_keys ks) = set ks"
  by (simp add: first_keys_def)

text \<open>Coalescing: from one window of events the stream writes one event for each type and device, in the order in
  which these pairs first occurred, each with the last event of the pair, and nothing else.\<close>

theorem coalesced_window:
  "sm_out (window heap evs newStream) = map (\<lambda>k. let ev = last_with heap k evs in
     (sseEventName (fst ev), fst ev, deref heap (snd ev))) (first_keys (map (ev_key heap) evs))"
proof -
  let ?s = "fold (on_event heap) evs newStream"
  note st = stream_state [of heap evs]
  show ?thesis
  proof (cases "evs = []")
    case True
    then show ?thesis by (simp add: window_def flush_def newStream_def first_keys_def)
  next
    case False
    then have "map_of (sm_pending ?s) (ev_key heap (hd evs)) \<noteq> None" using st by simp
    then have "sm_pending ?s \<noteq> []" by auto
    then show ?thesis using st by (auto simp: window_def flush_def Let_def)
  qed
qed

text \<open>The last word is wrong: a device that goes online, offline and online again within one window is written as
  online and then offline, so a client that applies the events shows a device as gone that is there.\<close>

theorem coalescing_reorders:
  assumes "dv_ID (deref heap d1) = i" "dv_ID (deref heap d2) = i" "dv_ID (deref heap d3) = i"
  shows "sm_out (window heap [(EventOnline, d1), (EventOffline, d2), (EventOnline, d3)] newStream) =
    [(''device.online'', EventOnline, deref heap d3), (''device.offline'', EventOffline, deref heap d2)]"
  using assms by (simp add: window_def flush_def on_event_def newStream_def ev_key_def Let_def sseEventName_def)

datatype bop = BPublish Event | BTake nat | BSubscribe | BUnsubscribe nat

fun bstep :: "bop \<Rightarrow> Broker \<Rightarrow> Broker" where
  "bstep (BPublish ev) b = publish ev b"
| "bstep (BTake i) b = snd (take_event i b)"
| "bstep BSubscribe b = snd (subscribe b)"
| "bstep (BUnsubscribe i) b = unsubscribe i b"

text \<open>What a subscriber has been sent and has taken in a run.\<close>

fun taken_by :: "nat \<Rightarrow> bop list \<Rightarrow> Broker \<Rightarrow> Event list" where
  "taken_by i [] b = []"
| "taken_by i (x # xs) b = (case x of BTake j \<Rightarrow> if j = i then (case fst (take_event i b) of None \<Rightarrow> [] | Some ev \<Rightarrow> [ev]) else []
     | _ \<Rightarrow> []) @ taken_by i xs (bstep x b)"

fun published :: "bop list \<Rightarrow> Event list" where
  "published [] = []"
| "published (BPublish ev # xs) = ev # published xs"
| "published (x # xs) = published xs"

text \<open>The subscriber keeps up: its channel has room at every event.\<close>

fun keeps_up :: "nat \<Rightarrow> bop list \<Rightarrow> Broker \<Rightarrow> bool" where
  "keeps_up i [] b = True"
| "keeps_up i (x # xs) b \<longleftrightarrow> (case x of BPublish ev \<Rightarrow> (case map_of (br_subs b) i of None \<Rightarrow> False | Some ch \<Rightarrow> length ch < subBuffer)
     | BUnsubscribe j \<Rightarrow> j \<noteq> i | _ \<Rightarrow> True) \<and> keeps_up i xs (bstep x b)"

lemma publish_lookup: "map_of (br_subs (publish ev b)) i =
    map_option (\<lambda>ch. if length ch < subBuffer then ch @ [ev] else ch) (map_of (br_subs b) i)"
  by (simp add: publish_def map_of_map)


lemma take_lookup: "map_of (br_subs (snd (take_event j b))) i =
    (if j = i then map_option (\<lambda>ch. tl ch) (map_of (br_subs b) i) else map_of (br_subs b) i)"
  by (auto simp: take_event_def map_of_gput split: option.split list.split)

lemma take_result: "map_of (br_subs b) i = Some ch \<Longrightarrow> fst (take_event i b) = (case ch of [] \<Rightarrow> None | ev # _ \<Rightarrow> Some ev)"
  by (auto simp: take_event_def split: list.split)

lemma next_mono: "br_next b \<le> br_next (bstep x b)"
  by (cases x) (auto simp: publish_def take_event_def subscribe_def unsubscribe_def split: option.split list.split)

text \<open>Delivery: a subscriber whose channel has room at every event gets every event, once and in order: what it
  has taken followed by what is still in its channel is what the channel held followed by what was
  published, whatever the other subscribers do.\<close>

theorem events_delivered_in_order:
  assumes "map_of (br_subs b) i = Some ch" "i < br_next b" "keeps_up i xs b"
  shows "\<exists>ch'. map_of (br_subs (fold bstep xs b)) i = Some ch' \<and> taken_by i xs b @ ch' = ch @ published xs"
  using assms
proof (induction xs arbitrary: b ch)
  case (Cons x xs)
  have nxt: "i < br_next (bstep x b)" using Cons.prems(2) next_mono [of b x] by linarith
  have up: "keeps_up i xs (bstep x b)" using Cons.prems(3) by simp
  show ?case
  proof (cases x)
    case (BPublish ev)
    then have "map_of (br_subs (bstep x b)) i = Some (ch @ [ev])" using Cons.prems by (simp add: publish_lookup)
    from Cons.IH [OF this nxt up] BPublish show ?thesis by simp
  next
    case (BTake j)
    then have "map_of (br_subs (bstep x b)) i = Some (if j = i then tl ch else ch)"
      using Cons.prems(1) by (simp add: take_lookup)
    from Cons.IH [OF this nxt up] BTake show ?thesis
      using take_result [OF Cons.prems(1)] by (cases ch) auto
  next
    case BSubscribe
    then have "map_of (br_subs (bstep x b)) i = Some ch"
      using Cons.prems by (simp add: subscribe_def map_of_gput)
    from Cons.IH [OF this nxt up] BSubscribe show ?thesis by simp
  next
    case (BUnsubscribe j)
    then have "map_of (br_subs (bstep x b)) i = Some ch"
      using Cons.prems by (simp add: unsubscribe_def map_of_gdel)
    from Cons.IH [OF this nxt up] BUnsubscribe show ?thesis by simp
  qed
qed simp

lemma coalescing_reorders_witness:
  "sm_out (window [demo_dev] [(EventOnline, Ptr 0), (EventOffline, Snap demo_dev), (EventOnline, Ptr 0)] newStream) =
    [(''device.online'', EventOnline, deref [demo_dev] (Ptr 0)), (''device.offline'', EventOffline, deref [demo_dev] (Snap demo_dev))]"
  by (rule coalescing_reorders) (simp_all add: deref_def)

lemma events_delivered_in_order_witness:
  "\<exists>ch'. map_of (br_subs (fold bstep [BPublish (EventOnline, Ptr 0), BTake 0] (snd (subscribe newEventBroker)))) 0 = Some ch' \<and>
    taken_by 0 [BPublish (EventOnline, Ptr 0), BTake 0] (snd (subscribe newEventBroker)) @ ch' =
      [] @ published [BPublish (EventOnline, Ptr 0), BTake 0]"
  by (rule events_delivered_in_order) (simp_all add: subscribe_def newEventBroker_def subBuffer_def)

section \<open>The handler\<close>

text \<open>What happens to the goroutine of \<open>handleEvents\<close>, and beside it: the client goes away, the handler takes the next
  event of its channel, the throttle's ticker fires (each with the devices as they are at that moment), or the
  broker and the other handlers do something.\<close>

datatype Turn = ClientGone | TakeNext "Device list" | Throttle "Device list" | Others bop

text \<open>The loop of the handler with channel \<open>i\<close>: whether it has returned, its stream and the broker.\<close>

fun events_loop :: "nat \<Rightarrow> Turn list \<Rightarrow> Stream \<Rightarrow> Broker \<Rightarrow> bool \<times> Stream \<times> Broker" where
  "events_loop i [] s b = (False, s, b)"
| "events_loop i (ClientGone # ts) s b = (True, s, b)"
| "events_loop i (TakeNext heap # ts) s b =
    (case take_event i b of
       (None, b') \<Rightarrow> events_loop i ts s b
     | (Some ev, b') \<Rightarrow> events_loop i ts (on_event heap ev s) b')"
| "events_loop i (Throttle heap # ts) s b = events_loop i ts (flush heap s) b"
| "events_loop i (Others x # ts) s b = events_loop i ts s (bstep x b)"

datatype EventWrite = Hello | DeviceEvent string EventType Device

datatype EventReply = HttpError nat string | EventStream bool "EventWrite list"

text \<open>\<open>flusher\<close> is whether the response writer can flush. A handler that has returned has run its deferred cancel.\<close>

definition handleEvents :: "bool \<Rightarrow> Turn list \<Rightarrow> Broker option \<Rightarrow> EventReply \<times> Broker option" where
  "handleEvents flusher ts broker = (case broker of
      None \<Rightarrow> (HttpError 503 ''events unavailable'', None)
    | Some b \<Rightarrow>
        if \<not> flusher then (HttpError 500 ''streaming unsupported'', Some b)
        else let (i, b1) = subscribe b; (gone, s, b2) = events_loop i ts newStream b1 in
          (EventStream gone (Hello # map (\<lambda>(name, t, d). DeviceEvent name t d) (sm_out s)),
           Some (if gone then unsubscribe i b2 else b2)))"

text \<open>The reference: the events received, each with its key, and the ticks; at a tick every key since the last
  one is written once.\<close>

fun received :: "nat \<Rightarrow> Turn list \<Rightarrow> Broker \<Rightarrow> (Device list \<times> Event option) list" where
  "received i [] b = []"
| "received i (ClientGone # ts) b = []"
| "received i (TakeNext heap # ts) b =
    (case take_event i b of
       (None, b') \<Rightarrow> received i ts b
     | (Some ev, b') \<Rightarrow> (heap, Some ev) # received i ts b')"
| "received i (Throttle heap # ts) b = (heap, None) # received i ts b"
| "received i (Others x # ts) b = received i ts (bstep x b)"

definition window_out :: "Device list \<Rightarrow> (string \<times> Event) list \<Rightarrow> EventWrite list" where
  "window_out heap acc = map (\<lambda>k. let ev = snd (last (filter (\<lambda>p. fst p = k) acc)) in
     DeviceEvent (sseEventName (fst ev)) (fst ev) (deref heap (snd ev))) (first_keys (map fst acc))"

fun session_out :: "(string \<times> Event) list \<Rightarrow> (Device list \<times> Event option) list \<Rightarrow> EventWrite list" where
  "session_out acc [] = []"
| "session_out acc ((heap, Some ev) # rest) = session_out (acc @ [(ev_key heap ev, ev)]) rest"
| "session_out acc ((heap, None) # rest) = window_out heap acc @ session_out [] rest"

text \<open>The pending events of a stream are those of a list of keyed events.\<close>

definition holds :: "Stream \<Rightarrow> (string \<times> Event) list \<Rightarrow> bool" where
  "holds s acc \<longleftrightarrow> sm_order s = first_keys (map fst acc) \<and>
     map_of (sm_pending s) = (\<lambda>k. if k \<in> fst ` set acc then Some (snd (last (filter (\<lambda>p. fst p = k) acc))) else None)"

lemma holds_new: "holds newStream []"
  by (simp add: holds_def newStream_def first_keys_def fun_eq_iff)

lemma holds_event: "holds s acc \<Longrightarrow> holds (on_event heap ev s) (acc @ [(ev_key heap ev, ev)]) \<and> sm_out (on_event heap ev s) = sm_out s"
  by (auto simp: holds_def on_event_def Let_def first_keys_snoc map_of_gput fun_eq_iff)

lemma holds_flush:
  assumes "holds s acc"
  shows "holds (flush heap s) [] \<and>
    map (\<lambda>(name, t, d). DeviceEvent name t d) (sm_out (flush heap s)) =
      map (\<lambda>(name, t, d). DeviceEvent name t d) (sm_out s) @ window_out heap acc"
proof (cases "acc = []")
  case True
  then have "sm_order s = []" "map_of (sm_pending s) = Map.empty" using assms by (auto simp: holds_def first_keys_def)
  then show ?thesis using True assms by (auto simp: holds_def flush_def window_out_def first_keys_def)
next
  case False
  then have "map_of (sm_pending s) (fst (hd acc)) \<noteq> None" using assms by (simp add: holds_def)
  then have "sm_pending s \<noteq> []" by auto
  then show ?thesis using assms by (auto simp: holds_def flush_def window_out_def first_keys_def Let_def fun_eq_iff)
qed

lemma loop_session:
  "holds s acc \<Longrightarrow> map (\<lambda>(name, t, d). DeviceEvent name t d) (sm_out (fst (snd (events_loop i ts s b)))) =
    map (\<lambda>(name, t, d). DeviceEvent name t d) (sm_out s) @ session_out acc (received i ts b)"
proof (induction i ts s b arbitrary: acc rule: events_loop.induct)
  case (3 i heap ts s b)
  then show ?case using holds_event [of s acc heap] by (auto split: prod.split option.split)
next
  case (4 i heap ts s b)
  from "4.IH" [of "[]"] holds_flush [OF "4.prems", of heap] show ?case by simp
qed simp_all

text \<open>What the turns do to the broker.\<close>

fun broker_op :: "nat \<Rightarrow> Turn \<Rightarrow> bop list" where
  "broker_op i (TakeNext heap) = [BTake i]"
| "broker_op i (Others x) = [x]"
| "broker_op i _ = []"

lemma take_none: "take_event i b = (None, b') \<Longrightarrow> b' = b"
  by (auto simp: take_event_def split: option.splits list.splits)

lemma loop_broker:
  "ClientGone \<notin> set ts \<Longrightarrow> Others (BTake i) \<notin> set ts \<Longrightarrow>
    fst (events_loop i (ts @ [ClientGone]) s b) \<and>
    snd (snd (events_loop i (ts @ [ClientGone]) s b)) = fold bstep (concat (map (broker_op i) ts)) b \<and>
    List.map_filter snd (received i (ts @ [ClientGone]) b) = taken_by i (concat (map (broker_op i) ts)) b"
proof (induction i ts s b rule: events_loop.induct)
  case (3 i heap ts s b)
  then show ?case using take_none [of i b] by (auto simp: List.map_filter_simps split: prod.split option.split)
qed (auto simp: List.map_filter_simps split: bop.split)

text \<open>C39: A session of the event stream: the handler of a client that keeps up greets it, receives every event that is
  published while the client is connected, once and in order, apart from those still in the channel when the client
  goes away, and at every tick writes what arrived since the last one, one event for each type and device; when the
  client goes away it returns and its channel leaves the broker, so nothing is sent to it any more.\<close>

theorem events_session_exact:
  fixes b ts
  defines "i \<equiv> br_next b" and "b0 \<equiv> snd (subscribe b)"
  assumes "ClientGone \<notin> set ts" "Others (BTake i) \<notin> set ts" "keeps_up i (concat (map (broker_op i) ts)) b0"
  shows "\<exists>b' missed. handleEvents True (ts @ [ClientGone]) (Some b) =
      (EventStream True (Hello # session_out [] (received i (ts @ [ClientGone]) b0)), Some b') \<and>
    map_of (br_subs b') i = None \<and>
    List.map_filter snd (received i (ts @ [ClientGone]) b0) @ missed = published (concat (map (broker_op i) ts))"
proof -
  let ?evs = "received i (ts @ [ClientGone]) b0"
  obtain gone s b2 where l: "events_loop i (ts @ [ClientGone]) newStream b0 = (gone, s, b2)" by (metis prod_cases3)
  have sub: "subscribe b = (i, b0)" by (simp add: i_def b0_def subscribe_def)
  note lb = loop_broker [OF assms(3,4), of newStream b0]
  have "map (\<lambda>(name, t, d). DeviceEvent name t d) (sm_out s) = session_out [] ?evs"
    using loop_session [OF holds_new, of i "ts @ [ClientGone]" b0] l by (simp add: newStream_def)
  then have h: "handleEvents True (ts @ [ClientGone]) (Some b) =
      (EventStream True (Hello # session_out [] ?evs), Some (unsubscribe i b2))"
    using l lb sub by (simp add: handleEvents_def)
  have "map_of (br_subs b0) i = Some []" "i < br_next b0" by (simp_all add: i_def b0_def subscribe_def map_of_gput)
  from events_delivered_in_order [OF this assms(5)] lb
  obtain missed where "List.map_filter snd ?evs @ missed = published (concat (map (broker_op i) ts))" by auto
  moreover have "map_of (br_subs (unsubscribe i b2)) i = None" by (simp add: unsubscribe_def map_of_gdel)
  ultimately show ?thesis using h by blast
qed

lemma events_session_exact_witness:
  "\<exists>b' missed. handleEvents True ([Others (BPublish (EventOnline, Ptr 0)), TakeNext [demo_dev], Throttle [demo_dev]] @ [ClientGone])
      (Some newEventBroker) = (EventStream True (Hello # session_out [] (received (br_next newEventBroker)
        ([Others (BPublish (EventOnline, Ptr 0)), TakeNext [demo_dev], Throttle [demo_dev]] @ [ClientGone])
        (snd (subscribe newEventBroker)))), Some b') \<and>
    map_of (br_subs b') (br_next newEventBroker) = None \<and>
    List.map_filter snd (received (br_next newEventBroker)
        ([Others (BPublish (EventOnline, Ptr 0)), TakeNext [demo_dev], Throttle [demo_dev]] @ [ClientGone])
        (snd (subscribe newEventBroker))) @ missed =
      published (concat (map (broker_op (br_next newEventBroker))
        [Others (BPublish (EventOnline, Ptr 0)), TakeNext [demo_dev], Throttle [demo_dev]]))"
  by (rule events_session_exact) (simp_all add: subscribe_def newEventBroker_def subBuffer_def)

end
