(* ===== verification/ZipTree.thy ===== *)
theory ZipTree
  imports GoText
begin

text \<open>
  Archiving a shared path (\<open>core/share/zip.go\<close>). A path is the list of its components, a directory the
  list of its entries in the order \<open>filepath.Walk\<close> visits them (sorted by name); a symbolic link is an entry
  with the length of its text and what opening it yields. The archive is the list of its entries.
\<close>

datatype LinkTarget = ToFile bytes | ToDir | Dangling

datatype Node = NFile bytes | NLink nat LinkTarget | NDir "(string \<times> Node) list"

datatype ZipError = ErrStat | ErrZipWrite

text \<open>\<open>filepath.Walk\<close> does not follow links: it visits every entry, links as files.\<close>

fun walk_files :: "string list \<Rightarrow> Node \<Rightarrow> (string list \<times> Node) list" where
  "walk_files p (NDir kids) = concat (map (\<lambda>(n, k). walk_files (p @ [n]) k) kids)"
| "walk_files p (NFile b) = [(p, NFile b)]"
| "walk_files p (NLink l t) = [(p, NLink l t)]"

definition slash_join :: "string list \<Rightarrow> string" where
  "slash_join p = Join (CHR ''/'') p"

text \<open>\<open>os.Stat\<close> and \<open>os.Open\<close> do follow links; reading a directory fails after the entry's header.\<close>

definition addFileToZip :: "Node \<Rightarrow> string \<Rightarrow> (string \<times> bytes) list \<Rightarrow> ZipError option \<times> (string \<times> bytes) list" where
  "addFileToZip nd zipPath z = (case nd of
      NFile b \<Rightarrow> (None, z @ [(zipPath, b)])
    | NLink l (ToFile b) \<Rightarrow> (None, z @ [(zipPath, b)])
    | NLink l ToDir \<Rightarrow> (Some ErrZipWrite, z @ [(zipPath, [])])
    | NLink l Dangling \<Rightarrow> (Some ErrStat, z)
    | NDir kids \<Rightarrow> (Some ErrZipWrite, z @ [(zipPath, [])]))"

fun add_all :: "(string list \<times> Node) list \<Rightarrow> (string \<times> bytes) list \<Rightarrow> ZipError option \<times> (string \<times> bytes) list" where
  "add_all [] z = (None, z)"
| "add_all ((p, nd) # fs) z = (case addFileToZip nd (slash_join p) z of
      (Some e, z') \<Rightarrow> (Some e, z')
    | (None, z') \<Rightarrow> add_all fs z')"

text \<open>The shared path has the base name \<open>name\<close>; relative to the parent of the root a walked path begins with it.
  None: the path does not exist.\<close>

definition StreamZip :: "string \<Rightarrow> Node option \<Rightarrow> ZipError option \<times> (string \<times> bytes) list" where
  "StreamZip name root = (case root of
      None \<Rightarrow> (Some ErrStat, [])
    | Some (NDir kids) \<Rightarrow> add_all (walk_files [name] (NDir kids)) []
    | Some nd \<Rightarrow> addFileToZip nd name [])"

definition lstat_size :: "Node \<Rightarrow> nat" where
  "lstat_size nd = (case nd of NFile b \<Rightarrow> length b | NLink l t \<Rightarrow> l | NDir kids \<Rightarrow> 0)"

definition CountFiles :: "string \<Rightarrow> Node option \<Rightarrow> ZipError + nat \<times> nat" where
  "CountFiles name root = (case root of
      None \<Rightarrow> Inl ErrStat
    | Some (NDir kids) \<Rightarrow>
        let fs = walk_files [name] (NDir kids) in Inr (length fs, sum_list (map (lstat_size \<circ> snd) fs))
    | Some nd \<Rightarrow> Inr (1, lstat_size nd))"

fun has_dotdot :: "string \<Rightarrow> bool" where
  "has_dotdot (a # b # s) \<longleftrightarrow> (a = CHR ''.'' \<and> b = CHR ''.'') \<or> has_dotdot (b # s)"
| "has_dotdot _ \<longleftrightarrow> False"

definition SanitizeZipPath :: "string \<Rightarrow> bool" where
  \<comment> \<open>True: accepted. Absolute paths are those of a Unix system.\<close>
  "SanitizeZipPath path \<longleftrightarrow> \<not> (HasPrefix path ''/'' \<or> has_dotdot path) \<and> \<not> (2 \<le> length path \<and> path ! 1 = CHR '':'')"

section \<open>Properties\<close>

fun linkless :: "Node \<Rightarrow> bool" where
  "linkless (NDir kids) \<longleftrightarrow> (\<forall>(n, k) \<in> set kids. linkless k)"
| "linkless (NFile b) \<longleftrightarrow> True"
| "linkless (NLink l t) \<longleftrightarrow> False"

text \<open>Entry names as a directory has them: distinct, not empty, without a slash.\<close>

fun names_ok :: "Node \<Rightarrow> bool" where
  "names_ok (NDir kids) \<longleftrightarrow> distinct (map fst kids) \<and> (\<forall>(n, k) \<in> set kids. n \<noteq> [] \<and> CHR ''/'' \<notin> set n \<and> names_ok k)"
| "names_ok nd \<longleftrightarrow> True"

lemma walk_linkless: "linkless nd \<Longrightarrow> x \<in> set (walk_files p nd) \<Longrightarrow> \<exists>b. snd x = NFile b"
  by (induction p nd rule: walk_files.induct) fastforce+

lemma add_all_files:
  assumes "\<And>x. x \<in> set fs \<Longrightarrow> \<exists>b. snd x = NFile b"
  shows "add_all fs z = (None, z @ map (\<lambda>(p, nd). (slash_join p, case nd of NFile b \<Rightarrow> b | _ \<Rightarrow> [])) fs)"
  using assms
proof (induction fs arbitrary: z)
  case (Cons x fs)
  obtain p b where x: "x = (p, NFile b)" using Cons.prems [of x] by (cases x) auto
  show ?case using Cons by (simp add: x addFileToZip_def)
qed simp

lemma walk_prefix: "x \<in> set (walk_files p nd) \<Longrightarrow> \<exists>q. fst x = p @ q"
  by (induction p nd rule: walk_files.induct) fastforce+

lemma walk_names: "names_ok nd \<Longrightarrow> (\<forall>n \<in> set p. CHR ''/'' \<notin> set n) \<Longrightarrow> x \<in> set (walk_files p nd) \<Longrightarrow>
    \<forall>n \<in> set (fst x). CHR ''/'' \<notin> set n"
proof (induction p nd rule: walk_files.induct)
  case (1 p kids)
  then obtain n k where nk: "(n, k) \<in> set kids" "x \<in> set (walk_files (p @ [n]) k)" by auto
  with 1 have "names_ok k" "\<forall>m \<in> set (p @ [n]). CHR ''/'' \<notin> set m" by auto
  then show ?case using 1(1) nk by blast
qed auto

lemma walk_distinct: "names_ok nd \<Longrightarrow> distinct (map fst (walk_files p nd))"
proof (induction p nd rule: walk_files.induct)
  case (1 p kids)
  have "distinct (concat (map (\<lambda>(n, k). map fst (walk_files (p @ [n]) k)) kids))" if "names_ok (NDir kids)"
    "\<And>n k. (n, k) \<in> set kids \<Longrightarrow> names_ok k \<Longrightarrow> distinct (map fst (walk_files (p @ [n]) k))"
    using that
  proof (induction kids)
    case (Cons x kids)
    obtain n k where x: "x = (n, k)" by (cases x)
    have "fst y \<noteq> fst z" if y: "y \<in> set (walk_files (p @ [n]) k)" and m: "(m, j) \<in> set kids" and z: "z \<in> set (walk_files (p @ [m]) j)" for y z m j
    proof -
      have "m \<noteq> n" using Cons.prems(1) m x by (force simp: image_iff)
      moreover obtain q q' where "fst y = p @ [n] @ q" "fst z = p @ [m] @ q'" using walk_prefix [OF y] walk_prefix [OF z] by auto
      ultimately show ?thesis by simp
    qed
    then have "set (map fst (walk_files (p @ [n]) k)) \<inter> set (concat (map (\<lambda>(n, k). map fst (walk_files (p @ [n]) k)) kids)) = {}"
      by fastforce
    moreover have "distinct (map fst (walk_files (p @ [n]) k))" using Cons.prems x by auto
    moreover have "distinct (concat (map (\<lambda>(n, k). map fst (walk_files (p @ [n]) k)) kids))"
      using Cons by auto
    ultimately show ?case by (simp add: x)
  qed simp
  moreover have "map fst (walk_files p (NDir kids)) = concat (map (\<lambda>(n, k). map fst (walk_files (p @ [n]) k)) kids)"
    by (simp add: map_concat comp_def split_def)
  ultimately show ?case using 1 by auto
qed simp_all

text \<open>The archive of a tree without links is complete and what was announced: no error, one entry for each file
  that \<open>CountFiles\<close> counts, with all their bytes, and no two entries of the same name.\<close>

theorem archive_complete:
  assumes "linkless (NDir kids)" "names_ok (NDir kids)" "CHR ''/'' \<notin> set name"
  shows "\<exists>z. StreamZip name (Some (NDir kids)) = (None, z) \<and>
    CountFiles name (Some (NDir kids)) = Inr (length z, sum_list (map (length \<circ> snd) z)) \<and> distinct (map fst z)"
proof -
  let ?fs = "walk_files [name] (NDir kids)"
  let ?z = "map (\<lambda>(p, nd). (slash_join p, case nd of NFile b \<Rightarrow> b | _ \<Rightarrow> [])) ?fs"
  have files: "\<exists>b. snd x = NFile b" if "x \<in> set ?fs" for x using walk_linkless [OF assms(1) that] .
  have "StreamZip name (Some (NDir kids)) = (None, ?z)"
    using add_all_files [of ?fs "[]"] files by (simp add: StreamZip_def del: walk_files.simps)
  moreover have "map (lstat_size \<circ> snd) ?fs = map (length \<circ> snd) ?z"
    using files by (fastforce simp: lstat_size_def)
  then have "CountFiles name (Some (NDir kids)) = Inr (length ?z, sum_list (map (length \<circ> snd) ?z))"
    by (simp add: CountFiles_def Let_def del: walk_files.simps map_map map_eq_conv)
  moreover have "distinct (map fst ?z)"
  proof -
    have "inj_on slash_join (set (map fst ?fs))"
    proof (rule inj_onI)
      fix a b
      assume ab: "a \<in> set (map fst ?fs)" "b \<in> set (map fst ?fs)" "slash_join a = slash_join b"
      have ok: "\<forall>n \<in> set c. CHR ''/'' \<notin> set n" "c \<noteq> []" if "c \<in> set (map fst ?fs)" for c
        using walk_names [OF assms(2), of "[name]"] walk_prefix [of _ "[name]" "NDir kids"] assms(3) that by fastforce+
      show "a = b" using ab ok Split_Join [of a "CHR ''/''"] Split_Join [of b "CHR ''/''"] by (metis slash_join_def)
    qed
    moreover have "map fst ?z = map slash_join (map fst ?fs)" by (simp add: split_def comp_def del: walk_files.simps)
    ultimately show ?thesis using walk_distinct [OF assms(2), of "[name]"] by (simp only: distinct_map)
  qed
  ultimately show ?thesis by blast
qed

text \<open>Links are followed: a link inside a shared directory puts the file it names into the archive, wherever that
  file lies, and a link to a directory aborts the archive.\<close>

theorem archive_follows_links:
  "StreamZip name (Some (NDir [(n, NLink l (ToFile secret))])) = (None, [(name @ CHR ''/'' # n, secret)]) \<and>
   fst (StreamZip name (Some (NDir ((n, NLink l ToDir) # kids)))) = Some ErrZipWrite"
  by (simp add: StreamZip_def addFileToZip_def slash_join_def)

lemma archive_complete_witness:
  "\<exists>z. StreamZip ''d'' (Some (NDir [(''a'', NFile [1, 2]), (''b'', NDir [(''c'', NFile [3])])])) = (None, z) \<and>
    CountFiles ''d'' (Some (NDir [(''a'', NFile [1, 2]), (''b'', NDir [(''c'', NFile [3])])])) =
      Inr (length z, sum_list (map (length \<circ> snd) z)) \<and> distinct (map fst z)"
  by (rule archive_complete) simp_all

end
