(* ===== verification/Bind.thy ===== *)
theory Bind
  imports Complex_Main ConnectURI Discovery
begin

text \<open>
  The surface for the mobile apps (\<open>mobile/bind/bind.go\<close>): comma-separated lists in, one string out, over
  the same address selection and URI parser as the daemon. The use cases behind \<open>SendFile\<close> and
  \<open>ReceiveFile\<close> are what the caller injects and so are parameters.
\<close>

definition splitCSV :: "string \<Rightarrow> string list" where
  "splitCSV s = (if s = [] then [] else filter (\<lambda>p. p \<noteq> []) (map TrimSpace (Split (CHR '','') s)))"

definition SelectBestAddress :: "string \<Rightarrow> string \<Rightarrow> int \<Rightarrow> string" where
  "SelectBestAddress dstsCSV srcsCSV port =
    Join LF (map ap_Destination (SelectAddresses (splitCSV dstsCSV) (splitCSV srcsCSV) port))"

definition LocalSourceIPsCSV :: "Iface list option \<Rightarrow> string" where
  "LocalSourceIPsCSV ifs = Join (CHR '','') (LocalSourceIPs ifs)"

record StaticKeys =
  sk_Public :: bytes
  sk_Private :: bytes

datatype BindError = ErrPublicHex | ErrPublicLength | ErrPrivateHex | ErrPrivateLength | ErrNoSender | ErrNoReceiver
  | ErrUseCase string

definition decodeStaticKeys :: "string \<Rightarrow> string \<Rightarrow> BindError + StaticKeys" where
  "decodeStaticKeys pubHex privHex = (case DecodeString pubHex of
      None \<Rightarrow> Inl ErrPublicHex
    | Some pub \<Rightarrow>
      if length pub \<noteq> 32 then Inl ErrPublicLength
      else (case DecodeString privHex of
          None \<Rightarrow> Inl ErrPrivateHex
        | Some priv \<Rightarrow> if length priv \<noteq> 32 then Inl ErrPrivateLength
            else Inr \<lparr>sk_Public = pub, sk_Private = priv\<rparr>))"

text \<open>The bridge over injected use cases; a direction may be left out.\<close>

record ('s, 'r) Bridge =
  bd_sender :: "'s option"
  bd_receiver :: "'r option"
  bd_static :: StaticKeys

definition NewBridge :: "'s option \<Rightarrow> 'r option \<Rightarrow> string \<Rightarrow> string \<Rightarrow> BindError + ('s, 'r) Bridge" where
  "NewBridge sender receiver pub priv = (case decodeStaticKeys pub priv of
      Inl e \<Rightarrow> Inl e | Inr sk \<Rightarrow> Inr \<lparr>bd_sender = sender, bd_receiver = receiver, bd_static = sk\<rparr>)"

text \<open>The time limit of a send, in nanoseconds: one minute and two more for each GiB, at most an hour. The
  minutes are exact in binary floating point; \<open>rnd\<close> is the rounding of the last product.\<close>

definition sendTimeout :: "(rat \<Rightarrow> rat) \<Rightarrow> int option \<Rightarrow> int" where
  "sendTimeout rnd sz = (case sz of
      None \<Rightarrow> 60000000000
    | Some n \<Rightarrow>
        let minutes = 1 + of_int n / 1073741824 * 2;
            m1 = (if minutes < 1 then 1 else minutes);
            m2 = (if 60 < m1 then 60 else m1)
        in \<lfloor>rnd (m2 * 60000000000)\<rfloor>)"

definition SendFile :: "(int \<Rightarrow> StaticKeys \<Rightarrow> 'c \<Rightarrow> string option, 'r) Bridge \<Rightarrow> (rat \<Rightarrow> rat) \<Rightarrow> int option \<Rightarrow> 'c \<Rightarrow> BindError option" where
  "SendFile b rnd sz cfg = (case bd_sender b of
      None \<Rightarrow> Some ErrNoSender
    | Some send \<Rightarrow> map_option ErrUseCase (send (sendTimeout rnd sz) (bd_static b) cfg))"

definition ReceiveFile :: "('s, int \<Rightarrow> StaticKeys \<Rightarrow> 'c \<Rightarrow> string option) Bridge \<Rightarrow> 'c \<Rightarrow> BindError option" where
  "ReceiveFile b cfg = (case bd_receiver b of
      None \<Rightarrow> Some ErrNoReceiver
    | Some recv \<Rightarrow> map_option ErrUseCase (recv (5 * 60 * 1000000000) (bd_static b) cfg))"

record ConnectURIDTO =
  dto_IP :: string
  dto_IP6 :: string
  dto_Port :: int
  dto_PKHash :: string
  dto_DeviceName :: string

definition Bridge_ParseConnectURI :: "string \<Rightarrow> URIError + ConnectURIDTO" where
  "Bridge_ParseConnectURI uri = (case ParseConnectURI uri of
      Inl e \<Rightarrow> Inl e
    | Inr c \<Rightarrow> Inr \<lparr>dto_IP = cu_IP c, dto_IP6 = cu_IP6 c, dto_Port = cu_Port c, dto_PKHash = cu_PKHash c,
        dto_DeviceName = cu_DeviceName c\<rparr>)"

section \<open>Properties\<close>

definition plain_entry :: "string \<Rightarrow> bool" where
  "plain_entry p \<longleftrightarrow> p \<noteq> [] \<and> CHR '','' \<notin> set p \<and> trimmed p"

lemma splitCSV_Join: "(\<And>p. p \<in> set ps \<Longrightarrow> plain_entry p) \<Longrightarrow> splitCSV (Join (CHR '','') ps) = ps"
proof (cases ps)
  case (Cons q qs)
  assume ps: "\<And>p. p \<in> set ps \<Longrightarrow> plain_entry p"
  have "Split (CHR '','') (Join (CHR '','') ps) = ps" by (rule Split_Join) (use ps Cons in \<open>auto simp: plain_entry_def\<close>)
  moreover have "map TrimSpace ps = ps" using ps by (intro map_idI) (simp add: plain_entry_def TrimSpace_trimmed)
  moreover have "filter (\<lambda>p. p \<noteq> []) ps = ps" using ps by (auto simp: plain_entry_def filter_id_conv)
  moreover have "Join (CHR '','') ps \<noteq> []" using ps [of q] Cons by (cases qs) (auto simp: plain_entry_def)
  ultimately show ?thesis by (simp add: splitCSV_def)
qed (simp add: splitCSV_def)

definition ip_char :: "char \<Rightarrow> bool" where
  "ip_char c \<longleftrightarrow> graphic c \<and> c \<noteq> CHR '',''"

lemma ip_char_simps: "is_hex c \<Longrightarrow> ip_char c" "digit_val c \<noteq> None \<Longrightarrow> ip_char c" "ip_char colon" "ip_char (CHR ''.'')"
  using is_hex_graphic [of c] digit_graphic [of c]
  by (auto simp: ip_char_def is_hex_def graphic_def colon_def digit_val_def less_eq_char_def split: if_splits)

lemma EncodeToString_hex: "c \<in> set (EncodeToString bs) \<Longrightarrow> is_hex c"
proof (induction bs)
  case (Cons b bs)
  have "unat b < 256" by (rule byte_lt)
  with Cons show ?case by (auto intro: hex_char_is_hex)
qed simp

lemma IP_String_chars: "c \<in> set (IP_String ip) \<Longrightarrow> ip_char c"
proof -
  have q: "ip_char (CHR ''?'')" "ip_char (CHR ''<'')" "ip_char (CHR ''n'')" "ip_char (CHR ''i'')" "ip_char (CHR ''l'')" "ip_char (CHR ''>'')"
    by (simp_all add: ip_char_def graphic_def)
  have v: "c \<in> set (v6_string ip) \<Longrightarrow> ip_char c" using set_v6_string ip_char_simps by blast
  have d: "c \<in> set (dotted v4) \<Longrightarrow> ip_char c" for v4 using set_dotted ip_char_simps by blast
  have e: "c \<in> set (EncodeToString bs) \<Longrightarrow> ip_char c" for bs using EncodeToString_hex ip_char_simps by blast
  assume "c \<in> set (IP_String ip)"
  then show ?thesis using q by (auto simp: IP_String_def intro: v d e split: if_splits option.splits)
qed

lemma Join_ne: "xs \<noteq> [] \<Longrightarrow> hd xs \<noteq> [] \<Longrightarrow> Join c xs \<noteq> []"
  by (cases xs rule: remdups_adj.cases) simp_all

lemma hex_nat_ne: "hex_nat n \<noteq> []"
  by (subst hex_nat.simps) simp

lemma v6_string_ne: "length ip = 16 \<Longrightarrow> v6_string ip \<noteq> []"
proof -
  assume "length ip = 16"
  then obtain a b r where "ip = a # b # r" by (cases ip rule: groups16.cases) auto
  then have "hex_groups (groups16 ip) \<noteq> []"
    unfolding hex_groups_def by (intro Join_ne) (simp_all add: hex_nat_ne)
  then show ?thesis by (auto simp: v6_string_def Let_def split: prod.split)
qed

lemma IP_String_ne: "IP_String ip \<noteq> []"
proof -
  have "dotted v4 \<noteq> []" if "To4 ip = Some v4" for v4
    using that by (intro dotted_ne) (auto simp: To4_def split: if_splits)
  then show ?thesis using v6_string_ne [of ip] by (auto simp: IP_String_def To4_def split: option.split)
qed

lemma IP_String_plain: "plain_entry (IP_String ip)"
proof -
  have g: "graphic c \<and> c \<noteq> CHR '',''" if "c \<in> set (IP_String ip)" for c using IP_String_chars [OF that] by (simp add: ip_char_def)
  have "trimmed (IP_String ip)" using IP_String_ne g by (intro trimmed_ends) auto
  then show ?thesis using IP_String_ne g by (auto simp: plain_entry_def)
qed

lemma LocalSourceIPs_plain: "p \<in> set (LocalSourceIPs ifs) \<Longrightarrow> plain_entry p"
proof -
  have dd: "set (dedupStrings xs) = set xs" for xs by (simp add: dedupStrings_def dedup_from_set)
  assume "p \<in> set (LocalSourceIPs ifs)"
  then show ?thesis by (auto simp: LocalSourceIPs_def dd IP_String_plain split: option.splits if_splits)
qed

text \<open>The phone selects as the desktop does: for destinations without commas and outer spaces, joined by commas, and
  the phone's own source list, the result is the addresses that the daemon's selection yields on the lists
  themselves, one to a line, best first.\<close>

theorem mobile_selection_agrees:
  assumes "\<And>p. p \<in> set dsts \<Longrightarrow> p \<noteq> [] \<and> CHR '','' \<notin> set p \<and> TrimSpace p = p"
  shows "SelectBestAddress (Join (CHR '','') dsts) (LocalSourceIPsCSV ifs) port =
    Join LF (map ap_Destination (SelectAddresses dsts (LocalSourceIPs ifs) port))"
proof -
  have "splitCSV (Join (CHR '','') dsts) = dsts"
    using assms by (intro splitCSV_Join) (simp add: plain_entry_def TrimSpace_trimmed)
  moreover have "splitCSV (LocalSourceIPsCSV ifs) = LocalSourceIPs ifs"
    unfolding LocalSourceIPsCSV_def by (intro splitCSV_Join LocalSourceIPs_plain)
  ultimately show ?thesis by (simp add: SelectBestAddress_def)
qed

text \<open>The time limit of a send lies between a minute and an hour and grows with the file, if rounding is monotone
  and keeps these two values; a file that cannot be read gets a minute.\<close>

theorem send_timeout_bounds:
  assumes "\<And>x y. x \<le> y \<Longrightarrow> rnd x \<le> rnd y" "rnd 60000000000 = 60000000000" "rnd 3600000000000 = 3600000000000"
  shows "60000000000 \<le> sendTimeout rnd sz \<and> sendTimeout rnd sz \<le> 3600000000000 \<and>
    (m \<le> n \<longrightarrow> sendTimeout rnd (Some m) \<le> sendTimeout rnd (Some n)) \<and> sendTimeout rnd None = 60000000000"
proof -
  define cl :: "int \<Rightarrow> rat" where "cl n = min 60 (max 1 (1 + of_int n / 1073741824 * 2))" for n
  have st: "sendTimeout rnd (Some n) = \<lfloor>rnd (cl n * 60000000000)\<rfloor>" for n
    by (simp add: sendTimeout_def Let_def cl_def min_def max_def not_less)
  have b: "1 \<le> cl n" "cl n \<le> 60" for n by (auto simp: cl_def)
  have "60000000000 \<le> sendTimeout rnd (Some n) \<and> sendTimeout rnd (Some n) \<le> 3600000000000" for n
  proof -
    have "rnd 60000000000 \<le> rnd (cl n * 60000000000)" "rnd (cl n * 60000000000) \<le> rnd 3600000000000"
      using b [of n] by (intro assms(1); simp)+
    then show ?thesis using assms(2,3) by (simp add: st le_floor_iff floor_le_iff)
  qed
  moreover have "m \<le> n \<Longrightarrow> sendTimeout rnd (Some m) \<le> sendTimeout rnd (Some n)"
  proof -
    assume "m \<le> n"
    then have "cl m \<le> cl n" by (auto simp: cl_def intro!: min.mono max.mono)
    then show ?thesis unfolding st by (intro floor_mono assms(1)) simp
  qed
  ultimately show ?thesis by (cases sz) (simp_all add: sendTimeout_def [of _ None])
qed

lemma mobile_selection_agrees_witness:
  "SelectBestAddress (Join (CHR '','') [''10.0.0.1'']) (LocalSourceIPsCSV None) 7 =
    Join LF (map ap_Destination (SelectAddresses [''10.0.0.1''] (LocalSourceIPs None) 7))"
proof (rule mobile_selection_agrees)
  fix p
  assume "p \<in> set [''10.0.0.1'']"
  then have p: "p = ''10.0.0.1''" by simp
  have "trimmed ''10.0.0.1''" by (rule trimmed_ends) (simp_all add: graphic_def)
  then show "p \<noteq> [] \<and> CHR '','' \<notin> set p \<and> TrimSpace p = p" unfolding p TrimSpace_trimmed by simp
qed

lemma send_timeout_bounds_witness: "60000000000 \<le> sendTimeout (\<lambda>x. x) (Some 7) \<and> sendTimeout (\<lambda>x. x) (Some 7) \<le> 3600000000000"
  using send_timeout_bounds [of "\<lambda>x. x" "Some 7"] by simp

end
