(* ===== verification/Startup.thy ===== *)
theory Startup
  imports Api TrustStore
begin

text \<open>
  The daemon's start (\<open>core/cmd/gcd/main.go\<close>) over the components it wires together: instance lock,
  configuration, identity, token, ports, discovery, share server, inbound server, API server, and the
  handshake line on standard output (\<open>core/lifecycle/lifecycle.go\<close>). What the operating system and the
  libraries answer is the record \<open>OS\<close>; deferred calls are kept in the order in which they will run.
\<close>

section \<open>The handshake\<close>

record HandshakeMessage =
  hm_Port :: int
  hm_APIToken :: string
  hm_Version :: string
  hm_AlreadyRunning :: bool

definition version :: string where "version = ''0.1.0''"

text \<open>Whether standard output takes the line is the argument \<open>ok\<close>; the result is whether no error is returned.\<close>

definition EmitHandshake :: "bool \<Rightarrow> int \<Rightarrow> string \<Rightarrow> string \<Rightarrow> bool \<times> HandshakeMessage list" where
  "EmitHandshake ok port token ver =
    (if ok then (True, [\<lparr>hm_Port = port, hm_APIToken = token, hm_Version = ver, hm_AlreadyRunning = False\<rparr>])
     else (False, []))"

definition EmitHandshakeAlreadyRunning :: "bool \<Rightarrow> string \<Rightarrow> HandshakeMessage list" where
  "EmitHandshakeAlreadyRunning ok ver =
    (if ok then [\<lparr>hm_Port = 0, hm_APIToken = [], hm_Version = ver, hm_AlreadyRunning = True\<rparr>] else [])"

section \<open>Announcing the service\<close>

text \<open>What zeroconf is given: the service's port, its TXT lines, and its addresses (none: by host name).\<close>

record Announcement =
  an_Port :: int
  an_Text :: "string list"
  an_IPs :: "string list"

text \<open>\<open>reg\<close>, \<open>res\<close> and \<open>browse\<close>: whether registering, making the resolver and browsing succeed. A later failure
  shuts the registered server down again.\<close>

definition Discovery_Start ::
  "string \<Rightarrow> Iface list option \<Rightarrow> bool \<Rightarrow> bool \<Rightarrow> bool \<Rightarrow> Settings \<Rightarrow> Identity \<Rightarrow> Announcement option" where
  "Discovery_Start goos ifs reg res browse cfg ident =
    (case BuildTXT goos (Some (st_Port cfg, st_DeviceName cfg)) (Some (id_PubHash ident)) (detectIPVersion ifs) of
       Inl e \<Rightarrow> None
     | Inr ls \<Rightarrow>
       if \<not> reg then None
       else if \<not> res then None
       else if \<not> browse then None
       else Some \<lparr>an_Port = st_Port cfg, an_Text = ls, an_IPs = localIPv4Strings ifs @ localIPv6Strings ifs\<rparr>)"

section \<open>The system's answers\<close>

datatype LockError = ErrAlreadyRunning | ErrLock

record OS =
  os_lock :: "LockError option"
  os_config :: "ConfigError + Config"
  os_identity :: "IdentityError + Identity"
  os_datadir :: bool
  os_db :: "DB option"
  os_rand :: "bytes option"
  os_loopback :: "int \<Rightarrow> bool"
  os_marshal :: "Settings \<Rightarrow> bytes option"
  os_save :: "ConfigError option"
  os_goos :: string
  os_ifs :: "Iface list option"
  os_host :: "string option"
  os_now :: int
  os_zeroconf :: "bool \<times> bool \<times> bool"
  os_wild :: "int list \<Rightarrow> int \<Rightarrow> bool"
  os_anyport :: "int list \<Rightarrow> int option"
  os_keys :: bool
  os_accepts :: "RouterCall list \<Rightarrow> bool"
  os_stdout :: bool

text \<open>\<open>os_wild used p\<close>: whether listening on port \<open>p\<close> of all addresses succeeds when this process has the ports
  \<open>used\<close>; \<open>os_anyport used\<close> is the port that the system picks for port 0.\<close>

section \<open>The run\<close>

datatype Resource = RSignals | RLock | RDatabase | RListener int | RDiscovery | RShareServer int | RShareManager
  | RInbound int

datatype Exit = Failed string | Panicked | Served Server

text \<open>The deferred calls (the next to run first), everything acquired in order, the lines written to standard
  output, the announcement, the saved configuration and the ports.\<close>

record Run =
  rn_defers :: "Resource list"
  rn_acquired :: "Resource list"
  rn_out :: "HandshakeMessage list"
  rn_announced :: "Announcement option"
  rn_api :: "int option"
  rn_share :: "int option"
  rn_inbound :: "int option"

definition acquire :: "Resource \<Rightarrow> Run \<Rightarrow> Run" where
  "acquire r s = s\<lparr>rn_acquired := rn_acquired s @ [r]\<rparr>"

definition defer_close :: "Resource \<Rightarrow> Run \<Rightarrow> Run" where
  "defer_close r s = s\<lparr>rn_defers := r # rn_defers s\<rparr>"

definition acquire_defer :: "Resource \<Rightarrow> Run \<Rightarrow> Run" where
  "acquire_defer r s = defer_close r (acquire r s)"

text \<open>A preferred port, or any port when it is busy.\<close>

definition listen_or_any :: "OS \<Rightarrow> int list \<Rightarrow> int \<Rightarrow> int option" where
  "listen_or_any os used p = (if os_wild os used p then Some p else os_anyport os used)"

text \<open>Steps 7 to 10: the API server, the handshake, serving. \<open>NewServer\<close> panics when chi refuses its calls.\<close>

definition serve_stage :: "OS \<Rightarrow> Config \<Rightarrow> Identity \<Rightarrow> DB \<Rightarrow> string \<Rightarrow> int \<Rightarrow> int \<Rightarrow> Disc \<Rightarrow> SManager \<Rightarrow> Manager \<Rightarrow> RManager \<Rightarrow> Run \<Rightarrow> Exit \<times> Run" where
  "serve_stage os cfg ident db token port sharePort disc shareMgr transferMgr receiveMgr s =
    (if \<not> os_accepts os NewServer_calls then (Panicked, s)
     else
       let srv = \<lparr>sv_Version = version, sv_Token = token, sv_Config = Some cfg, sv_DB = Some db, sv_Discovery = Some disc,
             
             sv_self = Self (os_goos os) (os_host os) (os_ifs os) (os_now os)
               (Some (st_Port (cf_set cfg), st_DeviceName (cf_set cfg))) (Some (id_PubHash ident)),
             sv_ShareManager = Some shareMgr, sv_SharePort = sharePort, sv_TransferMgr = Some transferMgr,
             sv_ReceiveMgr = Some receiveMgr\<rparr>;
           (ok, ls) = EmitHandshake (os_stdout os) port token version;
           s1 = s\<lparr>rn_out := rn_out s @ ls\<rparr>
       in if ok then (Served srv, s1) else (Failed ''emit handshake'', s1))"

text \<open>The share server on its listener: its close is deferred, then the stop of the manager, which was made first.\<close>

definition share_server :: "int \<Rightarrow> Run \<Rightarrow> Run" where
  "share_server sp s = defer_close RShareManager (defer_close (RShareServer sp) (acquire (RShareServer sp) (s\<lparr>rn_share := Some sp\<rparr>)))"

text \<open>Steps 6c to 6f: share server, keys, managers, inbound listener.\<close>

definition transfer_stage :: "OS \<Rightarrow> Config \<Rightarrow> Identity \<Rightarrow> DB \<Rightarrow> string \<Rightarrow> int \<Rightarrow> Run \<Rightarrow> Exit \<times> Run" where
  "transfer_stage os cfg ident db token port s =
    (let s1 = acquire RShareManager s in
     case listen_or_any os [port] (port + 1) of
       None \<Rightarrow> (Failed ''bind share listener'', s1)
     | Some sharePort \<Rightarrow>
       let s2 = share_server sharePort s1
       in if \<not> os_keys os then (Failed ''derive static keys'', s2)
          else (case listen_or_any os [port, sharePort] (port + 2) of
            None \<Rightarrow> (Failed ''inbound p2p'', s2)
          | Some inbound \<Rightarrow>
            serve_stage os cfg ident db token port sharePort (NewDisc (id_PubHash ident)) (NewSManager MaxShares)
              (NewManager DefaultMaxConcurrent) (NewRManager RDefaultMaxConcurrent)
              (acquire_defer (RInbound inbound) (s2\<lparr>rn_inbound := Some inbound\<rparr>))))"

text \<open>Step 6: the port is stored and saved (an error is only a warning; nobody else has the configuration yet, so
  \<open>Save\<close> gets its lock), then discovery starts.\<close>

definition discovery_stage :: "OS \<Rightarrow> Config \<Rightarrow> Identity \<Rightarrow> DB \<Rightarrow> string \<Rightarrow> int \<Rightarrow> Run \<Rightarrow> Exit \<times> Run" where
  "discovery_stage os cfg ident db token port s =
    (let cfg' = (if st_Port (cf_set cfg) \<noteq> port
           then snd (Config_Save (os_marshal os) (os_save os) (cfg\<lparr>cf_set := (cf_set cfg)\<lparr>st_Port := port\<rparr>\<rparr>))
           else cfg);
         (reg, res, browse) = os_zeroconf os
     in case Discovery_Start (os_goos os) (os_ifs os) reg res browse (cf_set cfg') ident of
          None \<Rightarrow> (Failed ''start discovery'', s)
        | Some ann \<Rightarrow> transfer_stage os cfg' ident db token port
            (acquire_defer RDiscovery (s\<lparr>rn_announced := Some ann\<rparr>)))"

definition no_run :: Run where
  "no_run = \<lparr>rn_defers = [], rn_acquired = [], rn_out = [], rn_announced = None, rn_api = None, rn_share = None,
     rn_inbound = None\<rparr>"

definition run :: "OS \<Rightarrow> Exit \<times> Run" where
  "run os =
    (let s0 = acquire_defer RSignals no_run
     in case os_lock os of
       Some e \<Rightarrow> (Failed ''acquire instance lock'',
           if e = ErrAlreadyRunning then s0\<lparr>rn_out := EmitHandshakeAlreadyRunning (os_stdout os) version\<rparr> else s0)
     | None \<Rightarrow> let s1 = acquire_defer RLock s0 in
       (case os_config os of Inl e \<Rightarrow> (Failed ''load config'', s1)
     | Inr cfg \<Rightarrow> (case os_identity os of Inl e \<Rightarrow> (Failed ''load identity'', s1)
     | Inr ident \<Rightarrow>
       if \<not> os_datadir os then (Failed ''resolve data dir'', s1)
       else (case os_db os of None \<Rightarrow> (Failed ''open store'', s1)
     | Some db \<Rightarrow> let s2 = acquire_defer RDatabase s1 in
       (case NewToken (os_rand os) of None \<Rightarrow> (Failed ''generate token'', s2)
     | Some token \<Rightarrow> (case BindLocal (os_loopback os) (st_Port (cf_set cfg)) of Inl e \<Rightarrow> (Failed ''bind local'', s2)
     | Inr port \<Rightarrow> discovery_stage os cfg ident db token port
         (acquire_defer (RListener port) (s2\<lparr>rn_api := Some port\<rparr>))))))))"

section \<open>Properties\<close>

lemmas stage_simps = acquire_defer_def acquire_def defer_close_def Let_def

lemma BindLocal_Inr:
  assumes "BindLocal listen q = Inr p"
  shows "52100 \<le> p \<and> p \<le> 52999 \<and> listen p \<and> (q \<noteq> 0 \<longrightarrow> p = q)"
proof (cases "q = 0")
  case True
  with assms have "List.find listen [52100..52999] = Some p"
    unfolding BindLocal_def by (simp add: PortRangeMin_def PortRangeMax_def del: upto_rec_numeral split: option.splits)
  from upto_find [OF this] True show ?thesis by simp
qed (use assms in \<open>auto simp: BindLocal_def PortRangeMin_def PortRangeMax_def split: if_splits\<close>)

text \<open>What every outcome has in common, by the stage it was reached in.\<close>

definition closes :: "Run \<Rightarrow> Resource list" where
  "closes s = [RInbound (the (rn_inbound s)), RShareManager, RShareServer (the (rn_share s)), RDiscovery,
     RListener (the (rn_api s)), RDatabase, RLock, RSignals]"

definition balanced :: "Exit \<Rightarrow> Run \<Rightarrow> bool" where
  "balanced e s \<longleftrightarrow> (\<exists>n. rn_defers s = drop n (closes s)) \<and>
     set (rn_acquired s) = set (rn_defers s) \<union> (if e = Failed ''bind share listener'' then {RShareManager} else {})"

text \<open>One rule for each stage: what holds of every way out of it holds of its result.\<close>

lemma serve_cases:
  assumes "P (Panicked, s)" "P (Failed ''emit handshake'', s)"
    "\<And>srv. sv_Token srv = t \<Longrightarrow> sv_SharePort srv = sp \<Longrightarrow> os_accepts os NewServer_calls \<Longrightarrow>
      P (Served srv, s\<lparr>rn_out := rn_out s @ [\<lparr>hm_Port = p, hm_APIToken = t, hm_Version = version, hm_AlreadyRunning = False\<rparr>]\<rparr>)"
  shows "P (serve_stage os cfg ident db t p sp d sm tm rm s)"
  using assms by (simp add: serve_stage_def EmitHandshake_def Let_def)

lemma transfer_cases:
  assumes "P (Failed ''bind share listener'', acquire RShareManager s)"
    "\<And>m sp. m \<noteq> ''bind share listener'' \<Longrightarrow> listen_or_any os [p] (p + 1) = Some sp \<Longrightarrow>
      P (Failed m, share_server sp (acquire RShareManager s))"
    "\<And>sp i d sm tm rm. listen_or_any os [p] (p + 1) = Some sp \<Longrightarrow> listen_or_any os [p, sp] (p + 2) = Some i \<Longrightarrow>
      P (serve_stage os cfg ident db t p sp d sm tm rm
        (acquire_defer (RInbound i) ((share_server sp (acquire RShareManager s))\<lparr>rn_inbound := Some i\<rparr>)))"
  shows "P (transfer_stage os cfg ident db t p s)"
  using assms by (simp add: transfer_stage_def Let_def split: option.split)

lemma discovery_cases:
  assumes "P (Failed ''start discovery'', s)"
    "\<And>ann cfg' reg res browse. Discovery_Start (os_goos os) (os_ifs os) reg res browse (cf_set cfg') ident = Some ann \<Longrightarrow>
      (st_Port (cf_set cfg) = p \<longrightarrow> cfg' = cfg) \<Longrightarrow>
      (st_Port (cf_set cfg) \<noteq> p \<longrightarrow> cf_set cfg' = (cf_set cfg)\<lparr>st_Port := p\<rparr>) \<Longrightarrow>
      P (transfer_stage os cfg' ident db t p (acquire_defer RDiscovery (s\<lparr>rn_announced := Some ann\<rparr>)))"
  shows "P (discovery_stage os cfg ident db t p s)"
  using assms
  by (auto simp: discovery_stage_def Let_def Config_Save_def split: option.split prod.split)

lemma run_cases:
  assumes "\<And>m out. m \<noteq> ''bind share listener'' \<Longrightarrow> list_all hm_AlreadyRunning out \<Longrightarrow>
      P (Failed m, (acquire_defer RSignals no_run)\<lparr>rn_out := out\<rparr>)"
    "\<And>m. m \<noteq> ''bind share listener'' \<Longrightarrow> P (Failed m, acquire_defer RLock (acquire_defer RSignals no_run))"
    "\<And>m. m \<noteq> ''bind share listener'' \<Longrightarrow> P (Failed m, acquire_defer RDatabase (acquire_defer RLock (acquire_defer RSignals no_run)))"
    "\<And>cfg ident db t p. os_config os = Inr cfg \<Longrightarrow> NewToken (os_rand os) = Some t \<Longrightarrow>
      BindLocal (os_loopback os) (st_Port (cf_set cfg)) = Inr p \<Longrightarrow>
      P (discovery_stage os cfg ident db t p (acquire_defer (RListener p)
        ((acquire_defer RDatabase (acquire_defer RLock (acquire_defer RSignals no_run)))\<lparr>rn_api := Some p\<rparr>)))"
  shows "P (run os)"
proof -
  have "P (Failed ''acquire instance lock'', acquire_defer RSignals no_run)"
    using assms(1) [of "''acquire instance lock''" "[]"] by (simp add: no_run_def stage_simps)
  then show ?thesis
    using assms by (simp add: run_def Let_def EmitHandshakeAlreadyRunning_def split: option.split sum.split)
qed

text \<open>The stages together, with the runs that each way out leaves behind.\<close>

definition opened :: "int \<Rightarrow> Run" where
  "opened p = acquire_defer (RListener p) ((acquire_defer RDatabase (acquire_defer RLock (acquire_defer RSignals no_run)))
     \<lparr>rn_api := Some p\<rparr>)"

definition announcing :: "int \<Rightarrow> Announcement \<Rightarrow> Run" where
  "announcing p ann = acquire_defer RDiscovery ((opened p)\<lparr>rn_announced := Some ann\<rparr>)"

definition sharing :: "int \<Rightarrow> Announcement \<Rightarrow> int \<Rightarrow> Run" where
  "sharing p ann sp = share_server sp (acquire RShareManager (announcing p ann))"

definition listening :: "int \<Rightarrow> Announcement \<Rightarrow> int \<Rightarrow> int \<Rightarrow> Run" where
  "listening p ann sp i = acquire_defer (RInbound i) ((sharing p ann sp)\<lparr>rn_inbound := Some i\<rparr>)"

definition started :: "OS \<Rightarrow> int \<Rightarrow> Announcement \<Rightarrow> bool" where
  "started os p ann \<longleftrightarrow> 52100 \<le> p \<and> p \<le> 52999 \<and> os_loopback os p \<and>
     an_Port ann = p \<and>
     (\<exists>name hash. BuildTXT (os_goos os) (Some (p, name)) (Some hash) (detectIPVersion (os_ifs os)) = Inr (an_Text ann))"

lemma Discovery_Start_Some:
  "Discovery_Start goos ifs reg res browse c ident = Some ann \<Longrightarrow>
    BuildTXT goos (Some (st_Port c, st_DeviceName c)) (Some (id_PubHash ident)) (detectIPVersion ifs) = Inr (an_Text ann) \<and>
    an_Port ann = st_Port c"
  by (auto simp: Discovery_Start_def split: sum.splits if_splits)

lemma started_of:
  assumes "BindLocal (os_loopback os) (st_Port (cf_set cfg)) = Inr p"
    "Discovery_Start (os_goos os) (os_ifs os) reg res browse (cf_set cfg') ident = Some ann"
    "st_Port (cf_set cfg) = p \<longrightarrow> cfg' = cfg" "st_Port (cf_set cfg) \<noteq> p \<longrightarrow> cf_set cfg' = (cf_set cfg)\<lparr>st_Port := p\<rparr>"
  shows "started os p ann"
proof -
  have "st_Port (cf_set cfg') = p" using assms(3,4) by (cases "st_Port (cf_set cfg) = p") auto
  then show ?thesis
    using BindLocal_Inr [OF assms(1)] Discovery_Start_Some [OF assms(2)]
    by (auto simp: started_def)
qed

lemma run_ways:
  assumes "\<And>m out. m \<noteq> ''bind share listener'' \<Longrightarrow> list_all hm_AlreadyRunning out \<Longrightarrow>
      P (Failed m, (acquire_defer RSignals no_run)\<lparr>rn_out := out\<rparr>)"
    "\<And>m. m \<noteq> ''bind share listener'' \<Longrightarrow> P (Failed m, acquire_defer RLock (acquire_defer RSignals no_run))"
    "\<And>m. m \<noteq> ''bind share listener'' \<Longrightarrow> P (Failed m, acquire_defer RDatabase (acquire_defer RLock (acquire_defer RSignals no_run)))"
    "\<And>m p. m \<noteq> ''bind share listener'' \<Longrightarrow> P (Failed m, opened p)"
    "\<And>p ann. started os p ann \<Longrightarrow> P (Failed ''bind share listener'', acquire RShareManager (announcing p ann))"
    "\<And>m p ann sp. m \<noteq> ''bind share listener'' \<Longrightarrow> started os p ann \<Longrightarrow> listen_or_any os [p] (p + 1) = Some sp \<Longrightarrow>
      P (Failed m, sharing p ann sp)"
    "\<And>e p ann sp i. e = Panicked \<or> e = Failed ''emit handshake'' \<Longrightarrow> started os p ann \<Longrightarrow>
      listen_or_any os [p] (p + 1) = Some sp \<Longrightarrow> listen_or_any os [p, sp] (p + 2) = Some i \<Longrightarrow> P (e, listening p ann sp i)"
    "\<And>srv t p ann sp i. os_accepts os NewServer_calls \<Longrightarrow> NewToken (os_rand os) = Some t \<Longrightarrow> sv_Token srv = t \<Longrightarrow>
      sv_SharePort srv = sp \<Longrightarrow> started os p ann \<Longrightarrow>
      listen_or_any os [p] (p + 1) = Some sp \<Longrightarrow> listen_or_any os [p, sp] (p + 2) = Some i \<Longrightarrow>
      P (Served srv, (listening p ann sp i)
        \<lparr>rn_out := [\<lparr>hm_Port = p, hm_APIToken = t, hm_Version = version, hm_AlreadyRunning = False\<rparr>]\<rparr>)"
  shows "P (run os)"
proof (rule run_cases [where P = P])
  fix cfg ident db t p
  assume cfg: "os_config os = Inr cfg" and t: "NewToken (os_rand os) = Some t"
    and p: "BindLocal (os_loopback os) (st_Port (cf_set cfg)) = Inr p"
  have "P (discovery_stage os cfg ident db t p (opened p))"
  proof (rule discovery_cases [where P = P])
    show "P (Failed ''start discovery'', opened p)" by (rule assms(4)) simp
  next
    fix ann cfg' reg res browse
    assume "Discovery_Start (os_goos os) (os_ifs os) reg res browse (cf_set cfg') ident = Some ann"
      "st_Port (cf_set cfg) = p \<longrightarrow> cfg' = cfg" "st_Port (cf_set cfg) \<noteq> p \<longrightarrow> cf_set cfg' = (cf_set cfg)\<lparr>st_Port := p\<rparr>"
    with p have st: "started os p ann" by (rule started_of)
    have "P (transfer_stage os cfg' ident db t p (announcing p ann))"
    proof (rule transfer_cases [where P = P])
      fix sp i d sm tm rm
      assume sp: "listen_or_any os [p] (p + 1) = Some sp" "listen_or_any os [p, sp] (p + 2) = Some i"
      have "rn_out (listening p ann sp i) = []"
        by (simp add: listening_def sharing_def announcing_def opened_def no_run_def share_server_def stage_simps)
      then show "P (serve_stage os cfg' ident db t p sp d sm tm rm (acquire_defer (RInbound i)
          ((share_server sp (acquire RShareManager (announcing p ann)))\<lparr>rn_inbound := Some i\<rparr>)))"
        using assms(7) [OF _ st sp] assms(8) [OF _ t _ _ st sp]
        by (intro serve_cases [where P = P]) (simp_all add: listening_def sharing_def)
    qed (use assms(5,6) st in \<open>simp_all add: sharing_def\<close>)
    then show "P (transfer_stage os cfg' ident db t p (acquire_defer RDiscovery ((opened p)\<lparr>rn_announced := Some ann\<rparr>)))"
      by (simp add: announcing_def)
  qed
  then show "P (discovery_stage os cfg ident db t p (acquire_defer (RListener p)
      ((acquire_defer RDatabase (acquire_defer RLock (acquire_defer RSignals no_run)))\<lparr>rn_api := Some p\<rparr>)))"
    by (simp add: opened_def)
qed (use assms(1-3) in simp_all)

lemmas run_simps = listening_def sharing_def announcing_def opened_def no_run_def share_server_def stage_simps

text \<open>Every early return closes what has been opened: the deferred calls that run are the last ones of the
  fixed shutdown order, from the inbound listener down to the signal handler, and they cover everything that
  was acquired, whether the start fails, panics or serves; only when no port is left for the share server
  the share manager's goroutine stays.\<close>

theorem start_releases_everything:
  "(\<exists>n. rn_defers (snd (run os)) = drop n (closes (snd (run os)))) \<and>
   set (rn_acquired (snd (run os))) = set (rn_defers (snd (run os))) \<union>
     (if fst (run os) = Failed ''bind share listener'' then {RShareManager} else {})"
proof -
  have "(\<lambda>r. balanced (fst r) (snd r)) (run os)"
  proof (rule run_ways)
    fix m out assume "m \<noteq> ''bind share listener''"
    then show "balanced (fst (Failed m, (acquire_defer RSignals no_run)\<lparr>rn_out := out\<rparr>))
        (snd (Failed m, (acquire_defer RSignals no_run)\<lparr>rn_out := out\<rparr>))"
      by (auto simp: balanced_def closes_def run_simps intro!: exI [of _ 7])
  qed (auto simp: balanced_def closes_def run_simps intro: exI [of _ 6] exI [of _ 5] exI [of _ 4] exI [of _ 3] exI [of _ 1] exI [of _ 0])
  then show ?thesis by (simp add: balanced_def case_prod_beta)
qed


lemma Build_Parse_port:
  assumes "BuildTXT goos (Some (p, name)) (Some hash) v = Inr ls" "ParseTXT ls = Inr rec"
  shows "tx_Port rec = p"
proof -
  from assms(1) have p: "0 < p" "p \<le> 65535" and ls: "ls = [''txt-ver='' @ txtVersion,
      ''proto='' @ ProtoVersion, ''platform='' @ goos, ''port='' @ Itoa p, ''pk-hash='' @ hash,
      ''device-name='' @ QueryEscape name, ''ip-ver='' @ v]"
    by (auto simp: BuildTXT_def split: if_splits)
  have "Atoi (Itoa p) = Some p" using p by (intro Atoi_Itoa) (simp add: in64_def)
  then show ?thesis
    using assms(2) p unfolding ls
    by (auto simp: ParseTXT_def set_field_def required_fields_def txtVersion_def ProtoVersion_def Let_def split: if_splits)
qed

lemma listen_fresh:
  assumes "\<And>used q. os_anyport os used = Some q \<Longrightarrow> q \<notin> set used" "listen_or_any os used q = Some r" "q \<notin> set used"
  shows "r \<notin> set used"
  using assms(1) [of used r] assms(2,3) by (auto simp: listen_or_any_def split: if_splits)

lemma announcement_ports:
  assumes "\<And>used q. os_anyport os used = Some q \<Longrightarrow> q \<notin> set used"
    "rn_announced (snd (run os)) = Some ann"
  shows "rn_api (snd (run os)) = Some (an_Port ann) \<and> os_loopback os (an_Port ann) \<and>
    52100 \<le> an_Port ann \<and> an_Port ann \<le> 52999 \<and>
    (\<forall>rec. ParseTXT (an_Text ann) = Inr rec \<longrightarrow> tx_Port rec = an_Port ann) \<and>
    rn_inbound (snd (run os)) \<noteq> Some (an_Port ann) \<and> rn_share (snd (run os)) \<noteq> Some (an_Port ann)"
proof -
  let ?P = "\<lambda>r. rn_announced (snd r) = Some ann \<longrightarrow> rn_api (snd r) = Some (an_Port ann) \<and> started os (an_Port ann) ann \<and>
    rn_inbound (snd r) \<noteq> Some (an_Port ann) \<and> rn_share (snd r) \<noteq> Some (an_Port ann)"
  have st: "an_Port a = p" if "started os p a" for p a using that by (auto simp: started_def)
  have sp: "sp \<noteq> p" if "listen_or_any os [p] (p + 1) = Some sp" for sp p
    using listen_fresh [OF assms(1) that] by simp
  have i: "i \<noteq> p" if "listen_or_any os [p, sp] (p + 2) = Some i" for i sp p
    using that assms(1) [of "[p, sp]" i] by (auto simp: listen_or_any_def split: if_splits)
  have "?P (run os)"
    by (rule run_ways [where P = ?P]) (auto simp: run_simps dest: st sp i)
  with assms(2) have r: "rn_api (snd (run os)) = Some (an_Port ann)" "started os (an_Port ann) ann"
    "rn_inbound (snd (run os)) \<noteq> Some (an_Port ann)" "rn_share (snd (run os)) \<noteq> Some (an_Port ann)"
    by blast+
  obtain name hash where "BuildTXT (os_goos os) (Some (an_Port ann, name)) (Some hash) (detectIPVersion (os_ifs os)) = Inr (an_Text ann)"
    using r(2) by (auto simp: started_def)
  then have "tx_Port rec = an_Port ann" if "ParseTXT (an_Text ann) = Inr rec" for rec
    using that by (rule Build_Parse_port)
  with r show ?thesis by (auto simp: started_def)
qed

text \<open>C4: The announced port is the wrong one: whatever happens at the start, the port in the service record and in
  the TXT lines that other machines parse, and so the port they dial to send a file, is the API's, which is
  bound to 127.0.0.1 only; the inbound listener has another port, which is announced nowhere, if the system
  never hands out a port in use.\<close>

theorem announced_port_is_not_the_receiver:
  assumes "\<And>used q. os_anyport os used = Some q \<Longrightarrow> q \<notin> set used"
    "rn_announced (snd (run os)) = Some ann"
  shows "rn_api (snd (run os)) = Some (an_Port ann) \<and> os_loopback os (an_Port ann) \<and>
    52100 \<le> an_Port ann \<and> an_Port ann \<le> 52999 \<and>
    (\<forall>rec. ParseTXT (an_Text ann) = Inr rec \<longrightarrow> tx_Port rec = an_Port ann) \<and>
    rn_inbound (snd (run os)) \<noteq> Some (an_Port ann) \<and> rn_share (snd (run os)) \<noteq> Some (an_Port ann)"
  using assms by (rule announcement_ports)

text \<open>The handshake is the key to the server: a start that serves has written exactly one line, with the bound
  port and the token, 43 characters for 32 random bytes, that the server accepts from this machine; the
  share links carry the share server's port.\<close>

theorem handshake_opens_the_api:
  assumes "fst (run os) = Served srv" "\<And>b. os_rand os = Some b \<Longrightarrow> length b = 32"
    "rq_Authorization r = ''Bearer '' @ sv_Token srv" "rq_Origin r = []"
  shows "serve hostname handler r srv = handler r srv \<and> length (sv_Token srv) = 43 \<and>
    rn_share (snd (run os)) = Some (sv_SharePort srv) \<and>
    rn_out (snd (run os)) = [\<lparr>hm_Port = the (rn_api (snd (run os))), hm_APIToken = sv_Token srv, hm_Version = ''0.1.0'',
      hm_AlreadyRunning = False\<rparr>]"
proof -
  let ?P = "\<lambda>x. fst x = Served srv \<longrightarrow> NewToken (os_rand os) = Some (sv_Token srv) \<and>
    rn_share (snd x) = Some (sv_SharePort srv) \<and>
    rn_out (snd x) = [\<lparr>hm_Port = the (rn_api (snd x)), hm_APIToken = sv_Token srv, hm_Version = ''0.1.0'', hm_AlreadyRunning = False\<rparr>]"
  have P: "?P (run os)" by (rule run_ways [where P = ?P]) (auto simp: run_simps version_def)
  then obtain b where "os_rand os = Some b" "RawURLEncode b = sv_Token srv" using assms(1) by (auto simp: NewToken_def)
  with assms(2) [of b] length_RawURLEncode [of b] have "length (sv_Token srv) = 43" by simp
  moreover have "serve hostname handler r srv = handler r srv"
    using assms(3,4) by (auto simp: serve_def bearerAuth_def corsGuard_def HasPrefix_iff TrimPrefix_def)
  ultimately show ?thesis using P assms(1) by simp
qed

text \<open>C15: It never comes to that: as chi refuses a middleware after a route, no start serves, and the launcher is
  told at most that another instance runs.\<close>

theorem no_start_serves:
  assumes "\<And>cs xs p ys m zs. os_accepts os cs \<Longrightarrow> cs \<noteq> xs @ Route p # ys @ Use m # zs"
  shows "fst (run os) \<noteq> Served srv \<and> list_all hm_AlreadyRunning (rn_out (snd (run os)))"
proof -
  have no: "\<not> os_accepts os NewServer_calls"
    using assms by (rule late_use_lemma)
  let ?P = "\<lambda>x. fst x \<noteq> Served srv \<and> list_all hm_AlreadyRunning (rn_out (snd x))"
  show ?thesis by (rule run_ways [where P = ?P]) (use no in \<open>auto simp: run_simps\<close>)
qed

section \<open>A concrete start\<close>

definition demo_os :: "(RouterCall list \<Rightarrow> bool) \<Rightarrow> OS" where
  "demo_os acc = \<lparr>os_lock = None,
     os_config = Inr \<lparr>cf_set = Defaults\<lparr>st_DeviceName := ''den'', st_Port := 52100\<rparr>, cf_locked = False, cf_file = None\<rparr>,
     os_identity = Inr \<lparr>id_PrivED = [], id_PubED = [], id_PubHash = ''0123456789abcdef0123456789abcdef'',
       id_DeviceID = ''0123456789abcdef''\<rparr>,
     os_datadir = True, os_db = Some \<lparr>db_shares = [], db_transfers = []\<rparr>, os_rand = Some (replicate 32 7),
     os_loopback = (\<lambda>_. True), os_marshal = (\<lambda>_. None), os_save = None, os_goos = ''linux'', os_ifs = None,
     os_host = None, os_now = 0, os_zeroconf = (True, True, True), os_wild = (\<lambda>used p. p \<noteq> 52101 \<and> p \<notin> set used),
     os_anyport = (\<lambda>used. if 40000 \<in> set used then None else Some 40000), os_keys = True, os_accepts = acc, os_stdout = True\<rparr>"

definition demo_ann :: Announcement where
  "demo_ann = \<lparr>an_Port = 52100, an_Text = [''txt-ver=1'', ''proto=lanos/1.0'', ''platform=linux'', ''port='' @ Itoa 52100,
     ''pk-hash='' @ ''0123456789abcdef0123456789abcdef'', ''device-name='' @ QueryEscape ''den'', ''ip-ver='' @ detectIPVersion None],
     an_IPs = localIPv4Strings None @ localIPv6Strings None\<rparr>"

lemma demo_ip: "detectIPVersion None = ''4'' \<or> detectIPVersion None = ''6'' \<or> detectIPVersion None = ''46''"
  by (simp add: detectIPVersion_def Let_def)

lemma demo_announced:
  assumes "st_Port c = 52100" "st_DeviceName c = ''den''" "id_PubHash i = ''0123456789abcdef0123456789abcdef''"
  shows "Discovery_Start ''linux'' None True True True c i = Some demo_ann"
  using demo_ip assms
  by (auto simp: Discovery_Start_def BuildTXT_def demo_ann_def txtVersion_def ProtoVersion_def)

lemma demo_serve:
  "(let x = serve_stage (demo_os acc) cfg ident db t 52100 sp d sm tm rm s in
     rn_announced (snd x) = rn_announced s \<and> rn_api (snd x) = rn_api s \<and> rn_inbound (snd x) = rn_inbound s \<and>
     rn_share (snd x) = rn_share s \<and>
     (case fst x of Served srv \<Rightarrow> acc NewServer_calls \<and> sv_Token srv = t | Panicked \<Rightarrow> \<not> acc NewServer_calls | Failed m \<Rightarrow> False))"
  by (simp add: serve_stage_def EmitHandshake_def demo_os_def)

lemma demo_start:
  "\<exists>cfg ident db t sm d tm rm s. run (demo_os acc) = serve_stage (demo_os acc) cfg ident db t 52100 40000 d sm tm rm s \<and>
    rn_announced s = Some demo_ann \<and> rn_api s = Some 52100 \<and> rn_inbound s = Some 52102 \<and> rn_share s = Some 40000"
proof -
  let ?os = "demo_os acc" and ?cfg = "\<lparr>cf_set = Defaults\<lparr>st_DeviceName := ''den'', st_Port := 52100\<rparr>, cf_locked = False, cf_file = None\<rparr>"
  let ?ident = "\<lparr>id_PrivED = [], id_PubED = [], id_PubHash = ''0123456789abcdef0123456789abcdef'', id_DeviceID = ''0123456789abcdef''\<rparr>"
  let ?db = "\<lparr>db_shares = [], db_transfers = []\<rparr>" and ?t = "RawURLEncode (replicate 32 7)"
  have "run ?os = discovery_stage ?os ?cfg ?ident ?db ?t 52100 (opened 52100)"
    by (simp add: run_def demo_os_def NewToken_def BindLocal_def PortRangeMin_def PortRangeMax_def Defaults_def opened_def Let_def)
  also have "\<dots> = transfer_stage ?os ?cfg ?ident ?db ?t 52100 (announcing 52100 demo_ann)"
    by (simp add: discovery_stage_def demo_os_def demo_announced Defaults_def announcing_def Let_def)
  also have "\<dots> = serve_stage ?os ?cfg ?ident ?db ?t 52100 40000 (NewDisc (id_PubHash ?ident)) (NewSManager MaxShares)
      (NewManager DefaultMaxConcurrent) (NewRManager RDefaultMaxConcurrent) (listening 52100 demo_ann 40000 52102)"
    by (simp add: transfer_stage_def listen_or_any_def demo_os_def listening_def sharing_def Let_def)
  finally show ?thesis by (intro exI conjI) (assumption | simp add: run_simps)+
qed

lemma demo_result:
  "rn_announced (snd (run (demo_os acc))) = Some demo_ann \<and> rn_inbound (snd (run (demo_os acc))) = Some 52102 \<and>
   (if acc NewServer_calls then \<exists>srv. fst (run (demo_os acc)) = Served srv else fst (run (demo_os acc)) = Panicked)"
proof -
  obtain cfg ident db t sm d tm rm s where r: "run (demo_os acc) = serve_stage (demo_os acc) cfg ident db t 52100 40000 d sm tm rm s"
    and s: "rn_announced s = Some demo_ann" "rn_inbound s = Some 52102"
    using demo_start [of acc] by blast
  show ?thesis
    using demo_serve [of acc cfg ident db t 40000 d sm tm rm s] s
    by (cases "fst (run (demo_os acc))") (simp_all add: r Let_def)
qed

lemma announced_port_is_not_the_receiver_witness:
  "rn_announced (snd (run (demo_os no_late_use))) = Some demo_ann \<and> rn_inbound (snd (run (demo_os no_late_use))) = Some 52102 \<and>
   rn_inbound (snd (run (demo_os no_late_use))) \<noteq> Some (an_Port demo_ann)"
proof -
  have "rn_announced (snd (run (demo_os no_late_use))) = Some demo_ann" "rn_inbound (snd (run (demo_os no_late_use))) = Some 52102"
    using demo_result [of no_late_use] by simp_all
  moreover have "q \<notin> set used" if "os_anyport (demo_os no_late_use) used = Some q" for used q
    using that by (auto simp: demo_os_def split: if_splits)
  ultimately show ?thesis using announced_port_is_not_the_receiver [of "demo_os no_late_use" demo_ann] by blast
qed

lemma handshake_opens_the_api_witness:
  "\<exists>srv. fst (run (demo_os (\<lambda>_. True))) = Served srv \<and> length (sv_Token srv) = 43"
proof -
  obtain srv where srv: "fst (run (demo_os (\<lambda>_. True))) = Served srv"
    using demo_result [of "\<lambda>_. True"] by auto
  let ?r = "demo_request\<lparr>rq_Authorization := ''Bearer '' @ sv_Token srv, rq_Origin := []\<rparr>"
  have "length b = 32" if "os_rand (demo_os (\<lambda>_. True)) = Some b" for b
    using that by (auto simp: demo_os_def)
  from handshake_opens_the_api [OF srv this, of ?r] srv show ?thesis by auto
qed

lemma no_start_serves_witness:
  "fst (run (demo_os no_late_use)) = Panicked \<and> list_all hm_AlreadyRunning (rn_out (snd (run (demo_os no_late_use))))"
proof -
  have "\<not> no_late_use NewServer_calls" by (simp add: NewServer_calls_def)
  then have "fst (run (demo_os no_late_use)) = Panicked"
    using demo_result [of no_late_use] by simp
  moreover have "\<And>cs xs p ys m zs. os_accepts (demo_os no_late_use) cs \<Longrightarrow> cs \<noteq> xs @ Route p # ys @ Use m # zs"
    using no_late_use_spec by (simp add: demo_os_def)
  ultimately show ?thesis using no_start_serves [of "demo_os no_late_use"] by blast
qed

end
