(* ===== verification/Dialing.thy ===== *)
theory Dialing
  imports Startup Bind
begin

text \<open>
  From an announcement to the address that is dialled: the daemon of one machine registers its service
  (\<open>core/cmd/gcd/main.go\<close>, \<open>core/discovery/txt.go\<close>), another machine's discovery takes the announcement into its table
  (\<open>core/discovery/discovery.go\<close>), and its API starts a send to that peer (\<open>core/api/handlers.go\<close>,
  \<open>core/net/addrselect.go\<close>).
\<close>

section \<open>A printed address is a destination without a port\<close>

lemma SplitHostPort_colons:
  assumes "1 < count_list s colon" "\<not> HasPrefix s ''[''"
  shows "SplitHostPort s = None"
proof -
  have "colon \<in> set s" using assms(1) by (metis count_notin less_numeral_extra(3) not_less_zero)
  then obtain h p where s: "s = h @ colon # p" "colon \<notin> set p" by (metis split_list_last)
  then have "colon \<in> set h" using assms(1) by (cases "colon \<in> set h") simp_all
  with s assms(2) show ?thesis by (simp add: SplitHostPort_def last_colon_append)
qed

lemma SplitHostPort_no_colon: "colon \<notin> set s \<Longrightarrow> SplitHostPort s = None"
  by (simp add: SplitHostPort_def last_colon_def)

lemma v6_string_colons: "length ip = 16 \<Longrightarrow> 1 < count_list (v6_string ip) colon"
proof -
  assume len: "length ip = 16"
  then obtain a b c d e f r where "ip = a # b # c # d # e # f # r" by (auto simp: length_Suc_conv numeral_eq_Suc)
  then have "\<exists>x y z gs. groups16 ip = x # y # z # gs" by simp
  then have "1 < count_list (hex_groups (groups16 ip)) colon" by (auto simp: hex_groups_def)
  then show ?thesis by (auto simp: v6_string_def Let_def colon_def split: prod.split)
qed

lemma bare_address:
  assumes "length ip = 4 \<or> length ip = 16"
  shows "splitHostPort (IP_String ip) = Some (IP_String ip, [], 0)"
proof -
  let ?s = "IP_String ip"
  have str: "?s = (case To4 ip of None \<Rightarrow> v6_string ip | Some v4 \<Rightarrow> dotted v4)"
    using assms by (cases ip) (auto simp: IP_String_def)
  have g: "graphic c \<and> c \<noteq> CHR ''['' \<and> c \<noteq> CHR ''%''" if "c \<in> set ?s" for c
  proof (cases "To4 ip")
    case None
    with str that have "c \<in> set (v6_string ip)" by simp
    then show ?thesis using set_v6_string hex_not_special is_hex_graphic by (fastforce simp: colon_def graphic_def)
  next
    case (Some v4)
    with str that have "c \<in> set (dotted v4)" by simp
    then show ?thesis using set_dotted [of c v4] digit_not_special digit_graphic by (auto simp: graphic_def)
  qed
  have t: "TrimSpace ?s = ?s"
    using IP_String_ne g by (intro TrimSpace_trimmed [THEN iffD2] trimmed_ends) auto
  have p: "\<not> HasPrefix ?s ''[''" using g IP_String_ne [of ip] by (cases ?s) (auto simp: HasPrefix_iff)
  have "SplitHostPort ?s = None"
  proof (cases "To4 ip")
    case None
    then have "?s = v6_string ip" "length ip = 16" using assms str by (auto simp: To4_def)
    with p show ?thesis by (metis SplitHostPort_colons v6_string_colons)
  next
    case (Some v4)
    then have "colon \<notin> set ?s"
      using str set_dotted [of colon v4] by (auto simp: colon_def digit_val_def)
    then show ?thesis by (rule SplitHostPort_no_colon)
  qed
  moreover have "splitZone ?s = (?s, [])" using g splitZone_join [of ?s "[]"] by auto
  ultimately show ?thesis using t p IP_String_ne by (simp add: splitHostPort_def)
qed

section \<open>The device of an announcement\<close>

lemma handled_device:
  assumes "disc_ok fl d" "ParseTXT ls = Inr rec" "tx_PubHash rec \<noteq> dc_self d"
  shows "\<exists>dev. snapshot (tx_PubHash rec) (handleEntry now (Some (ls, v4, v6, host)) d) = Some dev \<and> dv_Port dev = tx_Port rec \<and>
    dv_IPv4 dev = ipsToStrings v4 \<and> dv_IPv6 dev = ipsToStrings v6"
proof (cases "map_of (dc_devices d) (tx_PubHash rec)")
  case None
  with assms(2,3) show ?thesis by (simp add: handleEntry_def Let_def snapshot_def map_of_gput)
next
  case (Some a)
  obtain dev ch where an: "announced rec (ipsToStrings v4) (ipsToStrings v6) host now (dc_heap d ! a) = (dev, ch)"
    by (metis prod.exhaust)
  have "a < length (dc_heap d)" using entry_of [OF assms(1) Some] by (simp add: entry_ok_def)
  moreover have "dv_Port dev = tx_Port rec \<and> dv_IPv4 dev = ipsToStrings v4 \<and> dv_IPv6 dev = ipsToStrings v6"
    using an by (auto simp: announced_def Let_def split: if_splits)
  ultimately show ?thesis using Some assms(2,3) an by (cases ch) (simp_all add: handleEntry_def Let_def snapshot_def)
qed

lemma found_device:
  assumes "disc_ok fl d" "sv_Discovery s = Some d" "findDeviceByID i s = Some dev"
  shows "snapshot i d = Some dev"
proof -
  have "dev \<in> set (Devices d)" "dv_ID dev = i"
    using assms(2,3) by (auto simp: findDeviceByID_def find_Some_iff)
  then obtain j a where ja: "(j, a) \<in> set (dc_devices d)" "dev = dc_heap d ! a" by (auto simp: Devices_def SortDevices_def)
  with assms(1) have "entry_ok (dc_self d) (dc_heap d) fl (j, a)" by (auto simp: disc_ok_def)
  with ja(2) \<open>dv_ID dev = i\<close> have "j = i" by (simp add: entry_ok_def Let_def)
  with ja assms(1) show ?thesis by (auto simp: snapshot_def disc_ok_def gwf_set_iff)
qed

lemma ipsToStrings_set: "raw \<in> set (ipsToStrings ips) \<longleftrightarrow> (\<exists>ip. Some ip \<in> set ips \<and> raw = IP_String ip)"
  by (force simp: ipsToStrings_def split: option.splits)

lemma peerAddressWith_pair: "peerAddressWith dev sources = Inr sel \<Longrightarrow>
  \<exists>pair \<in> set (SelectAddresses (dv_IPv4 dev @ dv_IPv6 dev) sources (dv_Port dev)). ps_DialAddr sel = ap_Destination pair"
  by (cases "SelectAddresses (dv_IPv4 dev @ dv_IPv6 dev) sources (dv_Port dev)")
    (auto simp: peerAddressWith_def Let_def split: if_splits)

section \<open>The address that is dialled\<close>

text \<open>C17: A send to a discovered peer cannot arrive: when a machine has announced itself, another one's discovery has taken
  the announcement (in any reachable table), and its API accepts a send to that peer, then the background send
  dials one of the announced addresses with exactly the announced port; and that is the port of the peer's API, bound to
  127.0.0.1 only, not that of its inbound listener.\<close>

theorem discovered_peer_dialled_at_its_api:
  assumes "\<And>used q. os_anyport os used = Some q \<Longrightarrow> q \<notin> set used" "rn_announced (snd (run os)) = Some ann"
    and "ParseTXT (an_Text ann) = Inr rec" "tx_PubHash rec \<noteq> dc_self (pr_disc p)"
    and "p = drun xs (newProber (NewDisc self))"
    and "\<And>ip. Some ip \<in> set (v4 @ v6) \<Longrightarrow> length ip = 4 \<or> length ip = 16"
    and "sv_Discovery s = Some (handleEntry now (Some (an_Text ann, v4, v6, host)) (pr_disc p))"
    and "handleCreateTransfer uid now' (Some (tx_PubHash rec, f)) info ifs rq s = (ATransfer 201 t, Some (cfg, addr), s')"
  shows "(\<exists>ip a. Some ip \<in> set (v4 @ v6) \<and> ParseIP (IP_String ip) = Some a \<and> addr = joinHostPort a [] (an_Port ann)) \<and>
    rn_api (snd (run os)) = Some (an_Port ann) \<and> os_loopback os (an_Port ann) \<and> rn_inbound (snd (run os)) \<noteq> Some (an_Port ann)"
proof -
  let ?d = "handleEntry now (Some (an_Text ann, v4, v6, host)) (pr_disc p)"
  note ports = announcement_ports [OF assms(1,2)]
  have ok: "disc_ok (\<lambda>i. failures i p) (pr_disc p)"
    using drun_ok [OF newProber_ok, of xs self] by (simp add: assms(5) prober_ok_def)
  obtain dev where dev: "snapshot (tx_PubHash rec) ?d = Some dev" "dv_Port dev = an_Port ann"
    "dv_IPv4 dev = ipsToStrings v4" "dv_IPv6 dev = ipsToStrings v6"
    using handled_device [OF ok assms(3,4)] ports assms(3) by metis
  from assms(8) obtain peer sel where peer: "findDeviceByID (tx_PubHash rec) s = Some peer"
    and sel: "peerAddressWith peer (LocalSourceIPs ifs) = Inr sel" "addr = ps_DialAddr sel"
    by (auto simp: handleCreateTransfer_def peerAddress_def split: option.splits if_splits prod.splits sum.splits)
  have "peer = dev" using found_device [OF handleEntry_ok [OF ok] assms(7) peer] dev(1) by simp
  with sel obtain pair where "pair \<in> set (SelectAddresses (dv_IPv4 dev @ dv_IPv6 dev) (LocalSourceIPs ifs) (dv_Port dev))"
    "addr = ap_Destination pair"
    using peerAddressWith_pair [of dev] by (auto simp del: set_append)
  then obtain raw x src where raw: "raw \<in> set (ipsToStrings v4 @ ipsToStrings v6)" "dest_of (an_Port ann) raw = Some x"
    "addr = ap_Destination (pair_of x src)"
    using selection_lemma [of "dv_IPv4 dev @ dv_IPv6 dev" "LocalSourceIPs ifs" "dv_Port dev", THEN conjunct1] dev(2-4) by metis
  then obtain ip where ip: "Some ip \<in> set (v4 @ v6)" "raw = IP_String ip" by (auto simp: ipsToStrings_set)
  with raw(2) bare_address [OF assms(6) [OF ip(1)]] obtain a where "ParseIP raw = Some a" "x = (a, [], an_Port ann)"
    by (auto simp: dest_of_def)
  with raw(3) ip have "addr = joinHostPort a [] (an_Port ann)" "ParseIP (IP_String ip) = Some a"
    by (simp_all add: pair_of_def)
  with ip(1) ports show ?thesis by blast
qed

section \<open>A concrete send\<close>

lemma demo_QueryEscape: "QueryEscape ''den'' = ''den''"
  by code_simp

lemma demo_ann_parse: "\<exists>rec. ParseTXT (an_Text demo_ann) = Inr rec \<and> tx_PubHash rec = demo_hash"
proof -
  have "Atoi (Itoa 52100) = Some 52100" by (rule Atoi_Itoa) (simp add: in64_def)
  moreover have "QueryUnescape ''den'' = Some ''den''" by code_simp
  moreover have "\<forall>c \<in> set demo_hash. lower_hex c" "length demo_hash = 32" by (simp_all add: demo_hash_def lower_hex_def less_eq_char_def)
  ultimately show ?thesis
    using demo_ip by (auto simp: demo_ann_def demo_QueryEscape ParseTXT_def set_field_def required_fields_def txtVersion_def HasPrefix_iff
      demo_hash_def [symmetric])
qed

lemma demo_v4_string: "ipsToStrings [Some [192, 168, 1, 10]] = [''192.168.1.10'']"
  by code_simp

lemma demo_dest_api: "dest_of 52100 ''192.168.1.10'' = Some (v4InV6Prefix @ [192, 168, 1, 10], [], 52100)"
  by code_simp

lemma device_found:
  assumes "disc_ok fl d" "sv_Discovery s = Some d" "snapshot i d = Some dev"
  shows "findDeviceByID i s = Some dev"
proof -
  obtain a where a: "map_of (dc_devices d) i = Some a" "dev = dc_heap d ! a" using assms(3) by (auto simp: snapshot_def)
  then have "dv_ID dev = i" using entry_of [OF assms(1) a(1)] by (simp add: entry_ok_def Let_def)
  moreover have "dev \<in> set (Devices d)" using a by (force simp: Devices_def SortDevices_def dest: map_of_SomeD)
  ultimately have "findDeviceByID i s \<noteq> None" using assms(2) by (auto simp: findDeviceByID_def find_None_iff)
  then show ?thesis using found_device [OF assms(1,2)] assms(3) by fastforce
qed

definition demo_table :: Disc where
  "demo_table = handleEntry 7 (Some (an_Text demo_ann, [Some [192, 168, 1, 10]], [], ''den'')) (NewDisc ''me'')"

definition demo_caller :: Server where
  "demo_caller = demo_server\<lparr>sv_Discovery := Some demo_table\<rparr>"

lemma demo_table_device: "\<exists>dev. snapshot demo_hash demo_table = Some dev \<and> dv_Port dev = 52100 \<and>
  dv_IPv4 dev = [''192.168.1.10''] \<and> dv_IPv6 dev = []"
proof -
  obtain rec where rec: "ParseTXT (an_Text demo_ann) = Inr rec" "tx_PubHash rec = demo_hash" using demo_ann_parse by blast
  have ok: "disc_ok (\<lambda>i. 0) (NewDisc ''me'')" by (simp add: NewDisc_def disc_ok_def)
  have "BuildTXT ''linux'' (Some (52100, ''den'')) (Some demo_hash) (detectIPVersion None) = Inr (an_Text demo_ann)"
    using demo_ip by (auto simp: BuildTXT_def demo_ann_def txtVersion_def ProtoVersion_def demo_hash_def)
  then have "tx_Port rec = 52100" using rec(1) by (rule Build_Parse_port)
  then show ?thesis
    using handled_device [OF ok rec(1), of 7 "[Some [192, 168, 1, 10]]" "[]" "''den''"] rec(2) demo_v4_string
    by (auto simp: demo_table_def NewDisc_def demo_hash_def ipsToStrings_def)
qed

lemma demo_accepted:
  "\<exists>t cfg addr s'. handleCreateTransfer ''u'' 7 (Some (demo_hash, ''/tmp/x'')) (Some \<lparr>fst_IsDir = False, fst_Name = ''x'', fst_Size = 7\<rparr>)
      demo_ifs demo_request demo_caller = (ATransfer 201 t, Some (cfg, addr), s')"
proof -
  have ok: "disc_ok (\<lambda>i. 0) (NewDisc ''me'')" by (simp add: NewDisc_def disc_ok_def)
  obtain dev where dev: "snapshot demo_hash demo_table = Some dev" "dv_Port dev = 52100" "dv_IPv4 dev = [''192.168.1.10'']" "dv_IPv6 dev = []"
    using demo_table_device by blast
  have f: "findDeviceByID demo_hash demo_caller = Some dev"
  proof (rule device_found [of "\<lambda>i. 0" demo_table])
    show "disc_ok (\<lambda>i. 0) demo_table" unfolding demo_table_def using ok by (rule handleEntry_ok)
  qed (simp_all add: demo_caller_def dev(1))
  have "SelectAddresses [''192.168.1.10''] [''192.168.1.5'', ''10.0.0.1''] 52100 \<noteq> []"
    using selection_lemma [of "[''192.168.1.10'']" "[''192.168.1.5'', ''10.0.0.1'']" 52100] demo_dest_api demo_sources demo_fits
    by fastforce
  then have "\<exists>sel. peerAddressWith dev [''192.168.1.5'', ''10.0.0.1''] = Inr sel"
    using dev(2-4) by (auto simp: peerAddressWith_def Let_def split: list.split)
  then obtain sel where "peerAddressWith dev [''192.168.1.5'', ''10.0.0.1''] = Inr sel" ..
  with f show ?thesis
    by (simp add: handleCreateTransfer_def peerAddress_def demo_sources_ifs demo_caller_def demo_server_def Manager_Create_def
      NewManager_def Let_def demo_hash_def)
qed

lemma discovered_peer_dialled_at_its_api_witness:
  "\<exists>t cfg addr s' a. handleCreateTransfer ''u'' 7 (Some (demo_hash, ''/tmp/x'')) (Some \<lparr>fst_IsDir = False, fst_Name = ''x'', fst_Size = 7\<rparr>)
      demo_ifs demo_request demo_caller = (ATransfer 201 t, Some (cfg, addr), s') \<and> addr = joinHostPort a [] 52100 \<and>
    rn_inbound (snd (run (demo_os (\<lambda>_. True)))) \<noteq> Some 52100"
proof -
  obtain rec where rec: "ParseTXT (an_Text demo_ann) = Inr rec" "tx_PubHash rec = demo_hash" using demo_ann_parse by blast
  obtain t cfg addr s' where h: "handleCreateTransfer ''u'' 7 (Some (tx_PubHash rec, ''/tmp/x''))
      (Some \<lparr>fst_IsDir = False, fst_Name = ''x'', fst_Size = 7\<rparr>) demo_ifs demo_request demo_caller = (ATransfer 201 t, Some (cfg, addr), s')"
    using demo_accepted rec(2) by auto
  note d = discovered_peer_dialled_at_its_api [of "demo_os (\<lambda>_. True)" demo_ann rec "newProber (NewDisc ''me'')" "[]" "''me''"
        "[Some [192, 168, 1, 10]]" "[]" demo_caller 7 "''den''", OF _ _ rec(1) _ _ _ _ h]
  have any: "q \<notin> set used" if "os_anyport (demo_os (\<lambda>_. True)) used = Some q" for used q
    using that by (auto simp: demo_os_def split: if_splits)
  have ann: "rn_announced (snd (run (demo_os (\<lambda>_. True)))) = Some demo_ann" using demo_result [of "\<lambda>_. True"] by simp
  have other: "tx_PubHash rec \<noteq> dc_self (pr_disc (newProber (NewDisc ''me'')))"
    by (simp add: rec(2) newProber_def NewDisc_def demo_hash_def)
  have none: "newProber (NewDisc ''me'') = drun [] (newProber (NewDisc ''me''))" by (simp add: drun_def)
  have table: "sv_Discovery demo_caller =
      Some (handleEntry 7 (Some (an_Text demo_ann, [Some [192, 168, 1, 10]], [], ''den'')) (pr_disc (newProber (NewDisc ''me''))))"
    by (simp add: demo_caller_def demo_table_def newProber_def)
  have len: "length ip = 4 \<or> length ip = 16" if "Some ip \<in> set ([Some [192, 168, 1, 10]] @ [])" for ip :: IP
    using that by simp
  obtain a where "addr = joinHostPort a [] (an_Port demo_ann)" "rn_inbound (snd (run (demo_os (\<lambda>_. True)))) \<noteq> Some (an_Port demo_ann)"
    using d [OF any ann other none len table] by blast
  with h rec(2) show ?thesis by (auto simp: demo_ann_def)
qed

end
