(* ===== verification/Inbound.thy ===== *)
theory Inbound
  imports FileTransfer
begin

text \<open>
  The inbound server as a whole (\<open>core/receive/server.go\<close>: \<open>Start\<close>, \<open>Close\<close>, and the life of a handler;
  \<open>core/net/listen.go\<close>: \<open>Accept\<close>, \<open>Close\<close>): which goroutine waits for whom. What a handler computes is theory
  FileTransfer; here a handler is where it blocks. A step is the server's own or the doing of a peer, who may
  as well stay silent for ever, since no read has a deadline.
\<close>

section \<open>The server\<close>

text \<open>A handler reads the header, waits for the user's decision, or copies the body.\<close>

datatype hstate = HHeader | HWaiting | HBody

text \<open>\<open>ib_hs\<close> is the connection whose handshake the accept loop is in the middle of.\<close>

record Inbound =
  ib_quit :: bool
  ib_loop :: bool
  ib_backlog :: "nat list"
  ib_hs :: "nat option"
  ib_handlers :: "(nat, hstate) gomap"

definition Start :: Inbound where
  "Start = \<lparr>ib_quit = False, ib_loop = True, ib_backlog = [], ib_hs = None, ib_handlers = []\<rparr>"

text \<open>Steps of the server itself: the loop takes the next connection into its handshake, or fails to accept (it
  logs and goes on, unless the server has quit, when the listener returns no result and the loop ends); the
  user decides; a waiting handler sees the quit channel or the cancelled context.\<close>

datatype istep = TakeConn | AcceptFails | Decide nat bool | SeeQuit nat

text \<open>Doings of a peer: a new connection; the end of its handshake, of its header, of its body, each good or
  not (a body that ends either way ends the handler).\<close>

datatype pstep = Connect nat | Handshake nat bool | Header nat bool | BodyEnds nat

fun istep_run :: "istep \<Rightarrow> Inbound \<Rightarrow> Inbound option" where
  "istep_run TakeConn s = (if \<not> ib_loop s \<or> ib_hs s \<noteq> None \<or> ib_quit s then None
     else case ib_backlog s of [] \<Rightarrow> None | c # cs \<Rightarrow> Some (s\<lparr>ib_backlog := cs, ib_hs := Some c\<rparr>))"
| "istep_run AcceptFails s = (if \<not> ib_loop s \<or> ib_hs s \<noteq> None then None
     else if ib_quit s then Some (s\<lparr>ib_loop := False\<rparr>) else Some s)"
| "istep_run (Decide c yes) s = (if map_of (ib_handlers s) c \<noteq> Some HWaiting then None
     else Some (s\<lparr>ib_handlers := (if yes then gput c HBody (ib_handlers s) else gdel c (ib_handlers s))\<rparr>))"
| "istep_run (SeeQuit c) s = (if map_of (ib_handlers s) c \<noteq> Some HWaiting \<or> \<not> ib_quit s then None
     else Some (s\<lparr>ib_handlers := gdel c (ib_handlers s)\<rparr>))"

fun pstep_run :: "pstep \<Rightarrow> Inbound \<Rightarrow> Inbound option" where
  "pstep_run (Connect c) s = (if ib_quit s \<or> ib_hs s = Some c \<or> c \<in> set (ib_backlog s) \<or> map_of (ib_handlers s) c \<noteq> None then None
     else Some (s\<lparr>ib_backlog := ib_backlog s @ [c]\<rparr>))"
| "pstep_run (Handshake c good) s = (if ib_hs s \<noteq> Some c then None
     else Some (s\<lparr>ib_hs := None, ib_handlers := (if good then gput c HHeader (ib_handlers s) else ib_handlers s)\<rparr>))"
| "pstep_run (Header c good) s = (if map_of (ib_handlers s) c \<noteq> Some HHeader then None
     else Some (s\<lparr>ib_handlers := (if good then gput c HWaiting (ib_handlers s) else gdel c (ib_handlers s))\<rparr>))"
| "pstep_run (BodyEnds c) s = (if map_of (ib_handlers s) c \<noteq> Some HBody then None
     else Some (s\<lparr>ib_handlers := gdel c (ib_handlers s)\<rparr>))"

fun peer_of :: "pstep \<Rightarrow> nat" where
  "peer_of (Connect c) = c" | "peer_of (Handshake c good) = c" | "peer_of (Header c good) = c" | "peer_of (BodyEnds c) = c"

text \<open>\<open>Close\<close> closes the quit channel (a second time it panics: None), cancels the context and closes the listener,
  whose waiting connections are gone; then it waits for the loop and all handlers.\<close>

definition Close :: "Inbound \<Rightarrow> Inbound option" where
  "Close s = (if ib_quit s then None else Some (s\<lparr>ib_quit := True, ib_backlog := []\<rparr>))"

definition Close_returns :: "Inbound \<Rightarrow> bool" where
  "Close_returns s \<longleftrightarrow> ib_quit s \<and> \<not> ib_loop s \<and> ib_handlers s = []"

datatype ievent = I istep | P pstep | C

fun ievent_run :: "ievent \<Rightarrow> Inbound \<Rightarrow> Inbound option" where
  "ievent_run (I a) s = istep_run a s"
| "ievent_run (P a) s = pstep_run a s"
| "ievent_run C s = Close s"

inductive ireach :: "(ievent \<Rightarrow> bool) \<Rightarrow> Inbound \<Rightarrow> Inbound \<Rightarrow> bool" for allowed where
  refl: "ireach allowed s s"
| step: "ireach allowed s t \<Longrightarrow> allowed e \<Longrightarrow> ievent_run e t = Some u \<Longrightarrow> ireach allowed s u"

section \<open>Properties\<close>

text \<open>Events in which peer \<open>c\<close> does nothing; events of the server alone.\<close>

definition silent :: "nat \<Rightarrow> ievent \<Rightarrow> bool" where
  "silent c e \<longleftrightarrow> (case e of P a \<Rightarrow> peer_of a \<noteq> c | _ \<Rightarrow> True)"

definition own :: "ievent \<Rightarrow> bool" where
  "own e \<longleftrightarrow> (case e of I a \<Rightarrow> True | _ \<Rightarrow> False)"

definition iinv :: "Inbound \<Rightarrow> bool" where
  "iinv s \<longleftrightarrow> gwf (ib_handlers s) \<and> (ib_hs s \<noteq> None \<longrightarrow> ib_loop s)"

lemma iinv_step: "iinv s \<Longrightarrow> ievent_run e s = Some t \<Longrightarrow> iinv t"
proof (cases e)
  case (I a)
  assume "iinv s" "ievent_run e s = Some t"
  with I show ?thesis by (cases a) (auto simp: iinv_def split: if_splits list.splits)
next
  case (P a)
  assume "iinv s" "ievent_run e s = Some t"
  with P show ?thesis by (cases a) (auto simp: iinv_def split: if_splits)
qed (auto simp: Close_def iinv_def split: if_splits)

lemma ireach_inv: "ireach Q s t \<Longrightarrow> iinv s \<Longrightarrow> iinv t"
  by (induction rule: ireach.induct) (auto intro: iinv_step)

lemma iinv_Start: "iinv Start"
  by (simp add: iinv_def Start_def)

lemma silent_step:
  assumes "ievent_run e s = Some t" "silent c e" "ib_hs s = Some c" "ib_loop s"
  shows "ib_hs t = Some c \<and> ib_loop t \<and> (map_of (ib_handlers t) d \<noteq> None \<longrightarrow> map_of (ib_handlers s) d \<noteq> None)"
proof (cases e)
  case (I a)
  with assms show ?thesis by (cases a) (auto simp: map_simps split: if_splits)
next
  case (P a)
  with assms show ?thesis by (cases a) (auto simp: map_simps silent_def split: if_splits)
qed (use assms in \<open>auto simp: Close_def split: if_splits\<close>)

text \<open>C25: One silent peer blocks the server: a peer that connects and then sends nothing holds the accept loop in its
  handshake for as long as it likes; whatever the other peers, the user and \<open>Close\<close> do meanwhile, no other
  connection gets a handler, and \<open>Close\<close> does not return.\<close>

theorem silent_peer_blocks_the_server:
  assumes "ireach (\<lambda>_. True) Start s" "ib_hs s = Some c" "ireach (silent c) s t"
  shows "ib_hs t = Some c \<and> (\<forall>d. map_of (ib_handlers t) d \<noteq> None \<longrightarrow> map_of (ib_handlers s) d \<noteq> None) \<and> \<not> Close_returns t"
proof -
  have loop: "ib_loop s" using ireach_inv [OF assms(1) iinv_Start] assms(2) by (simp add: iinv_def)
  from assms(3,2) loop
  have "ib_hs t = Some c \<and> ib_loop t \<and> (\<forall>d. map_of (ib_handlers t) d \<noteq> None \<longrightarrow> map_of (ib_handlers s) d \<noteq> None)"
  proof (induction rule: ireach.induct)
    case (step s t e u)
    then have t: "ib_hs t = Some c" "ib_loop t" "\<And>d. map_of (ib_handlers t) d \<noteq> None \<Longrightarrow> map_of (ib_handlers s) d \<noteq> None"
      by blast+
    then show ?case using silent_step [OF step.hyps(3,2) t(1,2)] by blast
  qed simp
  then show ?thesis by (simp add: Close_returns_def)
qed

lemma own_step:
  assumes "ievent_run e s = Some t" "own e" "ib_quit s"
  shows "ib_quit t \<and> (ib_hs s \<noteq> None \<and> ib_loop s \<longrightarrow> ib_hs t \<noteq> None \<and> ib_loop t) \<and>
    (map_of (ib_handlers s) c \<in> {Some HHeader, Some HBody} \<longrightarrow> map_of (ib_handlers t) c = map_of (ib_handlers s) c)"
proof (cases e)
  case (I a)
  with assms show ?thesis by (cases a) (auto simp: map_simps split: if_splits)
qed (use assms in \<open>auto simp: own_def\<close>)

lemma own_stuck:
  assumes "ireach own s t" "ib_quit s" "(ib_hs s \<noteq> None \<and> ib_loop s) \<or> map_of (ib_handlers s) c \<in> {Some HHeader, Some HBody}"
  shows "ib_quit t \<and> ((ib_hs t \<noteq> None \<and> ib_loop t) \<or> map_of (ib_handlers t) c \<in> {Some HHeader, Some HBody})"
  using assms
proof (induction rule: ireach.induct)
  case (step s t e u)
  then show ?case using own_step [OF step.hyps(3,2)] by metis
qed simp

lemma ireach_first: "ievent_run e s = Some t \<Longrightarrow> Q e \<Longrightarrow> ireach Q t u \<Longrightarrow> ireach Q s u"
proof (rotate_tac 2, induction rule: ireach.induct)
  case (refl t)
  then show ?case using ireach.step [OF ireach.refl, of Q e s t] by simp
qed (auto intro: ireach.step)

lemma own_drain:
  assumes "ib_quit s" "ib_hs s = None" "gwf (ib_handlers s)" "\<forall>c h. map_of (ib_handlers s) c = Some h \<longrightarrow> h = HWaiting"
  shows "\<exists>t. ireach own s t \<and> Close_returns t"
  using assms
proof (induction "length (ib_handlers s)" arbitrary: s)
  case 0
  show ?case
  proof (cases "ib_loop s")
    case True
    let ?t = "s\<lparr>ib_loop := False\<rparr>"
    have "ireach own s ?t"
      using True 0 by (intro ireach_first [of "I AcceptFails" s ?t own ?t] ireach.refl) (simp_all add: own_def)
    then show ?thesis using 0 by (auto simp: Close_returns_def)
  next
    case False
    with 0 show ?thesis by (auto simp: Close_returns_def intro: ireach.refl)
  qed
next
  case (Suc n)
  then obtain c h r where hs: "ib_handlers s = (c, h) # r" by (cases "ib_handlers s") auto
  with Suc.prems(4) have h: "h = HWaiting" by (auto dest: spec [of _ c])
  let ?t = "s\<lparr>ib_handlers := gdel c (ib_handlers s)\<rparr>"
  have del: "gdel c (ib_handlers s) = r" using Suc.prems(3) hs by (auto simp: gwf_def AList.delete_eq filter_id_conv image_iff)
  have r: "k = HWaiting" if "map_of r d = Some k" for d k
  proof -
    have "d \<noteq> c" using that Suc.prems(3) hs by (auto dest!: map_of_SomeD simp: image_iff)
    then show ?thesis using that Suc.prems(4) hs by (auto split: if_splits)
  qed
  have "\<exists>u. ireach own ?t u \<and> Close_returns u"
    using Suc.prems(1-3) Suc.hyps(2) hs del r by (intro Suc.hyps(1)) auto
  then obtain u where u: "ireach own ?t u" "Close_returns u" by blast
  have "ievent_run (I (SeeQuit c)) s = Some ?t" using hs h Suc.prems(1) by simp
  then have "ireach own s u" using u(1) by (intro ireach_first [of "I (SeeQuit c)" s ?t own u]) (simp_all add: own_def)
  with u(2) show ?case by blast
qed

lemma close_returns:
  assumes "ireach (\<lambda>_. True) Start s" "ib_quit s"
  shows "(\<exists>t. ireach own s t \<and> Close_returns t) \<longleftrightarrow>
    ib_hs s = None \<and> (\<forall>c h. map_of (ib_handlers s) c = Some h \<longrightarrow> h = HWaiting)"
proof -
  have inv: "gwf (ib_handlers s)" "ib_hs s \<noteq> None \<longrightarrow> ib_loop s"
    using ireach_inv [OF assms(1) iinv_Start] by (simp_all add: iinv_def)
  show ?thesis
  proof
    assume "\<exists>t. ireach own s t \<and> Close_returns t"
    then obtain t where t: "ireach own s t" "Close_returns t" by blast
    have "\<not> ((ib_hs s \<noteq> None \<and> ib_loop s) \<or> map_of (ib_handlers s) c \<in> {Some HHeader, Some HBody})" for c
      using own_stuck [OF t(1) assms(2), of c] t(2) by (auto simp: Close_returns_def)
    then show "ib_hs s = None \<and> (\<forall>c h. map_of (ib_handlers s) c = Some h \<longrightarrow> h = HWaiting)"
      using inv(2) by (metis hstate.exhaust insertCI)
  next
    assume "ib_hs s = None \<and> (\<forall>c h. map_of (ib_handlers s) c = Some h \<longrightarrow> h = HWaiting)"
    then show "\<exists>t. ireach own s t \<and> Close_returns t" using own_drain assms(2) inv(1) by blast
  qed
qed

text \<open>When \<open>Close\<close> returns: after it has been called the server alone can finish exactly when no handshake is in
  progress and no handler is reading a header or a body; otherwise it waits until the peers hang up.\<close>

theorem close_returns_exactly:
  assumes "ireach (\<lambda>_. True) Start s" "ib_quit s"
  shows "(\<exists>t. ireach own s t \<and> Close_returns t) \<longleftrightarrow>
    ib_hs s = None \<and> (\<forall>c h. map_of (ib_handlers s) c = Some h \<longrightarrow> h = HWaiting)"
  using assms by (rule close_returns)

section \<open>A concrete server\<close>

fun iruns :: "ievent list \<Rightarrow> Inbound \<Rightarrow> Inbound option" where
  "iruns [] s = Some s"
| "iruns (e # es) s = (case ievent_run e s of None \<Rightarrow> None | Some t \<Rightarrow> iruns es t)"

lemma iruns_reach: "iruns es s = Some t \<Longrightarrow> list_all Q es \<Longrightarrow> ireach Q s t"
  by (induction es arbitrary: s) (auto intro: ireach.refl ireach_first split: option.splits)

text \<open>Peer 1 connects and stays silent; peer 2 connects; the server is closed.\<close>

lemma silent_peer_blocks_the_server_witness:
  "\<exists>s t. iruns [P (Connect 1), I TakeConn] Start = Some s \<and> iruns [P (Connect 2), C] s = Some t \<and>
    ib_hs t = Some 1 \<and> \<not> Close_returns t"
proof -
  let ?s = "Start\<lparr>ib_hs := Some 1\<rparr>" and ?t = "Start\<lparr>ib_hs := Some 1, ib_quit := True\<rparr>"
  have s: "iruns [P (Connect 1), I TakeConn] Start = Some ?s" by (simp add: Start_def)
  have t: "iruns [P (Connect 2), C] ?s = Some ?t" by (simp add: Start_def Close_def)
  have "ireach (\<lambda>_. True) Start ?s" using s by (rule iruns_reach) simp
  moreover have "ireach (silent 1) ?s ?t" using t by (rule iruns_reach) (simp add: silent_def)
  ultimately show ?thesis using s t silent_peer_blocks_the_server [of ?s 1 ?t] by auto
qed

lemma close_returns_exactly_witness:
  "\<exists>s t. iruns [P (Connect 1), I TakeConn, P (Handshake 1 True), P (Header 1 True), C] Start = Some s \<and>
    ireach own s t \<and> Close_returns t"
proof -
  let ?s = "Start\<lparr>ib_handlers := [(1, HWaiting)], ib_quit := True\<rparr>"
  have s: "iruns [P (Connect 1), I TakeConn, P (Handshake 1 True), P (Header 1 True), C] Start = Some ?s"
    by (simp add: Start_def Close_def)
  then have "ireach (\<lambda>_. True) Start ?s" by (rule iruns_reach) simp
  from close_returns_exactly [OF this] s show ?thesis by (auto simp: Start_def split: if_splits)
qed

end
