(* ===== verification/KeyStores.thy ===== *)
theory KeyStores
  imports TrustStore
begin

text \<open>
  The three platform keystores (\<open>core/identity/keystore.go\<close>, \<open>keystore_plain.go\<close>, \<open>keystore_windows.go\<close>,
  \<open>keystore_darwin.go\<close>) and the identity on top of them. The state of a keystore is the file, or the keychain's
  item; DPAPI and the \<open>security\<close> command are parameters. A failed \<open>os.WriteFile\<close> leaves the file with whatever
  has been written, since it truncates first.
\<close>

section \<open>The interface\<close>

text \<open>\<open>load\<close> and \<open>save\<close> on states \<open>'s\<close>, with what the system answers as their first argument; \<open>plain\<close> says that the
  system answered without an error, and \<open>ok d\<close> that the data \<open>d\<close> is one that the platform gives back unchanged.\<close>

locale keystore =
  fixes load :: "'l \<Rightarrow> 's \<Rightarrow> KeyLoad"
    and save :: "'w \<Rightarrow> bytes \<Rightarrow> 's \<Rightarrow> bool \<times> 's"
    and readable :: "'l \<Rightarrow> bool"
    and ok :: "bytes \<Rightarrow> bool"
  assumes load_saved: "readable l \<Longrightarrow> ok d \<Longrightarrow> save w d s = (True, s') \<Longrightarrow> load l s' = KeyData d"
    and load_stable: "readable l \<Longrightarrow> readable l' \<Longrightarrow> load l s = load l' s"
begin

lemma saved_is_found: "readable l \<Longrightarrow> ok d \<Longrightarrow> save w d s = (True, s') \<Longrightarrow> load l s' \<noteq> KeyNotFound"
  using load_saved by fastforce

end

section \<open>Plain files\<close>

text \<open>The file (None: missing). A read fails or not; a write succeeds, or leaves the given bytes behind.\<close>

definition plain_Save :: "bytes option \<Rightarrow> bytes \<Rightarrow> bytes option \<Rightarrow> bool \<times> bytes option" where
  "plain_Save failing d f = (case failing of None \<Rightarrow> (True, Some d) | Some junk \<Rightarrow> (False, Some junk))"

definition plain_Load :: "bool \<Rightarrow> bytes option \<Rightarrow> KeyLoad" where
  "plain_Load failing f = (case f of None \<Rightarrow> KeyNotFound | Some d \<Rightarrow> if failing then KeyLoadError else KeyData d)"

interpretation plain: keystore plain_Load plain_Save "\<lambda>failing. \<not> failing" "\<lambda>_. True"
  by unfold_locales (auto simp: plain_Save_def plain_Load_def split: option.splits)

section \<open>DPAPI\<close>

text \<open>A blob of DPAPI: a 32-bit size and what the pointer shows (None: nil).\<close>

record dataBlob =
  bl_Size :: "32 word"
  bl_Data :: "bytes option"

definition to_blob :: "bytes \<Rightarrow> dataBlob" where
  "to_blob d = (if 0 < length d then \<lparr>bl_Size = of_nat (length d), bl_Data = Some d\<rparr> else \<lparr>bl_Size = 0, bl_Data = None\<rparr>)"

definition blobToBytes :: "dataBlob \<Rightarrow> bytes" where
  "blobToBytes b = (case bl_Data b of None \<Rightarrow> [] | Some p \<Rightarrow> if bl_Size b = 0 then [] else take (unat (bl_Size b)) p)"

text \<open>\<open>crypt\<close> is the call of \<open>CryptProtectData\<close> or \<open>CryptUnprotectData\<close>.\<close>

definition dpapiProtect :: "(dataBlob \<Rightarrow> dataBlob option) \<Rightarrow> bytes \<Rightarrow> bytes option" where
  "dpapiProtect crypt d = map_option blobToBytes (crypt (to_blob d))"

definition dpapiUnprotect :: "(dataBlob \<Rightarrow> dataBlob option) \<Rightarrow> bytes \<Rightarrow> bytes option" where
  "dpapiUnprotect crypt d = map_option blobToBytes (crypt (to_blob d))"

definition dpapi_Save :: "(dataBlob \<Rightarrow> dataBlob option) \<Rightarrow> bytes option \<Rightarrow> bytes \<Rightarrow> bytes option \<Rightarrow> bool \<times> bytes option" where
  "dpapi_Save protect failing d f = (case dpapiProtect protect d of
      None \<Rightarrow> (False, f) | Some enc \<Rightarrow> plain_Save failing enc f)"

definition dpapi_Load :: "(dataBlob \<Rightarrow> dataBlob option) \<Rightarrow> bool \<Rightarrow> bytes option \<Rightarrow> KeyLoad" where
  "dpapi_Load unprotect failing f = (case plain_Load failing f of
      KeyData enc \<Rightarrow> (case dpapiUnprotect unprotect enc of None \<Rightarrow> KeyLoadError | Some d \<Rightarrow> KeyData d)
    | r \<Rightarrow> r)"

definition dpapi_ok :: "(dataBlob \<Rightarrow> dataBlob option) \<Rightarrow> (dataBlob \<Rightarrow> dataBlob option) \<Rightarrow> bytes \<Rightarrow> bool" where
  "dpapi_ok protect unprotect d \<longleftrightarrow> (case dpapiProtect protect d of None \<Rightarrow> True | Some enc \<Rightarrow> dpapiUnprotect unprotect enc = Some d)"

interpretation dpapi: keystore "dpapi_Load unprotect" "dpapi_Save protect" "\<lambda>failing. \<not> failing" "dpapi_ok protect unprotect"
proof
  fix l d w s s'
  assume "\<not> l" "dpapi_ok protect unprotect d" "dpapi_Save protect w d s = (True, s')"
  then show "dpapi_Load unprotect l s' = KeyData d"
    by (cases "dpapiProtect protect d"; cases w) (auto simp: dpapi_Save_def dpapi_Load_def dpapi_ok_def plain_Save_def plain_Load_def)
qed simp

section \<open>The keychain\<close>

text \<open>The item (None: not found). The command \<open>security\<close> prints the item's password in some way, \<open>print\<close>, or exits
  with a code; adding exits with code 0 or fails.\<close>

definition keychain_Save :: "bool \<Rightarrow> bytes \<Rightarrow> bytes option \<Rightarrow> bool \<times> bytes option" where
  "keychain_Save failing d item = (if failing then (False, item) else (True, Some d))"

text \<open>The answer to a find: output, an exit code, or a failure to run the command at all.\<close>

datatype find_answer = FOutput bytes | FExit int | FNoRun

definition security_find :: "(bytes \<Rightarrow> bytes) \<Rightarrow> find_answer option \<Rightarrow> bytes option \<Rightarrow> find_answer" where
  "security_find prnt trouble item = (case trouble of Some a \<Rightarrow> a
     | None \<Rightarrow> (case item of None \<Rightarrow> FExit 44 | Some d \<Rightarrow> FOutput (prnt d)))"

definition trim_newline :: "bytes \<Rightarrow> bytes" where
  "trim_newline b = (if b \<noteq> [] \<and> last b = 10 then butlast b else b)"

definition keychain_Load :: "(bytes \<Rightarrow> bytes) \<Rightarrow> find_answer option \<Rightarrow> bytes option \<Rightarrow> KeyLoad" where
  "keychain_Load prnt trouble item = (case security_find prnt trouble item of
      FOutput out \<Rightarrow> KeyData (trim_newline out)
    | FExit code \<Rightarrow> if code = 44 then KeyNotFound else KeyLoadError
    | FNoRun \<Rightarrow> KeyLoadError)"

interpretation keychain: keystore "keychain_Load prnt" keychain_Save "\<lambda>trouble. trouble = None" "\<lambda>d. prnt d = d @ [10]"
  by unfold_locales (auto simp: keychain_Save_def keychain_Load_def security_find_def trim_newline_def split: if_splits)

section \<open>The identity on a keystore\<close>

text \<open>\<open>loadOrCreateWithKeystore\<close> with the calls of the keystore it makes.\<close>

definition LoadOrCreate ::
  "(bytes \<Rightarrow> bytes) \<Rightarrow> (bytes \<Rightarrow> bytes) \<Rightarrow> (bytes \<Rightarrow> (string \<times> bytes) option) \<Rightarrow> (string \<Rightarrow> bytes \<Rightarrow> bytes) \<Rightarrow>
    ('s \<Rightarrow> KeyLoad) \<Rightarrow> (bytes \<Rightarrow> 's \<Rightarrow> bool \<times> 's) \<Rightarrow> (bytes \<times> bytes) option \<Rightarrow> 's \<Rightarrow> (IdentityError + Identity) \<times> 's" where
  "LoadOrCreate sha public pem_decode pem_encode load save key s = (case load s of
      KeyData data \<Rightarrow> (parse_identity sha public pem_decode data, s)
    | KeyLoadError \<Rightarrow> (Inl ErrReadIdentity, s)
    | KeyNotFound \<Rightarrow> (case key of
        None \<Rightarrow> (Inl ErrGenerate, s)
      | Some (pub, priv) \<Rightarrow> (case save (pem_encode ''LANOS IDENTITY'' priv) s of
            (True, s') \<Rightarrow> (Inr (fromKeys sha priv pub), s')
          | (False, s') \<Rightarrow> (Inl ErrWriteIdentity, s'))))"

section \<open>Properties\<close>

lemma parse_generated:
  assumes "public priv = pub" "length priv = 64" "\<And>b. pem_decode (pem_encode ''LANOS IDENTITY'' b) = Some (''LANOS IDENTITY'', b)"
  shows "parse_identity sha public pem_decode (pem_encode ''LANOS IDENTITY'' priv) = Inr (fromKeys sha priv pub)"
  using assms by (simp add: parse_identity_def)

text \<open>The abstract keystore of theory TrustStore is one of them.\<close>

lemma abstract_keystore:
  "LoadOrCreate sha public pem_decode pem_encode (\<lambda>s. s) (\<lambda>d s. if save_ok then (True, KeyData d) else (False, s)) key s =
    loadOrCreateWithKeystore sha public pem_decode pem_encode key save_ok s"
  by (simp add: LoadOrCreate_def loadOrCreateWithKeystore_def generate_identity_def Let_def split: KeyLoad.split option.split)

context keystore
begin

lemma restart:
  assumes "LoadOrCreate sha public pem_decode pem_encode (load l) (save w) key s = (Inr ident, s')"
    "\<And>pub priv. key = Some (pub, priv) \<Longrightarrow> public priv = pub \<and> length priv = 64 \<and> ok (pem_encode ''LANOS IDENTITY'' priv)"
    "\<And>b. pem_decode (pem_encode ''LANOS IDENTITY'' b) = Some (''LANOS IDENTITY'', b)" "readable l" "readable l'"
  shows "LoadOrCreate sha public pem_decode pem_encode (load l') (save w') key' s' = (Inr ident, s')"
proof (cases "load l s")
  case (KeyData d)
  with assms(1) load_stable [OF assms(5,4), of s] show ?thesis by (simp add: LoadOrCreate_def)
next
  case KeyNotFound
  with assms(1) obtain pub priv where k: "key = Some (pub, priv)" "ident = fromKeys sha priv pub"
    and sv: "save w (pem_encode ''LANOS IDENTITY'' priv) s = (True, s')"
    by (auto simp: LoadOrCreate_def split: option.splits prod.splits bool.splits)
  have p: "public priv = pub" "length priv = 64" "ok (pem_encode ''LANOS IDENTITY'' priv)" using assms(2) [OF k(1)] by blast+
  from p(1,2) assms(3) have "parse_identity sha public pem_decode (pem_encode ''LANOS IDENTITY'' priv) = Inr ident"
    unfolding k(2) by (rule parse_generated)
  with load_saved [OF assms(5) p(3) sv] show ?thesis by (simp add: LoadOrCreate_def)
qed (use assms(1) in \<open>simp add: LoadOrCreate_def\<close>)

end

text \<open>The identity survives a restart on every platform: on plain files; on Windows, if DPAPI decrypts what it
  encrypted; on macOS, if the \<open>security\<close> command prints the PEM text and a newline. What \<open>LoadOrCreate\<close> returned
  it returns again, whatever key would be drawn next, and the store stays as it is.\<close>

theorem identity_survives_on_every_platform:
  assumes "\<And>pub priv. key = Some (pub, priv) \<Longrightarrow> public priv = pub \<and> length priv = 64"
    "\<And>b. pem_decode (pem_encode ''LANOS IDENTITY'' b) = Some (''LANOS IDENTITY'', b)"
    "\<And>pub priv. key = Some (pub, priv) \<Longrightarrow> dpapi_ok protect unprotect (pem_encode ''LANOS IDENTITY'' priv)"
    "\<And>pub priv. key = Some (pub, priv) \<Longrightarrow> prnt (pem_encode ''LANOS IDENTITY'' priv) = pem_encode ''LANOS IDENTITY'' priv @ [10]"
  shows "(\<forall>i f'. LoadOrCreate sha public pem_decode pem_encode (plain_Load False) (plain_Save w) key f = (Inr i, f') \<longrightarrow>
      LoadOrCreate sha public pem_decode pem_encode (plain_Load False) (plain_Save w') key' f' = (Inr i, f')) \<and>
    (\<forall>i f'. LoadOrCreate sha public pem_decode pem_encode (dpapi_Load unprotect False) (dpapi_Save protect w) key f = (Inr i, f') \<longrightarrow>
      LoadOrCreate sha public pem_decode pem_encode (dpapi_Load unprotect False) (dpapi_Save protect w') key' f' = (Inr i, f')) \<and>
    (\<forall>i f'. LoadOrCreate sha public pem_decode pem_encode (keychain_Load prnt None) (keychain_Save b) key f = (Inr i, f') \<longrightarrow>
      LoadOrCreate sha public pem_decode pem_encode (keychain_Load prnt None) (keychain_Save b') key' f' = (Inr i, f'))"
  using assms by (blast intro: plain.restart dpapi.restart keychain.restart)

text \<open>A failed first save bricks the installation: the write truncates the file first, so a start that fails to
  save its new key leaves a piece of it behind, which every later start takes for a corrupt identity and
  never replaces, on plain files and with DPAPI; the keychain recovers.\<close>

theorem failed_save_bricks_identity:
  assumes "pem_decode junk = None" "dpapiUnprotect unprotect junk = None" "key = Some (pub, priv)"
  shows "fst (LoadOrCreate sha public pem_decode pem_encode (plain_Load False) (plain_Save (Some junk)) key None) = Inl ErrWriteIdentity \<and>
    (let f = snd (LoadOrCreate sha public pem_decode pem_encode (plain_Load False) (plain_Save (Some junk)) key None) in
      LoadOrCreate sha public pem_decode pem_encode (plain_Load False) (plain_Save w) key' f = (Inl ErrFormat, f)) \<and>
    (let f = snd (plain_Save (Some junk) enc None) in
      LoadOrCreate sha public pem_decode pem_encode (dpapi_Load unprotect False) (dpapi_Save protect w) key' f = (Inl ErrReadIdentity, f)) \<and>
    (let f = snd (LoadOrCreate sha public pem_decode pem_encode (keychain_Load prnt None) (keychain_Save True) key None) in
      LoadOrCreate sha public pem_decode pem_encode (keychain_Load prnt None) (keychain_Save False) key f =
        (Inr (fromKeys sha priv pub), Some (pem_encode ''LANOS IDENTITY'' priv)))"
  using assms
  by (simp add: LoadOrCreate_def plain_Load_def plain_Save_def dpapi_Load_def keychain_Load_def keychain_Save_def
    security_find_def parse_identity_def)

section \<open>A concrete platform\<close>

text \<open>A DPAPI that adds 128 to every byte.\<close>

definition demo_crypt :: "dataBlob \<Rightarrow> dataBlob option" where
  "demo_crypt b = Some (b\<lparr>bl_Data := map_option (map ((+) 128)) (bl_Data b)\<rparr>)"

lemma demo_crypt_ok:
  assumes "0 < length d" "length d < 2 ^ 32"
  shows "dpapi_ok demo_crypt demo_crypt d"
proof -
  have u: "unat (of_nat (length d) :: 32 word) = length d"
    using assms(2) by (simp add: unat_of_nat take_bit_nat_eq_self)
  then have "(of_nat (length d) :: 32 word) \<noteq> 0" using assms(1) by (metis less_irrefl unat_0)
  moreover have "map ((+) 256) d = d"
    by (rule map_idI) simp
  ultimately show ?thesis using u assms(1)
    by (simp add: dpapi_ok_def dpapiProtect_def dpapiUnprotect_def demo_crypt_def to_blob_def blobToBytes_def comp_def)
qed

definition demo_key :: "(bytes \<times> bytes) option" where
  "demo_key = Some (replicate 32 7, replicate 32 3 @ replicate 32 7)"

lemma identity_survives_on_every_platform_witness:
  "LoadOrCreate demo_sha demo_public demo_unpem demo_pem (dpapi_Load demo_crypt False) (dpapi_Save demo_crypt None) None
     (Some (map ((+) 128) (demo_pem ''LANOS IDENTITY'' (replicate 32 3 @ replicate 32 7)))) =
   (Inr (fromKeys demo_sha (replicate 32 3 @ replicate 32 7) (replicate 32 7)),
    Some (map ((+) 128) (demo_pem ''LANOS IDENTITY'' (replicate 32 3 @ replicate 32 7))))"
proof -
  let ?pem = "demo_pem ''LANOS IDENTITY'' (replicate 32 3 @ replicate 32 7)" and ?prnt = "\<lambda>d :: bytes. d @ [10]"
  have enc: "dpapiProtect demo_crypt ?pem = Some (map ((+) 128) ?pem)"
    by (simp add: dpapiProtect_def demo_crypt_def to_blob_def blobToBytes_def demo_pem_def)
  have first: "LoadOrCreate demo_sha demo_public demo_unpem demo_pem (dpapi_Load demo_crypt False) (dpapi_Save demo_crypt None)
      demo_key None = (Inr (fromKeys demo_sha (replicate 32 3 @ replicate 32 7) (replicate 32 7)), Some (map ((+) 128) ?pem))"
    by (simp add: LoadOrCreate_def dpapi_Load_def plain_Load_def dpapi_Save_def plain_Save_def demo_key_def enc)
  have "demo_key = Some (pub, priv) \<Longrightarrow> demo_public priv = pub \<and> length priv = 64 \<and> dpapi_ok demo_crypt demo_crypt (demo_pem ''LANOS IDENTITY'' priv)"
    for pub priv
    using demo_crypt_ok [of "demo_pem ''LANOS IDENTITY'' priv"] by (auto simp: demo_key_def demo_public_def demo_pem_def)
  then show ?thesis
    using identity_survives_on_every_platform [of demo_key demo_public demo_unpem demo_pem demo_crypt demo_crypt ?prnt] first
    by (auto simp: demo_unpem_def demo_pem_def)
qed

lemma failed_save_bricks_identity_witness:
  "LoadOrCreate demo_sha demo_public demo_unpem demo_pem (plain_Load False) (plain_Save None) demo_key (Some [46]) = (Inl ErrFormat, Some [46])"
  using failed_save_bricks_identity [of demo_unpem "[46]" "\<lambda>_. None" demo_key "replicate 32 7" "replicate 32 3 @ replicate 32 7"
      demo_sha demo_public demo_pem None demo_key]
  by (simp add: demo_unpem_def demo_key_def dpapiUnprotect_def LoadOrCreate_def plain_Load_def plain_Save_def)

end
