(* ===== verification/Download.thy ===== *)
theory Download
  imports Share ZipTree GoURL GoPath
begin

text \<open>
  What a download sends (\<open>core/share/server.go\<close>: \<open>serveFile\<close>, \<open>serveZip\<close>, the data of the download page and the
  small helpers): headers and body of the reply, over the archive of theory ZipTree. Who may download what is
  theory Share; \<open>http.ServeContent\<close> and the HTML template are the library's.
\<close>

section \<open>Files and archives\<close>

definition urlEncode :: "string \<Rightarrow> string" where
  "urlEncode s = QueryEscape s"

definition quote_pair :: string where
  "quote_pair = [CHR 39, CHR 39]"

definition disposition :: "string \<Rightarrow> string \<Rightarrow> string" where
  "disposition nm ext = ''attachment; filename*=UTF-8'' @ quote_pair @ urlEncode nm @ ext"

record Sent =
  sn_Disposition :: string
  sn_Type :: string
  sn_Length :: "int option"

text \<open>The file as it opens (None: it does not). The headers are set before \<open>ServeContent\<close> sends the body.\<close>

definition serveFile :: "bytes option \<Rightarrow> Share.Share \<Rightarrow> Reply + Sent \<times> bytes" where
  "serveFile content sh = (case content of
      None \<Rightarrow> Inl (RError 500 ''file unavailable'')
    | Some b \<Rightarrow> Inr (\<lparr>sn_Disposition = disposition (sh_Name sh) [], sn_Type = ''application/octet-stream'',
        sn_Length = Some (sh_Size sh)\<rparr>, b))"

text \<open>The archive goes through a pipe; an error of \<open>StreamZip\<close> ends the body after the entries written so far.\<close>

definition serveZip :: "Node option \<Rightarrow> Share.Share \<Rightarrow> Sent \<times> (string \<times> bytes) list \<times> bool" where
  "serveZip root sh = (let (err, z) = StreamZip (Base (sh_Path sh)) root in
     (\<lparr>sn_Disposition = disposition (sh_Name sh) ''.zip'', sn_Type = ''application/zip'', sn_Length = None\<rparr>, z, err = None))"

definition FileName :: "string \<Rightarrow> string" where
  "FileName path = Base path"

section \<open>The download page\<close>

record downloadPageData =
  pd_Token :: string
  pd_Name :: string
  pd_IsDir :: bool
  pd_SizeHuman :: string
  pd_HasPassword :: bool
  pd_Error :: string
  pd_MaxDownloads :: int
  pd_RemainingDownloads :: int
  pd_RemainingTime :: string

definition renderDownloadPage :: "(int \<Rightarrow> int \<Rightarrow> string) \<Rightarrow> int \<Rightarrow> Share.Share \<Rightarrow> string \<Rightarrow> downloadPageData option" where
  "renderDownloadPage fmt1 now sh errMsg = map_option (\<lambda>hum. \<lparr>pd_Token = sh_Token sh, pd_Name = sh_Name sh, pd_IsDir = sh_IsDir sh,
     pd_SizeHuman = hum, pd_HasPassword = sh_HasPassword sh, pd_Error = errMsg, pd_MaxDownloads = sh_MaxDownloads sh,
     pd_RemainingDownloads = RemainingDownloads sh, pd_RemainingTime = formatDuration (RemainingTime now sh)\<rparr>)
     (humanizeSize fmt1 (sh_Size sh))"

section \<open>Properties\<close>

text \<open>How a browser reads the name in the header (RFC 5987): percent triples only, a plus sign is itself.\<close>

fun percent_decode :: "string \<Rightarrow> string option" where
  "percent_decode [] = Some []"
| "percent_decode (c # s) =
    (if c = CHR ''%'' then
       (case s of
          a # b # r \<Rightarrow> (case (unhex a, unhex b) of
              (Some x, Some y) \<Rightarrow> map_option ((#) (char_of (16 * x + y))) (percent_decode r)
            | _ \<Rightarrow> None)
        | _ \<Rightarrow> None)
     else map_option ((#) c) (percent_decode s))"

lemma decode_escape_char:
  "percent_decode (escape_char c @ s) = map_option ((#) (if c = CHR '' '' then CHR ''+'' else c)) (percent_decode s)"
proof (cases "unreserved c")
  case True
  then have "c \<noteq> CHR ''%''" "c \<noteq> CHR '' ''" using unreserved_not by auto
  with True show ?thesis by (simp add: escape_char_def)
next
  case False
  then show ?thesis using char_div [of c] by (simp add: escape_char_def)
qed

lemma decode_urlEncode: "percent_decode (urlEncode s) = Some (map (\<lambda>c. if c = CHR '' '' then CHR ''+'' else c) s)"
  by (induction s) (simp_all add: urlEncode_def QueryEscape_def decode_escape_char)

text \<open>The saved name: a download of a readable file carries the file's bytes, and its header names the shared file
  with every space turned into a plus sign, so that it is the right name exactly when it has no space; the
  same text read as a form value is right.\<close>

theorem download_name_loses_spaces:
  "\<exists>sent enc. serveFile (Some b) sh = Inr (sent, b) \<and> sn_Disposition sent = ''attachment; filename*=UTF-8'' @ quote_pair @ enc \<and>
    percent_decode enc = Some (map (\<lambda>c. if c = CHR '' '' then CHR ''+'' else c) (sh_Name sh)) \<and>
    (percent_decode enc = Some (sh_Name sh) \<longleftrightarrow> CHR '' '' \<notin> set (sh_Name sh)) \<and> QueryUnescape enc = Some (sh_Name sh)"
proof -
  have "map (\<lambda>c. if c = CHR '' '' then CHR ''+'' else c) s = s \<longleftrightarrow> CHR '' '' \<notin> set s" for s
    by (induction s) auto
  then show ?thesis
    by (intro exI [of _ "\<lparr>sn_Disposition = disposition (sh_Name sh) [], sn_Type = ''application/octet-stream'', sn_Length = Some (sh_Size sh)\<rparr>"]
      exI [of _ "urlEncode (sh_Name sh)"])
      (simp add: serveFile_def disposition_def decode_urlEncode, simp add: urlEncode_def)
qed

end
