(* ===== verification/ShareServer.thy ===== *)
theory ShareServer
  imports Download
begin

text \<open>
  The share server as a whole (\<open>core/share/server.go\<close>: \<open>NewServer\<close>, \<open>Port\<close>, \<open>Start\<close>, \<open>Close\<close>): which handler answers
  which request, and what remains to be had after \<open>Close\<close>. Matching a path with its pattern and cutting the token
  out of it is chi's, so a request comes with the pattern that it matched.
\<close>

section \<open>The server\<close>

record SServer =
  ss_manager :: SManager
  ss_port :: int
  ss_listening :: bool

definition NewSServer :: "SManager \<Rightarrow> int \<Rightarrow> SServer" where
  "NewSServer m port = \<lparr>ss_manager = m, ss_port = port, ss_listening = True\<rparr>"

text \<open>The patterns of \<open>Start\<close>: the page (with or without \<open>?dl=1\<close>), the form with its password, the download without
  the page, the status, the link as text.\<close>

datatype SPattern = GetPage bool | PostForm string | GetRaw string | GetStatus | GetQR

record SRequest =
  sq_pattern :: SPattern
  sq_token :: string
  sq_remote :: string
  sq_host :: string
  sq_tls :: bool
  sq_opens :: bool

definition share_request :: "(bytes \<Rightarrow> bytes) \<Rightarrow> int \<Rightarrow> SRequest \<Rightarrow> SServer \<Rightarrow> Reply \<times> SServer" where
  "share_request sha now q s =
    (let m = ss_manager s; t = sq_token q; rem = sq_remote q;
         (r, m') = (case sq_pattern q of
             GetPage dl \<Rightarrow> handleDownloadPage now t rem dl (sq_opens q) m
           | PostForm pw \<Rightarrow> handleDownload sha now t rem pw (sq_opens q) m
           | GetRaw pw \<Rightarrow> handleDownload sha now t rem pw (sq_opens q) m
           | GetStatus \<Rightarrow> handleStatus now t rem m
           | GetQR \<Rightarrow> handleQR now t rem (sq_tls q) (sq_host q) (ss_port s) m)
     in (r, s\<lparr>ss_manager := m'\<rparr>))"

text \<open>\<open>Close\<close> stops all shares and closes the listener; connections that are open stay open, and so do downloads.\<close>

definition SServer_Close :: "SServer \<Rightarrow> SServer" where
  "SServer_Close s = s\<lparr>ss_manager := StopAll (ss_manager s), ss_listening := False\<rparr>"

fun share_requests :: "(bytes \<Rightarrow> bytes) \<Rightarrow> (int \<times> SRequest) list \<Rightarrow> SServer \<Rightarrow> Reply list \<times> SServer" where
  "share_requests sha [] s = ([], s)"
| "share_requests sha ((now, q) # qs) s = (let (r, s1) = share_request sha now q s; (rs, s2) = share_requests sha qs s1 in (r # rs, s2))"

section \<open>Properties\<close>

lemma GetShare_closed: "sm_shares m = [] \<Longrightarrow> GetShare now t ip m = (Inl ErrShareNotFound, recordTokenFail now ip m)"
  by (simp add: GetShare_def)

lemma recordTokenFail_keeps: "sm_shares (recordTokenFail now ip m) = sm_shares m"
  by (simp add: recordTokenFail_def Let_def)

lemma request_closed:
  assumes "sm_shares (ss_manager s) = []"
  shows "\<exists>msg. fst (share_request sha now q s) = RError (if ValidateToken (sq_token q) = None then 404 else 400) msg \<and>
    sm_shares (ss_manager (snd (share_request sha now q s))) = []"
  using assms
  by (cases "sq_pattern q")
    (auto simp: share_request_def handleDownloadPage_def handleDownload_def handleStatus_def handleQR_def after_check_def
      page_check_def download_check_def lookup_share_def GetShare_closed recordTokenFail_keeps Let_def)

text \<open>After \<open>Close\<close> nothing is to be had on the connections that are still open: every further request, whatever it asks
  for, is answered with 400 if its token has the wrong form and with 404 otherwise.\<close>

theorem closed_server_serves_nothing:
  assumes "share_requests sha qs (SServer_Close s) = (rs, s')" "i < length qs"
  shows "length rs = length qs \<and>
    (\<exists>msg. rs ! i = RError (if ValidateToken (sq_token (snd (qs ! i))) = None then 404 else 400) msg)"
proof -
  have "length rs = length qs \<and> (\<forall>i < length qs. \<exists>msg. rs ! i =
      RError (if ValidateToken (sq_token (snd (qs ! i))) = None then 404 else 400) msg)"
    if "share_requests sha qs u = (rs, u')" "sm_shares (ss_manager u) = []" for qs rs u u'
    using that
  proof (induction qs arbitrary: rs u)
    case (Cons nq qs)
    obtain now q where nq: "nq = (now, q)" by (cases nq)
    obtain r u1 rs1 where u1: "share_request sha now q u = (r, u1)" "share_requests sha qs u1 = (rs1, u')" "rs = r # rs1"
      using Cons.prems(1) by (auto simp: nq split: prod.splits)
    with request_closed [OF Cons.prems(2), of sha now q] obtain msg where
      "r = RError (if ValidateToken (sq_token q) = None then 404 else 400) msg" "sm_shares (ss_manager u1) = []" by auto
    with Cons.IH [OF u1(2)] show ?case by (auto simp: u1(3) nq nth_Cons split: nat.split)
  qed simp
  from this [OF assms(1)] assms(2) show ?thesis by (simp add: SServer_Close_def StopAll_def)
qed

definition demo_q :: "string \<Rightarrow> SRequest" where
  "demo_q t = \<lparr>sq_pattern = GetPage True, sq_token = t, sq_remote = ''10.0.0.2:5000'', sq_host = [], sq_tls = False, sq_opens = True\<rparr>"

lemma closed_server_serves_nothing_witness:
  "\<exists>r1 r2 s'. share_requests (\<lambda>b. b) [(7, demo_q ''x''), (8, demo_q (replicate 43 (CHR ''A'')))]
      (SServer_Close (NewSServer (NewSManager 64) 52101)) = ([RError 400 r1, RError 404 r2], s')"
proof -
  let ?qs = "[(7, demo_q ''x''), (8, demo_q (replicate 43 (CHR ''A'')))]"
  obtain rs s' where r: "share_requests (\<lambda>b. b) ?qs (SServer_Close (NewSServer (NewSManager 64) 52101)) = (rs, s')" by (metis prod.exhaust)
  have v: "ValidateToken (replicate 43 (CHR ''A'')) = None" "ValidateToken ''x'' \<noteq> None" by code_simp+
  from closed_server_serves_nothing [OF r, of 0] closed_server_serves_nothing [OF r, of 1] v
  have "length rs = 2" "\<exists>m. rs ! 0 = RError 400 m" "\<exists>m. rs ! 1 = RError 404 m" by (auto simp: demo_q_def)
  then obtain m1 m2 where "rs = [RError 400 m1, RError 404 m2]" by (auto simp: length_Suc_conv numeral_2_eq_2)
  with r show ?thesis by blast
qed


end
