(* ===== verification/ProbeRound.thy ===== *)
theory ProbeRound
  imports Discovery
begin

text \<open>
  One round of probes (\<open>probeAll\<close> of \<open>core/discovery/prober.go\<close>): the listed peers are probed in parallel, and the
  goroutines update the failure counts and the device table in whatever order they finish.
\<close>

text \<open>The order in which the probes finish, and whether each peer answered. No peer: nothing is done.\<close>

definition probeAll :: "string list \<Rightarrow> (string \<Rightarrow> bool) \<Rightarrow> Prober \<Rightarrow> Prober" where
  "probeAll order answers p = fold (\<lambda>i. probeOne (answers i) i) order p"

text \<open>An order is a possible one when it finishes each peer of the snapshot \<open>Devices\<close> once.\<close>

definition finishing_order :: "string list \<Rightarrow> Prober \<Rightarrow> bool" where
  "finishing_order order p \<longleftrightarrow> mset order = mset (map dv_ID (Devices (pr_disc p)))"

section \<open>One probe and the other peers\<close>

lemma setStatus_others:
  assumes "disc_ok fl d" "j \<noteq> i"
  shows "snapshot j (setStatus i st d) = snapshot j d"
proof (cases "map_of (dc_devices d) i")
  case (Some a)
  have "b \<noteq> a" if "map_of (dc_devices d) j = Some b" for b
    using assms that Some by (auto simp: disc_ok_def distinct_map dest!: map_of_SomeD dest: inj_onD [where x = "(j, b)" and y = "(i, a)"])
  then show ?thesis using Some
    by (cases "map_of (dc_devices d) j") (auto simp: setStatus_def snapshot_def Let_def)
qed (simp add: setStatus_def)

lemma probeOne_ok: "prober_ok p \<Longrightarrow> prober_ok (probeOne ok i p)"
  by (simp add: probeOne_def onFailure_ok onSuccess_ok)

lemma probeOne_others:
  assumes "prober_ok p" "j \<noteq> i"
  shows "snapshot j (pr_disc (probeOne ok i p)) = snapshot j (pr_disc p) \<and> failures j (probeOne ok i p) = failures j p"
proof -
  have "disc_ok (\<lambda>j. failures j p) (pr_disc p)" using assms(1) by (simp add: prober_ok_def)
  note st = setStatus_others [OF this assms(2)]
  show ?thesis using assms(2) st
    by (auto simp: probeOne_def onSuccess_def onFailure_def Let_def failures_put failures_del split: option.split)
qed

definition status :: "string \<Rightarrow> Prober \<Rightarrow> string option" where
  "status i p = map_option dv_Status (snapshot i (pr_disc p))"

lemma probeOne_self:
  assumes "prober_ok p" "status i p \<noteq> None"
  shows "status i (probeOne ok i p) = Some (if ok \<or> failures i p < 2 then StatusOnline else StatusGray) \<and>
    failures i (probeOne ok i p) = (if ok then 0 else failures i p + 1)"
proof -
  obtain dev where dev: "snapshot i (pr_disc p) = Some dev" using assms(2) by (auto simp: status_def)
  have "disc_ok (\<lambda>j. failures j p) (pr_disc p)" using assms(1) by (simp add: prober_ok_def)
  note st = snapshot_setStatus [OF this, of i]
  have "status i (probeOne True i p) = Some StatusOnline"
    using dev st [of StatusOnline] online_or_gray [OF assms(1) dev]
    by (auto simp: status_def probeOne_def onSuccess_def Let_def snapshot_None [symmetric] maxProbeFailures_def split: option.split)
  moreover have "failures i (onSuccess i p) = 0 \<and> failures i (onFailure i p) = failures i p + 1"
    by (simp add: onSuccess_def onFailure_def Let_def failures_def map_of_gdel map_of_gput split: option.split)
  ultimately show ?thesis
    using probe_fail_status [OF assms(1) dev] by (cases ok) (auto simp: status_def probeOne_def maxProbeFailures_def)
qed

lemma probes_effect:
  assumes "prober_ok p" "distinct order" "\<And>i. i \<in> set order \<Longrightarrow> status i p \<noteq> None"
  shows "status i (probeAll order ans p) = (if i \<in> set order then Some (if ans i \<or> failures i p < 2 then StatusOnline else StatusGray)
      else status i p) \<and>
    failures i (probeAll order ans p) = (if i \<in> set order then (if ans i then 0 else failures i p + 1) else failures i p)"
  using assms
proof (induction order arbitrary: p)
  case Nil
  then show ?case by (simp add: probeAll_def)
next
  case (Cons k order)
  let ?q = "probeOne (ans k) k p"
  have oth: "status j ?q = status j p \<and> failures j ?q = failures j p" if "j \<noteq> k" for j
    using probeOne_others [OF Cons.prems(1) that] by (simp add: status_def)
  have "status j ?q \<noteq> None" if "j \<in> set order" for j
    using Cons.prems(2,3) oth [of j] that by (cases "j = k") auto
  with Cons.IH [of ?q] Cons.prems probeOne_ok
  have IH: "status i (probeAll order ans ?q) = (if i \<in> set order then Some (if ans i \<or> failures i ?q < 2 then StatusOnline else StatusGray)
      else status i ?q) \<and>
    failures i (probeAll order ans ?q) = (if i \<in> set order then (if ans i then 0 else failures i ?q + 1) else failures i ?q)"
    by (simp add: probeAll_def)
  have step: "probeAll (k # order) ans p = probeAll order ans ?q" by (simp add: probeAll_def)
  show ?case
  proof (cases "i = k")
    case True
    then show ?thesis
      using IH step probeOne_self [OF Cons.prems(1), of k "ans k"] Cons.prems(2,3) by simp
  qed (use IH step oth in simp)
qed

lemma devices_listed:
  assumes "prober_ok p" "finishing_order order p"
  shows "distinct order \<and> (i \<in> set order \<longleftrightarrow> status i p \<noteq> None)"
proof -
  let ?d = "pr_disc p"
  have ok: "gwf (dc_devices ?d)" "\<And>i a. (i, a) \<in> set (dc_devices ?d) \<Longrightarrow> dv_ID (dc_heap ?d ! a) = i"
    using assms(1) by (fastforce simp: prober_ok_def disc_ok_def entry_ok_def Let_def)+
  have "mset (map dv_ID (Devices ?d)) = mset (map (\<lambda>(i, a). dv_ID (dc_heap ?d ! a)) (dc_devices ?d))"
    by (simp add: Devices_def SortDevices_def mset_map [symmetric] del: mset_map) (simp add: image_mset.compositionality comp_def split_def)
  also have "map (\<lambda>(i, a). dv_ID (dc_heap ?d ! a)) (dc_devices ?d) = map fst (dc_devices ?d)"
    using ok(2) by auto
  finally have m: "mset order = mset (map fst (dc_devices ?d))" using assms(2) by (simp add: finishing_order_def)
  then have "distinct order" using ok(1) by (metis gwf_def mset_eq_imp_distinct_iff)
  moreover have "i \<in> set order \<longleftrightarrow> map_of (dc_devices ?d) i \<noteq> None"
    using m by (metis list.set_map map_of_eq_None_iff set_mset_mset)
  ultimately show ?thesis by (simp add: status_def snapshot_def)
qed

text \<open>C21: A round of probes has one result, whatever the order in which the goroutines finish: after any run, each listed
  peer is online if it answered or if this is at most its second failure, and gray otherwise; its count is
  zero or one more; nothing else changes.\<close>

theorem probe_round_order_irrelevant:
  assumes "p = drun xs (newProber (NewDisc self))" "finishing_order order p"
  shows "status i (probeAll order answers p) =
      map_option (\<lambda>_. if answers i \<or> failures i p < 2 then StatusOnline else StatusGray) (status i p) \<and>
    failures i (probeAll order answers p) =
      (if status i p = None then failures i p else if answers i then 0 else failures i p + 1)"
proof -
  have ok: "prober_ok p" using drun_ok assms(1) by simp
  note l = devices_listed [OF ok assms(2)]
  show ?thesis
    using probes_effect [OF ok, of order i answers] l l [of i] by (auto simp: l)
qed

lemma probe_round_order_irrelevant_witness:
  "status demo_hash (probeAll [demo_hash] (\<lambda>_. False) demo_failing) = Some StatusGray \<and>
   failures demo_hash (probeAll [demo_hash] (\<lambda>_. False) demo_failing) = 3"
proof -
  have "finishing_order [demo_hash] demo_failing"
    by (simp add: finishing_order_def demo_failing_def demo_net_def Devices_def SortDevices_def demo_dev_def)
  moreover have "status demo_hash demo_failing = Some StatusOnline" "failures demo_hash demo_failing = 2"
    by (simp add: status_def demo_failing_def demo_snapshot, simp add: demo_dev_def) (simp add: demo_failing_def failures_def)
  ultimately show ?thesis
    using probe_round_order_irrelevant [OF demo_failing_run, of "[demo_hash]" demo_hash "\<lambda>_. False"] by simp
qed

end
