(* ===== verification/DiscRun.thy ===== *)
theory DiscRun
  imports ProbeRound
begin

text \<open>
  Discovery while it runs (\<open>core/discovery/discovery.go\<close>: the goroutines of \<open>Start\<close>, \<open>consumeEntries\<close>,
  \<open>runReaper\<close>, \<open>Events\<close>, \<open>Stop\<close>; \<open>core/discovery/prober.go\<close>: \<open>run\<close>): three workers, the probes of a round, zeroconf,
  the subscriber and \<open>Stop\<close> take their steps in any order. A handler changes the table under the lock and sends
  its events after it has released the lock, so the two are steps of their own. A send on the closed event channel
  panics, also inside a select with a default.
\<close>

section \<open>Handlers apart from their events\<close>

type_synonym Entry = "(string list \<times> IP option list \<times> IP option list \<times> string) option"
type_synonym DEvent = "EventType \<times> EvDevice"

definition with_events :: "DEvent list \<Rightarrow> Prober \<Rightarrow> Prober" where
  "with_events evs p = p\<lparr>pr_disc := (pr_disc p)\<lparr>dc_events := evs\<rparr>\<rparr>"

text \<open>A handler of at most one event: the table it leaves and the event it is about to send.\<close>

definition apart :: "(Prober \<Rightarrow> Prober) \<Rightarrow> Prober \<Rightarrow> Prober \<times> DEvent list" where
  "apart f p = (let p' = f (with_events [] p) in
     (with_events (dc_events (pr_disc p)) p', dc_events (pr_disc p')))"

definition entry_apart :: "int \<Rightarrow> Entry \<Rightarrow> Prober \<Rightarrow> Prober \<times> DEvent list" where
  "entry_apart now e = apart (\<lambda>p. p\<lparr>pr_disc := handleEntry now e (pr_disc p)\<rparr>)"

definition reap_apart :: "int \<Rightarrow> Prober \<Rightarrow> Prober \<times> DEvent list" where
  "reap_apart now p = (let d = pr_disc p in
     (p\<lparr>pr_disc := d\<lparr>dc_devices := filter (\<lambda>(i, a). \<not> stale now d a) (dc_devices d)\<rparr>\<rparr>,
      map (\<lambda>(i, a). (EventOffline, Snap (dc_heap d ! a))) (filter (\<lambda>(i, a). stale now d a) (dc_devices d))))"

section \<open>State\<close>

text \<open>A worker waits in its loop, has events left to send, or has returned.\<close>

datatype worker = Waiting | Sending "DEvent list" | Exited

datatype once = NotStopped | Stopping | Stopped

text \<open>\<open>lf_cancel\<close>: \<open>d.cancel\<close> is set; \<open>lf_ctx\<close>: its context is cancelled; \<open>lf_ended\<close>: zeroconf has closed the channel
  of entries; \<open>lf_closed\<close>: the channel \<open>d.closed\<close> is closed; \<open>lf_probes\<close>: the probes of the round, at their
  request (None) or with events left to send.\<close>

record Life =
  lf_p :: Prober
  lf_server :: bool
  lf_cancel :: bool
  lf_ctx :: bool
  lf_entries :: "Entry list"
  lf_ended :: bool
  lf_closed :: bool
  lf_consumer :: worker
  lf_reaper :: worker
  lf_prober :: bool
  lf_probes :: "(string, DEvent list option) gomap"
  lf_stop :: once
  lf_events_closed :: bool
  lf_panic :: bool

definition New :: "string \<Rightarrow> Life" where
  "New self = \<lparr>lf_p = newProber (NewDisc self), lf_server = False, lf_cancel = False, lf_ctx = False, lf_entries = [],
     lf_ended = False, lf_closed = False, lf_consumer = Exited, lf_reaper = Exited, lf_prober = False, lf_probes = [],
     lf_stop = NotStopped, lf_events_closed = False, lf_panic = False\<rparr>"

definition busy :: "DEvent list \<Rightarrow> worker" where
  "busy evs = (if evs = [] then Waiting else Sending evs)"

definition send :: "DEvent \<Rightarrow> Life \<Rightarrow> Life" where
  "send ev s = (if lf_events_closed s then s\<lparr>lf_panic := True\<rparr>
     else s\<lparr>lf_p := (lf_p s)\<lparr>pr_disc := emit ev (pr_disc (lf_p s))\<rparr>\<rparr>)"

section \<open>Steps\<close>

text \<open>The end of a \<open>Start\<close> that succeeds: a new context, a new channel, a new prober, three goroutines. It is not
  called while those of an earlier one run.\<close>

definition idle :: "Life \<Rightarrow> bool" where
  "idle s \<longleftrightarrow> lf_consumer s = Exited \<and> lf_reaper s = Exited \<and> \<not> lf_prober s"

definition spawn :: "Life \<Rightarrow> Life option" where
  "spawn s = (if \<not> idle s then None
     else Some (s\<lparr>lf_p := newProber (pr_disc (lf_p s)), lf_server := True, lf_cancel := True, lf_ctx := False,
       lf_entries := [], lf_ended := False, lf_consumer := Waiting, lf_reaper := Waiting, lf_prober := True,
       lf_probes := []\<rparr>))"

datatype cstep = CRecv int | CSend | CExit

fun consumeEntries :: "cstep \<Rightarrow> Life \<Rightarrow> Life option" where
  "consumeEntries (CRecv now) s = (case (lf_consumer s, lf_entries s) of
      (Waiting, e # es) \<Rightarrow> (let (p, evs) = entry_apart now e (lf_p s) in
        Some (s\<lparr>lf_p := p, lf_entries := es, lf_consumer := busy evs\<rparr>))
    | _ \<Rightarrow> None)"
| "consumeEntries CSend s = (case lf_consumer s of
      Sending (ev # evs) \<Rightarrow> Some ((send ev s)\<lparr>lf_consumer := busy evs\<rparr>)
    | _ \<Rightarrow> None)"
| "consumeEntries CExit s = (if lf_consumer s = Waiting \<and> lf_entries s = [] \<and> lf_ended s
     then Some (if lf_closed s then s\<lparr>lf_panic := True\<rparr> else s\<lparr>lf_closed := True, lf_consumer := Exited\<rparr>)
     else None)"

datatype rstep = RTick int | RSend | RExit

fun runReaper :: "rstep \<Rightarrow> Life \<Rightarrow> Life option" where
  "runReaper (RTick now) s = (if lf_reaper s \<noteq> Waiting then None
     else let (p, evs) = reap_apart now (lf_p s) in Some (s\<lparr>lf_p := p, lf_reaper := busy evs\<rparr>))"
| "runReaper RSend s = (case lf_reaper s of
      Sending (ev # evs) \<Rightarrow> Some ((send ev s)\<lparr>lf_reaper := busy evs\<rparr>)
    | _ \<Rightarrow> None)"
| "runReaper RExit s = (if lf_reaper s = Waiting \<and> lf_ctx s then Some (s\<lparr>lf_reaper := Exited\<rparr>) else None)"

definition left :: "string \<Rightarrow> DEvent list \<Rightarrow> Life \<Rightarrow> Life" where
  "left i evs s = s\<lparr>lf_probes := (if evs = [] then gdel i (lf_probes s) else gput i (Some evs) (lf_probes s))\<rparr>"

datatype prstep = PTick | PAnswer string bool | PSend string | PExit

fun prober_run :: "prstep \<Rightarrow> Life \<Rightarrow> Life option" where
  "prober_run PTick s = (if lf_prober s \<and> lf_probes s = []
     then Some (s\<lparr>lf_probes := map (\<lambda>d. (dv_ID d, None)) (Devices (pr_disc (lf_p s)))\<rparr>) else None)"
| "prober_run (PAnswer i ok) s = (if map_of (lf_probes s) i \<noteq> Some None then None
     else let (p, evs) = apart (probeOne ok i) (lf_p s) in Some (left i evs (s\<lparr>lf_p := p\<rparr>)))"
| "prober_run (PSend i) s = (case map_of (lf_probes s) i of
      Some (Some (ev # evs)) \<Rightarrow> Some (left i evs (send ev s))
    | _ \<Rightarrow> None)"
| "prober_run PExit s = (if lf_prober s \<and> lf_probes s = [] \<and> lf_ctx s then Some (s\<lparr>lf_prober := False\<rparr>) else None)"

text \<open>The body of \<open>stopOnce\<close>: up to the wait, and from the end of the wait. Another call waits for this one.\<close>

datatype sstep = StopBegin | StopEnd

fun Discovery_Stop :: "sstep \<Rightarrow> Life \<Rightarrow> Life option" where
  "Discovery_Stop StopBegin s = (if lf_stop s \<noteq> NotStopped then None
     else Some (s\<lparr>lf_stop := Stopping, lf_ctx := lf_ctx s \<or> lf_cancel s, lf_cancel := False, lf_server := False\<rparr>))"
| "Discovery_Stop StopEnd s = (if lf_stop s = Stopping \<and> idle s
     then Some (s\<lparr>lf_stop := Stopped, lf_events_closed := True\<rparr>) else None)"

text \<open>Zeroconf delivers an entry while its channel has room, and closes the channel after the context is cancelled;
  the subscriber takes an event.\<close>

definition browseEntryBuffer :: nat where "browseEntryBuffer = 64"

datatype estep = ZEntry Entry | ZClose | Take

fun outside :: "estep \<Rightarrow> Life \<Rightarrow> Life option" where
  "outside (ZEntry e) s = (if lf_consumer s = Exited \<or> lf_ended s \<or> browseEntryBuffer \<le> length (lf_entries s) then None
     else Some (s\<lparr>lf_entries := lf_entries s @ [e]\<rparr>))"
| "outside ZClose s = (if lf_ctx s \<and> \<not> lf_ended s then Some (s\<lparr>lf_ended := True\<rparr>) else None)"
| "outside Take s = Some (s\<lparr>lf_p := with_events (tl (dc_events (pr_disc (lf_p s)))) (lf_p s)\<rparr>)"

datatype lstep = Start | Consumer cstep | Reaper rstep | Probing prstep | Stop sstep | Outside estep

text \<open>A panic ends the process.\<close>

definition lstep_run :: "lstep \<Rightarrow> Life \<Rightarrow> Life option" where
  "lstep_run a s = (if lf_panic s then None
     else case a of
       Start \<Rightarrow> spawn s
     | Consumer c \<Rightarrow> consumeEntries c s
     | Reaper r \<Rightarrow> runReaper r s
     | Probing q \<Rightarrow> prober_run q s
     | Stop x \<Rightarrow> Discovery_Stop x s
     | Outside e \<Rightarrow> outside e s)"

fun lruns :: "lstep list \<Rightarrow> Life \<Rightarrow> Life option" where
  "lruns [] s = Some s"
| "lruns (a # as) s = (case lstep_run a s of None \<Rightarrow> None | Some t \<Rightarrow> lruns as t)"

section \<open>The pieces make the whole\<close>

definition joined :: "Prober \<times> DEvent list \<Rightarrow> Prober" where
  "joined x = (fst x)\<lparr>pr_disc := fold emit (snd x) (pr_disc (fst x))\<rparr>"

lemma with_events_simps [simp]: "with_events evs (with_events evs' p) = with_events evs p"
  "pr_disc (with_events evs p) = (pr_disc p)\<lparr>dc_events := evs\<rparr>" "pr_failures (with_events evs p) = pr_failures p"
  "failures i (with_events evs p) = failures i p"
  by (simp_all add: with_events_def)

lemma events_same [simp]: "d\<lparr>dc_events := dc_events d\<rparr> = d"
  by simp

lemma setStatus_apart: "fold emit (dc_events (setStatus i st (d\<lparr>dc_events := []\<rparr>)))
    ((setStatus i st (d\<lparr>dc_events := []\<rparr>))\<lparr>dc_events := dc_events d\<rparr>) = setStatus i st d"
  by (cases "map_of (dc_devices d) i") (simp_all add: setStatus_def Let_def emit_def eventBufferSize_def)

lemma snapshot_events [simp]: "snapshot i (d\<lparr>dc_events := evs\<rparr>) = snapshot i d"
  by (simp add: snapshot_def)

lemma handle_apart: "fold emit (dc_events (handleEntry now e (d\<lparr>dc_events := []\<rparr>)))
    ((handleEntry now e (d\<lparr>dc_events := []\<rparr>))\<lparr>dc_events := dc_events d\<rparr>) = handleEntry now e d"
proof (cases e)
  case (Some x)
  obtain ls v4 v6 host where x: "x = (ls, v4, v6, host)" by (cases x)
  show ?thesis
  proof (cases "ParseTXT ls")
    case (Inr rec)
    let ?i = "tx_PubHash rec"
    show ?thesis
    proof (cases "?i = dc_self d")
      case False
      show ?thesis
      proof (cases "map_of (dc_devices d) ?i")
        case None
        with False show ?thesis by (simp add: Some x Inr handleEntry_def Let_def emit_def eventBufferSize_def)
      next
        case ptr: (Some a)
        obtain dev ch where "announced rec (ipsToStrings v4) (ipsToStrings v6) host now (dc_heap d ! a) = (dev, ch)"
          by (cases "announced rec (ipsToStrings v4) (ipsToStrings v6) host now (dc_heap d ! a)")
        with False ptr show ?thesis by (cases ch) (simp_all add: Some x Inr handleEntry_def Let_def emit_def eventBufferSize_def)
      qed
    qed (simp add: Some x Inr handleEntry_def)
  qed (simp add: Some x handleEntry_def)
qed (simp add: handleEntry_def)

lemma success_apart: "joined (apart (onSuccess i) p) = onSuccess i p"
proof (cases p)
  case (fields d fl)
  show ?thesis
    by (cases "snapshot i d"; cases "failures i p = 0";
      simp add: fields joined_def apart_def Let_def onSuccess_def failures_def with_events_def setStatus_apart)
qed

lemma failure_apart: "joined (apart (onFailure i) p) = onFailure i p"
proof (cases p)
  case (fields d fl)
  show ?thesis
    by (cases "failures i p + 1 < maxProbeFailures";
      simp add: fields joined_def apart_def Let_def onFailure_def failures_def with_events_def setStatus_apart)
qed

text \<open>Changing the table and then sending the events is what the handlers of theory Discovery do in one step.\<close>

theorem handlers_apart:
  "joined (entry_apart now e p) = p\<lparr>pr_disc := handleEntry now e (pr_disc p)\<rparr> \<and>
   joined (reap_apart now p) = p\<lparr>pr_disc := reap now (pr_disc p)\<rparr> \<and>
   joined (apart (probeOne ok i) p) = probeOne ok i p"
proof (intro conjI)
  show "joined (entry_apart now e p) = p\<lparr>pr_disc := handleEntry now e (pr_disc p)\<rparr>"
    by (cases p) (simp add: joined_def entry_apart_def apart_def Let_def with_events_def handle_apart)
  show "joined (reap_apart now p) = p\<lparr>pr_disc := reap now (pr_disc p)\<rparr>"
    by (simp add: joined_def reap_apart_def reap_def Let_def fold_map comp_def case_prod_unfold)
  show "joined (apart (probeOne ok i) p) = probeOne ok i p"
    by (cases ok) (simp_all add: probeOne_def [abs_def] success_apart failure_apart)
qed

section \<open>One life: a start, then anything but another start\<close>

text \<open>The invariant.\<close>

definition life_ok :: "Life \<Rightarrow> bool" where
  "life_ok s \<longleftrightarrow> \<not> lf_panic s \<and> prober_ok (lf_p s) \<and> (lf_events_closed s \<longrightarrow> idle s) \<and> (\<not> lf_prober s \<longrightarrow> lf_probes s = []) \<and>
    (lf_consumer s = Exited \<longleftrightarrow> lf_closed s) \<and> (lf_closed s \<longrightarrow> lf_ended s) \<and> (lf_ended s \<longrightarrow> lf_ctx s) \<and>
    (lf_stop s = NotStopped \<longrightarrow> lf_cancel s \<and> \<not> lf_ctx s) \<and> (lf_stop s \<noteq> NotStopped \<longrightarrow> lf_ctx s) \<and>
    (lf_stop s = Stopped \<longleftrightarrow> lf_events_closed s) \<and> gwf (lf_probes s) \<and>
    lf_consumer s \<noteq> Sending [] \<and> lf_reaper s \<noteq> Sending [] \<and> (\<forall>i. map_of (lf_probes s) i \<noteq> Some (Some []))"

lemma prober_ok_events: "prober_ok p \<Longrightarrow> length evs \<le> eventBufferSize \<Longrightarrow> prober_ok (with_events evs p)"
  by (auto simp: prober_ok_def disc_ok_def)

lemma prober_ok_len: "prober_ok p \<Longrightarrow> length (dc_events (pr_disc p)) \<le> eventBufferSize"
  by (simp add: prober_ok_def disc_ok_def)

lemma apart_ok: "(\<And>q. prober_ok q \<Longrightarrow> prober_ok (f q)) \<Longrightarrow> prober_ok p \<Longrightarrow> prober_ok (fst (apart f p))"
  by (simp add: apart_def Let_def prober_ok_events prober_ok_len)

lemma entry_apart_ok: "prober_ok p \<Longrightarrow> prober_ok (fst (entry_apart now e p))"
  unfolding entry_apart_def by (rule apart_ok) (use dstep_ok [of _ "DEntry now e"] in auto)

lemma reap_apart_ok: "prober_ok p \<Longrightarrow> prober_ok (fst (reap_apart now p))"
  by (auto simp: reap_apart_def Let_def prober_ok_def disc_ok_def distinct_map_filter gwf_filter)

lemma send_ok: "\<not> lf_events_closed s \<Longrightarrow> prober_ok (lf_p s) \<Longrightarrow>
  send ev s = s\<lparr>lf_p := lf_p (send ev s)\<rparr> \<and> prober_ok (lf_p (send ev s))"
  by (simp add: send_def prober_ok_def)

lemma probe_apart_ok: "prober_ok p \<Longrightarrow> prober_ok (fst (apart (probeOne ok i) p))"
  by (rule apart_ok) (rule probeOne_ok)

lemma busy_not_Exited [simp]: "busy evs \<noteq> Exited" "busy evs \<noteq> Sending []" "(busy evs = Waiting) = (evs = [])"
  by (simp_all add: busy_def)

lemma send_fields [simp]: "lf_consumer (send ev s) = lf_consumer s" "lf_reaper (send ev s) = lf_reaper s"
  "lf_prober (send ev s) = lf_prober s" "lf_probes (send ev s) = lf_probes s" "lf_stop (send ev s) = lf_stop s"
  "lf_ctx (send ev s) = lf_ctx s" "lf_cancel (send ev s) = lf_cancel s" "lf_closed (send ev s) = lf_closed s"
  "lf_ended (send ev s) = lf_ended s" "lf_events_closed (send ev s) = lf_events_closed s"
  "lf_entries (send ev s) = lf_entries s" "lf_panic (send ev s) \<longleftrightarrow> lf_panic s \<or> lf_events_closed s"
  by (simp_all add: send_def)

lemma left_fields [simp]: "lf_consumer (left i evs s) = lf_consumer s" "lf_reaper (left i evs s) = lf_reaper s"
  "lf_prober (left i evs s) = lf_prober s" "lf_stop (left i evs s) = lf_stop s"
  "lf_ctx (left i evs s) = lf_ctx s" "lf_cancel (left i evs s) = lf_cancel s" "lf_closed (left i evs s) = lf_closed s"
  "lf_ended (left i evs s) = lf_ended s" "lf_events_closed (left i evs s) = lf_events_closed s"
  "lf_panic (left i evs s) = lf_panic s" "lf_p (left i evs s) = lf_p s" "lf_entries (left i evs s) = lf_entries s"
  "gwf (lf_probes s) \<Longrightarrow> gwf (lf_probes (left i evs s))"
  "map_of (lf_probes (left i evs s)) j = (if j = i then if evs = [] then None else Some (Some evs) else map_of (lf_probes s) j)"
  by (simp_all add: left_def map_simps)

lemma send_prober_ok [simp]: "prober_ok (lf_p s) \<Longrightarrow> prober_ok (lf_p (send ev s))"
  by (simp add: send_def prober_ok_def)

lemma consumer_ok: "life_ok s \<Longrightarrow> consumeEntries c s = Some t \<Longrightarrow> life_ok t"
proof (cases c)
  case (CRecv now)
  assume "life_ok s" "consumeEntries c s = Some t"
  with CRecv entry_apart_ok [of "lf_p s" now "hd (lf_entries s)"] show ?thesis
    by (cases "entry_apart now (hd (lf_entries s)) (lf_p s)")
      (clarsimp split: worker.splits list.splits, simp add: life_ok_def idle_def)
qed (clarsimp split: worker.splits list.splits if_splits; simp add: life_ok_def idle_def)+

lemma reaper_ok: "life_ok s \<Longrightarrow> runReaper r s = Some t \<Longrightarrow> life_ok t"
proof (cases r)
  case (RTick now)
  assume "life_ok s" "runReaper r s = Some t"
  with RTick reap_apart_ok [of "lf_p s" now] show ?thesis
    by (cases "reap_apart now (lf_p s)") (clarsimp split: if_splits, simp add: life_ok_def idle_def)
qed (clarsimp split: worker.splits list.splits if_splits; simp add: life_ok_def idle_def)+

lemma round_asking: "map_of (map (\<lambda>d. (dv_ID d, None)) ds) i \<noteq> Some (Some evs)"
  by (auto dest: map_of_SomeD)

lemma round_gwf: "prober_ok p \<Longrightarrow> gwf (map (\<lambda>d. (dv_ID d, None)) (Devices (pr_disc p)))"
  using devices_listed [of p "map dv_ID (Devices (pr_disc p))"] by (simp add: finishing_order_def gwf_def comp_def)

lemma probing_ok: "life_ok s \<Longrightarrow> prober_run q s = Some t \<Longrightarrow> life_ok t"
proof (cases q)
  case (PAnswer i ok)
  assume s: "life_ok s" "prober_run q s = Some t"
  obtain p evs where "apart (probeOne ok i) (lf_p s) = (p, evs)" by (cases "apart (probeOne ok i) (lf_p s)")
  with PAnswer s probe_apart_ok [of "lf_p s" ok i] show ?thesis
    by (cases "lf_probes s = []") (clarsimp split: if_splits; simp add: life_ok_def idle_def)+
next
  case (PSend i)
  assume "life_ok s" "prober_run q s = Some t"
  moreover from this PSend obtain ev evs where "map_of (lf_probes s) i = Some (Some (ev # evs))" "t = left i evs (send ev s)"
    by (auto split: option.splits list.splits)
  ultimately show ?thesis by (cases "lf_probes s = []"; cases "lf_events_closed s") (simp_all add: life_ok_def idle_def)
next
  case PTick
  assume s: "life_ok s" "prober_run q s = Some t"
  let ?r = "map (\<lambda>d. (dv_ID d, None)) (Devices (pr_disc (lf_p s)))"
  have "t = s\<lparr>lf_probes := ?r\<rparr>" "lf_prober s" using s PTick by (simp_all split: if_splits)
  moreover have "gwf ?r" using s(1) by (intro round_gwf) (simp add: life_ok_def)
  moreover have "\<forall>i. map_of ?r i \<noteq> Some (Some [])" by (intro allI round_asking)
  ultimately show ?thesis using s(1) by (simp add: life_ok_def idle_def del: map_of_map)
qed (clarsimp split: if_splits, simp add: life_ok_def idle_def)

lemma stop_ok: "life_ok s \<Longrightarrow> Discovery_Stop x s = Some t \<Longrightarrow> life_ok t"
  by (cases x; clarsimp split: if_splits; simp add: life_ok_def idle_def)

lemma outside_ok: "life_ok s \<Longrightarrow> outside x s = Some t \<Longrightarrow> life_ok t"
proof (cases x)
  case Take
  assume "life_ok s" "outside x s = Some t"
  moreover from this have "prober_ok (with_events (tl (dc_events (pr_disc (lf_p s)))) (lf_p s))"
    using prober_ok_len [of "lf_p s"] by (intro prober_ok_events) (auto simp: life_ok_def)
  ultimately show ?thesis using Take by (clarsimp simp: life_ok_def idle_def)
qed (clarsimp split: if_splits; simp add: life_ok_def idle_def)+

lemma life_ok_step: "life_ok s \<Longrightarrow> lstep_run a s = Some t \<Longrightarrow> a \<noteq> Start \<Longrightarrow> life_ok t"
  by (cases a) (auto simp: lstep_run_def intro: consumer_ok reaper_ok probing_ok stop_ok outside_ok split: if_splits)

lemma life_ok_runs: "lruns as s = Some t \<Longrightarrow> life_ok s \<Longrightarrow> Start \<notin> set as \<Longrightarrow> life_ok t"
  by (induction as arbitrary: s) (auto split: option.splits intro: life_ok_step)

lemma life_ok_start: "\<exists>s. lstep_run Start (New self) = Some s \<and> life_ok s"
  by (simp add: lstep_run_def spawn_def idle_def New_def life_ok_def newProber_def NewDisc_def prober_ok_def disc_ok_def)

lemma life_ok_reach: "lruns (Start # as) (New self) = Some s \<Longrightarrow> Start \<notin> set as \<Longrightarrow> life_ok s"
  using life_ok_start [of self] life_ok_runs by (auto split: option.splits)

text \<open>C16: However its workers, zeroconf, the subscriber and \<open>Stop\<close> interleave, discovery never sends on a closed channel:
  the event channel is closed only when every worker has returned and no probe has an event left to send.\<close>

theorem no_event_after_close:
  assumes "lruns (Start # as) (New self) = Some s" "Start \<notin> set as"
  shows "\<not> lf_panic s \<and> (lf_events_closed s \<longrightarrow> lf_consumer s = Exited \<and> lf_reaper s = Exited \<and> \<not> lf_prober s \<and>
    lf_probes s = []) \<and> length (dc_events (pr_disc (lf_p s))) \<le> 64"
  using life_ok_reach [OF assms] prober_ok_len by (auto simp: life_ok_def idle_def eventBufferSize_def)

section \<open>Stop\<close>

fun to_send :: "worker \<Rightarrow> nat" where
  "to_send Waiting = 1" | "to_send (Sending evs) = length evs + 2" | "to_send Exited = 0"

definition asking :: "Life \<Rightarrow> nat" where
  "asking s = length (filter (\<lambda>(i, x). x = None) (lf_probes s))"

definition unsent :: "Life \<Rightarrow> nat" where
  "unsent s = sum_list (map (\<lambda>(i, x). case x of None \<Rightarrow> 0 | Some evs \<Rightarrow> Suc (length evs)) (lf_probes s))"

text \<open>What is left to do before the workers have returned.\<close>

definition work :: "(Life \<times> Life) set" where
  "work = measures [\<lambda>s. length (lf_entries s), \<lambda>s. to_send (lf_consumer s), \<lambda>s. to_send (lf_reaper s), asking, unsent,
     \<lambda>s. if lf_prober s then 1 else 0]"

lemma wf_work: "wf work"
  by (simp add: work_def)

lemma gdel_head: "gwf ((i, x) # r) \<Longrightarrow> gdel i ((i, x) # r) = r"
  by (auto simp: gwf_def AList.delete_eq filter_id_conv image_iff)

lemma left_probes: "lf_probes s = (i, x) # r \<Longrightarrow> gwf (lf_probes s) \<Longrightarrow>
  lf_probes (left i evs s) = (if evs = [] then r else (i, Some evs) # r)"
  using gdel_head [of i x r] by (simp add: left_def)

lemma send_work [simp]: "asking (send ev s) = asking s" "unsent (send ev s) = unsent s"
  by (simp_all add: asking_def unsent_def)

text \<open>The step that a worker can take next, once zeroconf has closed its channel.\<close>

lemma worker_goes_on:
  assumes ok: "life_ok s" and ended: "lf_ended s" and busy: "\<not> idle s"
  shows "\<exists>a t. lstep_run a s = Some t \<and> a \<noteq> Start \<and> a \<noteq> Outside ZClose \<and> lf_ended t \<and> lf_stop t = lf_stop s \<and> (t, s) \<in> work"
proof -
  have run: "lf_ctx s" "\<not> lf_panic s" "\<not> lf_events_closed s" using ok ended busy by (auto simp: life_ok_def)
  consider (consumer) "lf_consumer s \<noteq> Exited" | (reaper) "lf_consumer s = Exited" "lf_reaper s \<noteq> Exited"
    | (prober) "lf_consumer s = Exited" "lf_reaper s = Exited" "lf_prober s" using busy by (auto simp: idle_def)
  then show ?thesis
  proof cases
    case consumer
    show ?thesis
    proof (cases "lf_consumer s")
      case Waiting
      show ?thesis
      proof (cases "lf_entries s")
        case Nil
        with Waiting ok ended run show ?thesis
          by (intro exI [of _ "Consumer CExit"]) (simp add: lstep_run_def work_def life_ok_def)
      next
        case (Cons e es)
        obtain p evs where "entry_apart 0 e (lf_p s) = (p, evs)" by (cases "entry_apart 0 e (lf_p s)")
        with Cons Waiting run ended show ?thesis
          by (intro exI [of _ "Consumer (CRecv 0)"]) (simp add: lstep_run_def work_def)
      qed
    next
      case (Sending evs)
      with ok obtain ev r where "evs = ev # r" by (cases evs) (auto simp: life_ok_def)
      with Sending run ended show ?thesis
        by (intro exI [of _ "Consumer CSend"]) (simp add: lstep_run_def work_def busy_def)
    qed (use consumer in simp)
  next
    case reaper
    show ?thesis
    proof (cases "lf_reaper s")
      case Waiting
      with reaper run ended show ?thesis
        by (intro exI [of _ "Reaper RExit"]) (simp add: lstep_run_def work_def)
    next
      case (Sending evs)
      with ok obtain ev r where "evs = ev # r" by (cases evs) (auto simp: life_ok_def)
      with Sending run ended show ?thesis
        by (intro exI [of _ "Reaper RSend"]) (simp add: lstep_run_def work_def busy_def)
    qed (use reaper in simp)
  next
    case prober
    show ?thesis
    proof (cases "lf_probes s")
      case Nil
      with prober run ended show ?thesis
        by (intro exI [of _ "Probing PExit"]) (simp add: lstep_run_def work_def asking_def unsent_def)
    next
      case (Cons ix r)
      obtain i x where ix: "ix = (i, x)" by (cases ix)
      show ?thesis
      proof (cases x)
        case None
        obtain p evs where "apart (probeOne False i) (lf_p s) = (p, evs)" by (cases "apart (probeOne False i) (lf_p s)")
        with Cons ix None run ended ok left_probes [of "s\<lparr>lf_p := p\<rparr>" i x r evs] show ?thesis
          by (intro exI [of _ "Probing (PAnswer i False)"]) (simp add: lstep_run_def work_def asking_def life_ok_def)
      next
        case (Some evs)
        with ok Cons ix obtain ev es where evs: "evs = ev # es" by (cases evs) (auto simp: life_ok_def dest: spec [of _ i])
        with Cons ix Some run ended ok left_probes [of "send ev s" i x r es] show ?thesis
          by (intro exI [of _ "Probing (PSend i)"]) (simp add: lstep_run_def work_def asking_def unsent_def life_ok_def)
      qed
    qed
  qed
qed

lemma lruns_first: "lstep_run a s = Some t \<Longrightarrow> lruns as t = Some u \<Longrightarrow> lruns (a # as) s = Some u"
  by simp

lemma workers_finish:
  assumes "life_ok s" "lf_ended s"
  shows "\<exists>as t. Start \<notin> set as \<and> Outside ZClose \<notin> set as \<and> lruns as s = Some t \<and> idle t \<and> lf_stop t = lf_stop s"
  using assms
proof (induction s rule: wf_induct_rule [OF wf_work])
  case (1 s)
  show ?case
  proof (cases "idle s")
    case True
    then show ?thesis by (intro exI [of _ "[]"] exI [of _ s]) simp
  next
    case False
    from worker_goes_on [OF 1(2,3) False] obtain a t where
      a: "lstep_run a s = Some t" "a \<noteq> Start" "a \<noteq> Outside ZClose" "lf_ended t" "lf_stop t = lf_stop s" "(t, s) \<in> work"
      by blast
    from 1(1) [OF a(6) life_ok_step [OF 1(2) a(1,2)] a(4)] obtain as u where
      "Start \<notin> set as" "Outside ZClose \<notin> set as" "lruns as t = Some u" "idle u" "lf_stop u = lf_stop t" by blast
    with a(2,3,5) lruns_first [OF a(1)] show ?thesis by (intro exI [of _ "a # as"] exI [of _ u]) auto
  qed
qed

lemma lruns_append: "lruns (as @ bs) s = (case lruns as s of None \<Rightarrow> None | Some t \<Rightarrow> lruns bs t)"
  by (induction as arbitrary: s) (auto split: option.split)

lemma stop_finishes:
  assumes "life_ok s" "lf_ended s" "lf_stop s = Stopping"
  shows "\<exists>as t. Start \<notin> set as \<and> Outside ZClose \<notin> set as \<and> lruns as s = Some t \<and> lf_stop t = Stopped"
proof -
  from workers_finish [OF assms(1,2)] obtain as t where
    t: "Start \<notin> set as" "Outside ZClose \<notin> set as" "lruns as s = Some t" "idle t" "lf_stop t = Stopping"
    using assms(3) by auto
  have "\<not> lf_panic t" using life_ok_runs [OF t(3) assms(1) t(1)] by (simp add: life_ok_def)
  with t(3-5) have "lruns (as @ [Stop StopEnd]) s = Some (t\<lparr>lf_stop := Stopped, lf_events_closed := True\<rparr>)"
    by (simp add: lruns_append lstep_run_def)
  with t(1,2) show ?thesis by (intro exI [of _ "as @ [Stop StopEnd]"]) auto
qed

lemma not_ended_step: "lstep_run a s = Some t \<Longrightarrow> a \<noteq> Start \<Longrightarrow> a \<noteq> Outside ZClose \<Longrightarrow> \<not> lf_ended s \<Longrightarrow> \<not> lf_ended t"
proof (cases a)
  case (Consumer c)
  assume "lstep_run a s = Some t" "\<not> lf_ended s"
  with Consumer show ?thesis by (cases c) (auto simp: lstep_run_def split: if_splits worker.splits list.splits prod.splits)
next
  case (Reaper r)
  assume "lstep_run a s = Some t" "\<not> lf_ended s"
  with Reaper show ?thesis by (cases r) (auto simp: lstep_run_def split: if_splits worker.splits list.splits prod.splits)
next
  case (Probing q)
  assume "lstep_run a s = Some t" "\<not> lf_ended s"
  with Probing show ?thesis by (cases q) (auto simp: lstep_run_def split: if_splits option.splits list.splits prod.splits)
next
  case (Stop x)
  assume "lstep_run a s = Some t" "\<not> lf_ended s"
  with Stop show ?thesis by (cases x) (auto simp: lstep_run_def split: if_splits)
next
  case (Outside e)
  assume "lstep_run a s = Some t" "\<not> lf_ended s" "a \<noteq> Outside ZClose"
  with Outside show ?thesis by (cases e) (auto simp: lstep_run_def split: if_splits)
qed simp

lemma not_ended_runs: "lruns as s = Some t \<Longrightarrow> Start \<notin> set as \<Longrightarrow> Outside ZClose \<notin> set as \<Longrightarrow> \<not> lf_ended s \<Longrightarrow> \<not> lf_ended t"
  by (induction as arbitrary: s) (auto split: option.splits dest: not_ended_step)

text \<open>C19: \<open>Stop\<close> can always return, whatever the workers are in the middle of when it is called; and it depends on
  zeroconf alone: while zeroconf has not closed its channel, nothing that the workers, the peers, the subscriber or
  the callers do lets it return, and once it has, the workers finish by themselves.\<close>

theorem stop_waits_for_zeroconf:
  assumes "lruns (Start # as) (New self) = Some s" "Start \<notin> set as" "lf_stop s = Stopping"
  shows "(\<exists>bs t. Start \<notin> set bs \<and> lruns bs s = Some t \<and> lf_stop t = Stopped) \<and>
    ((\<exists>bs t. Start \<notin> set bs \<and> Outside ZClose \<notin> set bs \<and> lruns bs s = Some t \<and> lf_stop t = Stopped) \<longleftrightarrow> lf_ended s)"
proof -
  have ok: "life_ok s" using life_ok_reach [OF assms(1,2)] .
  have only: "lf_ended s" if "Start \<notin> set bs" "Outside ZClose \<notin> set bs" "lruns bs s = Some t" "lf_stop t = Stopped" for bs t
  proof -
    have "life_ok t" using life_ok_runs [OF that(3) ok that(1)] .
    then have "lf_ended t" using that(4) by (auto simp: life_ok_def idle_def)
    then show ?thesis using not_ended_runs that by blast
  qed
  have "\<exists>bs t. Start \<notin> set bs \<and> lruns bs s = Some t \<and> lf_stop t = Stopped"
  proof (cases "lf_ended s")
    case True
    with stop_finishes ok assms(3) show ?thesis by blast
  next
    case False
    let ?t = "s\<lparr>lf_ended := True\<rparr>"
    have t: "lstep_run (Outside ZClose) s = Some ?t" using ok False assms(3) by (simp add: lstep_run_def life_ok_def)
    from stop_finishes [OF life_ok_step [OF ok t]] obtain bs u where "Start \<notin> set bs" "lruns bs ?t = Some u" "lf_stop u = Stopped"
      using assms(3) by auto
    with lruns_first [OF t] show ?thesis by (intro exI [of _ "Outside ZClose # bs"]) auto
  qed
  with only stop_finishes [OF ok _ assms(3)] show ?thesis by blast
qed

section \<open>What goes wrong\<close>

text \<open>A discovery that has been stopped must not be started again, although nothing prevents it: the event channel stays
  closed, so the first announcement of a peer that is not in the table crashes the process.\<close>

theorem restart_crashes:
  assumes "lruns (Start # as) (New self) = Some s" "Start \<notin> set as" "lf_stop s = Stopped"
    and rec: "ParseTXT ls = Inr rec" "tx_PubHash rec \<noteq> dc_self (pr_disc (lf_p s))"
      "snapshot (tx_PubHash rec) (pr_disc (lf_p s)) = None"
  shows "\<exists>t. lruns [Start, Outside (ZEntry (Some (ls, v4, v6, host))), Consumer (CRecv now), Consumer CSend] s = Some t \<and>
    lf_panic t"
proof -
  have ok: "idle s" "\<not> lf_panic s" "lf_events_closed s"
    using life_ok_reach [OF assms(1,2)] assms(3) by (auto simp: life_ok_def)
  let ?d = "pr_disc (lf_p s)" and ?e = "Some (ls, v4, v6, host)"
  have "map_of (dc_devices ?d) (tx_PubHash rec) = None" using rec(3) by (simp add: snapshot_None)
  then have "snd (entry_apart now ?e (newProber ?d)) \<noteq> []"
    using rec(1,2) by (simp add: entry_apart_def apart_def Let_def handleEntry_def newProber_def emit_def eventBufferSize_def)
  then obtain p ev evs where p: "entry_apart now ?e (newProber ?d) = (p, ev # evs)"
    by (cases "entry_apart now ?e (newProber ?d)"; cases "snd (entry_apart now ?e (newProber ?d))") auto
  with ok show ?thesis by (simp add: lstep_run_def spawn_def browseEntryBuffer_def busy_def send_def)
qed

definition demo_e :: Entry where "demo_e = Some (demo_txt, [], [], ''den'')"

definition demo_at :: "nat \<Rightarrow> Device \<Rightarrow> DEvent list \<Rightarrow> Prober" where
  "demo_at n dev evs = \<lparr>pr_disc = \<lparr>dc_self = ''me'', dc_devices = [(demo_hash, 0)], dc_heap = [dev], dc_events = evs\<rparr>,
     pr_failures = (if n = 0 then [] else [(demo_hash, n)])\<rparr>"

lemma demo_first: "entry_apart now demo_e (newProber (NewDisc ''me'')) =
    (demo_at 0 (demo_dev\<lparr>dv_FirstSeen := now, dv_LastSeen := now\<rparr>) [], [(EventOnline, Ptr 0)])"
  by (simp add: entry_apart_def apart_def Let_def handleEntry_def demo_e_def demo_parse newProber_def NewDisc_def demo_at_def
    with_events_def emit_def eventBufferSize_def demo_rec_def demo_dev_def demo_hash_def ipsToStrings_def)

lemma demo_again: "entry_apart now demo_e (demo_at n (demo_dev\<lparr>dv_LastSeen := before, dv_Status := st\<rparr>) evs) =
    (let dev = demo_dev\<lparr>dv_LastSeen := now, dv_Status := if st = StatusGray then StatusOnline else st\<rparr> in
     (demo_at n dev evs, if st = StatusGray then [(EventUpdate, Snap dev)] else []))"
  by (simp add: entry_apart_def apart_def Let_def handleEntry_def demo_e_def demo_parse demo_at_def announced_def
    with_events_def emit_def eventBufferSize_def demo_rec_def demo_dev_def demo_hash_def ipsToStrings_def)

lemma demo_fails: "apart (probeOne False demo_hash) (demo_at n (demo_dev\<lparr>dv_LastSeen := t, dv_Status := StatusOnline\<rparr>) evs) =
    (if n < 2 then (demo_at (n + 1) (demo_dev\<lparr>dv_LastSeen := t, dv_Status := StatusOnline\<rparr>) evs, [])
     else (demo_at (n + 1) (demo_dev\<lparr>dv_LastSeen := t, dv_Status := StatusGray\<rparr>) evs,
       [(EventUpdate, Snap (demo_dev\<lparr>dv_LastSeen := t, dv_Status := StatusGray\<rparr>))]))"
  by (simp add: apart_def Let_def probeOne_def onFailure_def failures_def demo_at_def with_events_def maxProbeFailures_def
    setStatus_def emit_def eventBufferSize_def)

lemma demo_succeeds: "snd (apart (probeOne True demo_hash) (demo_at n (demo_dev\<lparr>dv_LastSeen := t, dv_Status := StatusOnline\<rparr>) evs)) = []"
  by (simp add: apart_def Let_def probeOne_def onSuccess_def failures_def demo_at_def with_events_def snapshot_def)

lemma demo_online: "demo_dev\<lparr>dv_FirstSeen := 7, dv_LastSeen := 7\<rparr> = demo_dev\<lparr>dv_LastSeen := 7, dv_Status := StatusOnline\<rparr>"
  by (simp add: demo_dev_def)

lemma demo_devices: "map (\<lambda>d. (dv_ID d, None)) (Devices (pr_disc (demo_at n (demo_dev\<lparr>dv_LastSeen := t, dv_Status := st\<rparr>) evs))) =
    [(demo_hash, None)]"
  by (simp add: Devices_def SortDevices_def demo_at_def demo_dev_def)

lemma demo_sends: "length evs < 64 \<Longrightarrow> (demo_at n dev evs)\<lparr>pr_disc := emit ev (pr_disc (demo_at n dev evs))\<rparr> = demo_at n dev (evs @ [ev])"
  by (simp add: demo_at_def emit_def eventBufferSize_def)

text \<open>A peer is announced, three probes fail, and while the prober has still to send its event the peer is announced
  again.\<close>

definition demo_life :: "lstep list" where
  "demo_life = [Outside (ZEntry demo_e), Consumer (CRecv 7), Consumer CSend,
     Probing PTick, Probing (PAnswer demo_hash False), Probing PTick, Probing (PAnswer demo_hash False),
     Probing PTick, Probing (PAnswer demo_hash False),
     Outside (ZEntry demo_e), Consumer (CRecv 9), Consumer CSend, Probing (PSend demo_hash)]"

text \<open>The events need not end with the truth: the table and the event channel are written in different orders, so that
  the last event says that a peer does not answer while the table has it online; nobody is about to correct it, and
  neither a probe that succeeds nor another announcement of the peer will.\<close>

theorem last_event_can_be_stale:
  "\<exists>s. lruns (Start # demo_life) (New ''me'') = Some s \<and>
    lf_consumer s = Waiting \<and> lf_reaper s = Waiting \<and> lf_probes s = [] \<and>
    (\<exists>dev old evs. snapshot demo_hash (pr_disc (lf_p s)) = Some dev \<and> dv_Status dev = StatusOnline \<and>
      dc_events (pr_disc (lf_p s)) = evs @ [(EventUpdate, Snap old)] \<and> dv_ID old = dv_ID dev \<and> dv_Status old = StatusGray) \<and>
    snd (apart (probeOne True demo_hash) (lf_p s)) = [] \<and> snd (entry_apart now demo_e (lf_p s)) = []"
proof -
  let ?d = "\<lambda>t st. demo_dev\<lparr>dv_LastSeen := t, dv_Status := st\<rparr>"
  let ?evs = "[(EventOnline, Ptr 0), (EventUpdate, Snap (?d 9 StatusOnline)), (EventUpdate, Snap (?d 7 StatusGray))]"
  let ?s = "(New ''me'')\<lparr>lf_p := demo_at 3 (?d 9 StatusOnline) ?evs, lf_server := True, lf_cancel := True,
    lf_consumer := Waiting, lf_reaper := Waiting, lf_prober := True\<rparr>"
  note demo_online [simp]
  have "newProber (pr_disc (newProber (NewDisc ''me''))) = newProber (NewDisc ''me'')" by (simp add: newProber_def)
  then have "lruns (Start # demo_life) (New ''me'') = Some ?s"
    by (simp add: demo_life_def lstep_run_def spawn_def idle_def New_def browseEntryBuffer_def demo_first demo_again demo_fails
      busy_def send_def left_def demo_sends demo_devices Let_def numeral_3_eq_3 del: map_map list.map comp_apply)
  moreover have "snapshot demo_hash (pr_disc (demo_at 3 (?d 9 StatusOnline) ?evs)) = Some (?d 9 StatusOnline)"
    by (simp add: snapshot_def demo_at_def)
  moreover have "dc_events (pr_disc (demo_at 3 (?d 9 StatusOnline) ?evs)) = ?evs" by (simp add: demo_at_def)
  ultimately show ?thesis
    by (intro exI [of _ ?s] conjI) (simp_all add: New_def demo_succeeds demo_again)
qed

text \<open>A start and a stop without peers.\<close>

definition demo_stopping :: "lstep list" where "demo_stopping = [Stop StopBegin]"
definition demo_stopped :: "lstep list" where
  "demo_stopped = [Stop StopBegin, Outside ZClose, Consumer CExit, Reaper RExit, Probing PExit, Stop StopEnd]"

definition demo_end :: Life where
  "demo_end = (New ''me'')\<lparr>lf_ctx := True, lf_ended := True, lf_closed := True, lf_stop := Stopped, lf_events_closed := True\<rparr>"

lemma demo_end_run: "lruns (Start # demo_stopped) (New ''me'') = Some demo_end"
  by (simp add: demo_stopped_def demo_end_def lstep_run_def spawn_def idle_def New_def newProber_def)

lemma no_event_after_close_witness: "lf_events_closed demo_end \<and> \<not> lf_panic demo_end \<and> lf_consumer demo_end = Exited"
  using no_event_after_close [OF demo_end_run] by (simp add: demo_stopped_def) (simp add: demo_end_def)

lemma stop_waits_for_zeroconf_witness:
  "\<exists>s. lruns (Start # demo_stopping) (New ''me'') = Some s \<and> lf_stop s = Stopping \<and>
    (\<exists>bs t. Start \<notin> set bs \<and> lruns bs s = Some t \<and> lf_stop t = Stopped) \<and>
    \<not> (\<exists>bs t. Start \<notin> set bs \<and> Outside ZClose \<notin> set bs \<and> lruns bs s = Some t \<and> lf_stop t = Stopped)"
proof -
  let ?s = "(New ''me'')\<lparr>lf_ctx := True, lf_stop := Stopping, lf_consumer := Waiting, lf_reaper := Waiting, lf_prober := True\<rparr>"
  have s: "lruns (Start # demo_stopping) (New ''me'') = Some ?s"
    by (simp add: demo_stopping_def lstep_run_def spawn_def idle_def New_def newProber_def)
  have e: "\<not> lf_ended ?s" by (simp add: New_def)
  from stop_waits_for_zeroconf [OF s] e s show ?thesis by (intro exI [of _ ?s]) (simp_all add: demo_stopping_def)
qed

lemma restart_crashes_witness:
  "\<exists>t. lruns [Start, Outside (ZEntry (Some (demo_txt, [], [], ''den''))), Consumer (CRecv 7), Consumer CSend] demo_end = Some t \<and>
    lf_panic t"
  by (rule restart_crashes [OF demo_end_run _ _ demo_parse])
    (simp_all add: demo_stopped_def demo_end_def New_def newProber_def NewDisc_def snapshot_def demo_rec_def demo_hash_def)


end
