(* ===== verification/ApiRun.thy ===== *)
theory ApiRun
  imports Api
begin

text \<open>
  The API as a client of the managers (\<open>core/api/server.go\<close>: the routes of \<open>NewServer\<close>; \<open>core/api/handlers.go\<close>): which
  handler answers which method and path, and what any sequence of requests, interleaved with whatever the other
  goroutines do to the same managers, makes of them. A route carries what its handler gets from elsewhere: the
  decoded body, the clock, random bytes, the answers of the file system and of the database.
\<close>

section \<open>Routes\<close>

type_synonym 'r sorter = "string \<Rightarrow> string \<Rightarrow> 'r list \<Rightarrow> 'r list"

datatype ARoute = Ping | Version | DevicesR | Diagnostics "Iface list option"
  | ListSharesR int
  | CreateShareR "bytes option" "bytes option" int "DBError option" "ShareRequest option" "PathInfo option"
  | HistoryR "ShareRow sorter" "DBError option" nat
  | ExportSharesR "ShareRow sorter" "int \<Rightarrow> string" "DBError option"
  | GetShareR int | StopShareR
  | ListTransfersR "TransferRow sorter" "DBError option" nat
  | CreateTransferR string int "(string \<times> string) option" "FileStat option" "Iface list option"
  | ExportTransfersR "TransferRow sorter" "int \<Rightarrow> string" "DBError option"
  | GetTransferR "DBError option" | CancelTransferR int | DeleteTransferR "DBError option"
  | ListIncomingR | AcceptR int "string option" | RejectR int | CancelIncomingR int
  | GetSettingsR
  | PutSettingsR "Settings \<Rightarrow> bytes option" "ConfigError option" "(string \<times> jval) list option"
  | PostSettingsR "Settings \<Rightarrow> bytes option" "ConfigError option" "(string \<times> jval) list option"

fun api_handler :: "(bytes \<Rightarrow> bytes) \<Rightarrow> ARoute \<Rightarrow> Request \<Rightarrow> Server \<Rightarrow> ApiReply \<times> Server" where
  "api_handler sha Ping r s = handlePing r s"
| "api_handler sha Version r s = handleVersion r s"
| "api_handler sha DevicesR r s = handleDevices r s"
| "api_handler sha (Diagnostics ifs) r s = handleDiagnostics ifs r s"
| "api_handler sha (ListSharesR now) r s = handleListShares now r s"
| "api_handler sha (CreateShareR rnd salt now err body info) r s = handleCreateShare sha rnd salt now err body info r s"
| "api_handler sha (HistoryR srt err first) r s = handleListShareHistory srt err first r s"
| "api_handler sha (ExportSharesR srt fmt err) r s = handleExportShares srt fmt err r s"
| "api_handler sha (GetShareR now) r s = handleGetShare now r s"
| "api_handler sha StopShareR r s = handleStopShare r s"
| "api_handler sha (ListTransfersR srt err first) r s = handleListTransfers srt err first r s"
| "api_handler sha (CreateTransferR uid now body info ifs) r s =
    (let (reply, spawn, s') = handleCreateTransfer uid now body info ifs r s in (reply, s'))"
| "api_handler sha (ExportTransfersR srt fmt err) r s = handleExportTransfers srt fmt err r s"
| "api_handler sha (GetTransferR err) r s = handleGetTransfer err r s"
| "api_handler sha (CancelTransferR now) r s = (let (reply, fx, s') = handleCancelTransfer now r s in (reply, s'))"
| "api_handler sha (DeleteTransferR err) r s = handleDeleteTransfer err r s"
| "api_handler sha ListIncomingR r s = handleListIncoming r s"
| "api_handler sha (AcceptR now body) r s = handleAcceptIncoming now body r s"
| "api_handler sha (RejectR now) r s = handleRejectIncoming now r s"
| "api_handler sha (CancelIncomingR now) r s = handleCancelIncoming now r s"
| "api_handler sha GetSettingsR r s = handleGetSettings r s"
| "api_handler sha (PutSettingsR marshal io body) r s = handleUpdateSettings marshal io body r s"
| "api_handler sha (PostSettingsR marshal io body) r s = handleUpdateSettings marshal io body r s"

text \<open>The path of a route, with the value of its \<open>{id}\<close>.\<close>

fun route_path :: "ARoute \<Rightarrow> string \<Rightarrow> string" where
  "route_path Ping i = ''/api/v1/ping''"
| "route_path Version i = ''/api/v1/version''"
| "route_path DevicesR i = ''/api/v1/devices''"
| "route_path (Diagnostics ifs) i = ''/api/v1/diagnostics''"
| "route_path (ListSharesR now) i = ''/api/v1/shares/''"
| "route_path (CreateShareR rnd salt now err body info) i = ''/api/v1/shares/''"
| "route_path (HistoryR srt err first) i = ''/api/v1/shares/history''"
| "route_path (ExportSharesR srt fmt err) i = ''/api/v1/shares/export''"
| "route_path (GetShareR now) i = ''/api/v1/shares/'' @ i"
| "route_path StopShareR i = ''/api/v1/shares/'' @ i"
| "route_path (ListTransfersR srt err first) i = ''/api/v1/transfers/''"
| "route_path (CreateTransferR uid now body info ifs) i = ''/api/v1/transfers/''"
| "route_path (ExportTransfersR srt fmt err) i = ''/api/v1/transfers/export''"
| "route_path (GetTransferR err) i = ''/api/v1/transfers/'' @ i"
| "route_path (CancelTransferR now) i = ''/api/v1/transfers/'' @ i @ ''/cancel''"
| "route_path (DeleteTransferR err) i = ''/api/v1/transfers/'' @ i"
| "route_path ListIncomingR i = ''/api/v1/incoming/''"
| "route_path (AcceptR now body) i = ''/api/v1/incoming/'' @ i @ ''/accept''"
| "route_path (RejectR now) i = ''/api/v1/incoming/'' @ i @ ''/reject''"
| "route_path (CancelIncomingR now) i = ''/api/v1/incoming/'' @ i @ ''/cancel''"
| "route_path GetSettingsR i = ''/api/v1/settings/''"
| "route_path (PutSettingsR marshal io body) i = ''/api/v1/settings/''"
| "route_path (PostSettingsR marshal io body) i = ''/api/v1/settings/''"

fun route_method :: "ARoute \<Rightarrow> string" where
  "route_method (CreateShareR rnd salt now err body info) = ''POST''"
| "route_method StopShareR = ''DELETE''"
| "route_method (CreateTransferR uid now body info ifs) = ''POST''"
| "route_method (CancelTransferR now) = ''POST''"
| "route_method (DeleteTransferR err) = ''DELETE''"
| "route_method (AcceptR now body) = ''POST''"
| "route_method (RejectR now) = ''POST''"
| "route_method (CancelIncomingR now) = ''POST''"
| "route_method (PutSettingsR marshal io body) = ''PUT''"
| "route_method (PostSettingsR marshal io body) = ''POST''"
| "route_method a = ''GET''"

text \<open>A request that chi has matched with a route goes through the middleware and then to the route's handler.\<close>

definition api_request :: "(string \<Rightarrow> string option) \<Rightarrow> (bytes \<Rightarrow> bytes) \<Rightarrow> ARoute \<Rightarrow> Request \<Rightarrow> Server \<Rightarrow> ApiReply \<times> Server" where
  "api_request hostname sha a r s = serve hostname (api_handler sha a) r s"

section \<open>Runs\<close>

text \<open>A request, or an operation of another goroutine on one of the managers: a background send, an inbound handler, the
  share server, a ticker.\<close>

datatype aitem = AReq ARoute Request | AMgr MgrOp | AShare sop | ARecv rop

fun astep :: "(string \<Rightarrow> string option) \<Rightarrow> (bytes \<Rightarrow> bytes) \<Rightarrow> aitem \<Rightarrow> Server \<Rightarrow> Server" where
  "astep hostname sha (AReq a r) s = snd (api_request hostname sha a r s)"
| "astep hostname sha (AMgr x) s = s\<lparr>sv_TransferMgr := map_option (mgr_step x) (sv_TransferMgr s)\<rparr>"
| "astep hostname sha (AShare y) s = s\<lparr>sv_ShareManager := map_option (sstep sha y) (sv_ShareManager s)\<rparr>"
| "astep hostname sha (ARecv z) s = s\<lparr>sv_ReceiveMgr := map_option (rstep z) (sv_ReceiveMgr s)\<rparr>"

definition arun :: "(string \<Rightarrow> string option) \<Rightarrow> (bytes \<Rightarrow> bytes) \<Rightarrow> aitem list \<Rightarrow> Server \<Rightarrow> Server" where
  "arun hostname sha its s = fold (astep hostname sha) its s"

section \<open>What a request does to the managers\<close>

fun api_mgr_op :: "MgrOp \<Rightarrow> bool" where
  "api_mgr_op (OpCreate uid now p pn fp fn sz) = True"
| "api_mgr_op (OpCancel tid now) = True"
| "api_mgr_op x = False"

fun api_share_op :: "sop \<Rightarrow> bool" where
  "api_share_op (SCreate rnd salt now p d n sz pw ex mx) = True"
| "api_share_op (SGet now t ip) = True"
| "api_share_op (SStop t) = True"
| "api_share_op y = False"

fun api_recv_op :: "rop \<Rightarrow> bool" where
  "api_recv_op (OAccept now i path) = True"
| "api_recv_op (OReject now i) = True"
| "api_recv_op (OCancel now i) = True"
| "api_recv_op z = False"

definition moved :: "(bytes \<Rightarrow> bytes) \<Rightarrow> MgrOp list \<Rightarrow> sop list \<Rightarrow> rop list \<Rightarrow> Server \<Rightarrow> Server \<Rightarrow> bool" where
  "moved sha xs ys zs s s' \<longleftrightarrow> sv_TransferMgr s' = map_option (mgr_run xs) (sv_TransferMgr s) \<and>
     sv_ShareManager s' = map_option (srun sha ys) (sv_ShareManager s) \<and>
     sv_ReceiveMgr s' = map_option (rrun zs) (sv_ReceiveMgr s) \<and>
     sv_Token s' = sv_Token s \<and> sv_Discovery s' = sv_Discovery s \<and> sv_SharePort s' = sv_SharePort s"

lemmas run_defs = mgr_run_def [abs_def] srun_def [abs_def] rrun_def [abs_def]

lemma moved_refl: "moved sha [] [] [] s s"
  by (auto simp: moved_def run_defs option.map_id)

lemma moved_trans: "moved sha xs ys zs s t \<Longrightarrow> moved sha xs' ys' zs' t u \<Longrightarrow> moved sha (xs @ xs') (ys @ ys') (zs @ zs') s u"
  by (auto simp: moved_def run_defs option.map_comp comp_def)

text \<open>A request is at most one operation, of the kinds above, of one manager.\<close>

definition client :: "(bytes \<Rightarrow> bytes) \<Rightarrow> Server \<Rightarrow> Server \<Rightarrow> bool" where
  "client sha s s' \<longleftrightarrow> (\<exists>xs ys zs. moved sha xs ys zs s s' \<and> list_all api_mgr_op xs \<and> list_all api_share_op ys \<and>
     list_all api_recv_op zs \<and> length xs + length ys + length zs \<le> 1)"

lemma client_intros:
  "client sha s s" "client sha s (s\<lparr>sv_DB := db\<rparr>)" "client sha s (s\<lparr>sv_Config := c\<rparr>)"
  "sv_TransferMgr s = Some m \<Longrightarrow> api_mgr_op x \<Longrightarrow> mgr_step x m = m' \<Longrightarrow> client sha s (s\<lparr>sv_TransferMgr := Some m'\<rparr>)"
  "sv_ShareManager s = Some sm \<Longrightarrow> api_share_op y \<Longrightarrow> sstep sha y sm = sm' \<Longrightarrow> client sha s (s\<lparr>sv_ShareManager := Some sm'\<rparr>)"
  "sv_ShareManager s = Some sm \<Longrightarrow> api_share_op y \<Longrightarrow> sstep sha y sm = sm' \<Longrightarrow>
    client sha s (s\<lparr>sv_ShareManager := Some sm', sv_DB := db\<rparr>)"
  "sv_ReceiveMgr s = Some rm \<Longrightarrow> api_recv_op z \<Longrightarrow> rstep z rm = rm' \<Longrightarrow> client sha s (s\<lparr>sv_ReceiveMgr := Some rm'\<rparr>)"
proof -
  have same: "client sha s u" if "moved sha [] [] [] s u" for u
    unfolding client_def by (intro exI [of _ "[]"]) (simp add: that)
  show "client sha s s" "client sha s (s\<lparr>sv_DB := db\<rparr>)" "client sha s (s\<lparr>sv_Config := c\<rparr>)"
    by (intro same; simp add: moved_def run_defs option.map_id)+
  show "client sha s (s\<lparr>sv_TransferMgr := Some m'\<rparr>)" if "sv_TransferMgr s = Some m" "api_mgr_op x" "mgr_step x m = m'"
    unfolding client_def using that
    by (intro exI [of _ "[x]"] exI [of _ "[]"]) (simp add: moved_def run_defs option.map_id)
  show "client sha s (s\<lparr>sv_ShareManager := Some sm'\<rparr>)" "client sha s (s\<lparr>sv_ShareManager := Some sm', sv_DB := db\<rparr>)"
    if "sv_ShareManager s = Some sm" "api_share_op y" "sstep sha y sm = sm'"
    unfolding client_def using that
    by (intro exI [of _ "[]"] exI [of _ "[y]"] exI [of _ "[]"]; simp add: moved_def run_defs option.map_id)+
  show "client sha s (s\<lparr>sv_ReceiveMgr := Some rm'\<rparr>)" if "sv_ReceiveMgr s = Some rm" "api_recv_op z" "rstep z rm = rm'"
    unfolding client_def using that
    by (intro exI [of _ "[]"] exI [of _ "[]"] exI [of _ "[z]"]) (simp add: moved_def run_defs option.map_id)
qed

lemma readers_change_nothing:
  "snd (handlePing r s) = s" "snd (handleVersion r s) = s" "snd (handleDevices r s) = s" "snd (handleDiagnostics ifs r s) = s"
  "snd (handleListShares now r s) = s" "snd (handleListShareHistory hsrt err first r s) = s"
  "snd (handleExportShares hsrt fmt err r s) = s" "snd (handleListTransfers tsrt err first r s) = s"
  "snd (handleExportTransfers tsrt fmt err r s) = s" "snd (handleGetTransfer err r s) = s"
  "snd (handleListIncoming r s) = s" "snd (handleGetSettings r s) = s"
  by (auto simp: handlePing_def handleVersion_def handleDevices_def handleDiagnostics_def handleListShares_def
    handleListShareHistory_def handleExportShares_def handleListTransfers_def handleExportTransfers_def handleGetTransfer_def
    handleListIncoming_def handleGetSettings_def Let_def split: option.split sum.split)

lemma create_share_client: "client sha s (snd (handleCreateShare sha rnd salt now err body info r s))"
proof (cases "sv_ShareManager s")
  case m: (Some m)
  show ?thesis
  proof (cases "\<exists>req fi. body = Some req \<and> rs_Path req \<noteq> [] \<and> info = Some fi")
    case False
    then show ?thesis using m by (cases body; cases info) (auto simp: handleCreateShare_def client_intros(1))
  next
    case True
    then obtain req fi where req: "body = Some req" "rs_Path req \<noteq> []" "info = Some fi" by blast
    show ?thesis
    proof (cases "if pi_IsDir fi then pi_Count fi else Some (1, pi_Size fi)")
      case None
      then show ?thesis using m req by (simp add: handleCreateShare_def client_intros(1))
    next
      case (Some fc)
      obtain fileCount sz where fc: "fc = (fileCount, sz)" by (cases fc)
      let ?e0 = "wrap64 (rs_Expiry req * 1000000000)"
      let ?e = "if ?e0 \<le> 0 then DefaultExpiry else ?e0"
      let ?mx = "if rs_MaxDownloads req \<le> 0 then MaxDownloadCount else rs_MaxDownloads req"
      let ?c = "Share.CreateShare sha rnd salt now (rs_Path req) (pi_IsDir fi) (pi_Base fi) sz (rs_Password req) ?e ?mx m"
      have "handleCreateShare sha rnd salt now err body info r s = (case ?c of
          Inl e \<Rightarrow> (if e = ErrShareLimit then (AError 409 ''concurrent share limit reached'', s) else (AError 500 ''create share'', s))
        | Inr (sh, m') \<Rightarrow> (ACreatedShare sh (share_url (rq_Host r) (sv_SharePort s) (sh_Token sh)) fileCount sz,
            s\<lparr>sv_ShareManager := Some m', sv_DB := map_option (\<lambda>db. snd (Store.CreateShare err \<lparr>sr_ID = sh_Token sh, sr_Kind = ''link'',
              sr_Target = [], sr_FilePath = rs_Path req, sr_Size = sz, sr_Status = ''active'', sr_CreatedAt = now,
              sr_ExpiresAt = Some (now + ?e), sr_Downloads = 0, sr_MaxDownloads = Some ?mx\<rparr> db)) (sv_DB s)\<rparr>))"
        using m req Some by (simp only: handleCreateShare_def Let_def option.case fc prod.case if_False)
      then show ?thesis
        using client_intros(6) [OF m, of "SCreate rnd salt now (rs_Path req) (pi_IsDir fi) (pi_Base fi) sz (rs_Password req) ?e ?mx"]
        by (cases ?c) (auto simp: client_intros(1))
    qed
  qed
qed (simp add: handleCreateShare_def client_intros(1))

lemma share_client: "client sha s (snd (handleGetShare now r s))" "client sha s (snd (handleStopShare r s))"
proof -
  show "client sha s (snd (handleGetShare now r s))"
    by (auto simp: handleGetShare_def client_intros(1) split: option.split prod.split sum.split
      intro!: client_intros(5) [where y = "SGet now (rq_Id r) (ClientIP (rq_RemoteAddr r))"])
  show "client sha s (snd (handleStopShare r s))"
    by (auto simp: handleStopShare_def client_intros(1) split: option.split prod.split bool.split
      intro!: client_intros(5) [where y = "SStop (rq_Id r)"])
qed

lemma create_transfer_client:
  assumes h: "handleCreateTransfer uid now body info ifs r s = (reply, spawn, s')"
  shows "client sha s s'"
proof (cases "s' = s")
  case False
  with h obtain m p nm f n sz t m' where *: "sv_TransferMgr s = Some m" "Manager_Create uid now p nm f n sz m = Inr (t, m')"
    "s' = s\<lparr>sv_TransferMgr := Some m'\<rparr>"
    by (auto simp: handleCreateTransfer_def split: option.splits if_splits prod.splits sum.splits)
  have "mgr_step (OpCreate uid now p nm f n sz) m = m'" using *(2) by simp
  then show ?thesis unfolding *(3) using *(1) by (intro client_intros(4) [where x = "OpCreate uid now p nm f n sz"]) simp_all
qed (simp add: client_intros(1))

lemma create_transfer_client': "client sha s (snd (snd (handleCreateTransfer uid now body info ifs r s)))"
  by (metis create_transfer_client prod.collapse)

lemma cancel_transfer_client: "client sha s (snd (snd (handleCancelTransfer now r s)))"
  by (auto simp: handleCancelTransfer_def client_intros(1) split: option.split prod.split sum.split
    intro!: client_intros(4) [where x = "OpCancel (rq_Id r) now"])

lemma incoming_client: "client sha s (snd (handleAcceptIncoming now body r s))"
  "client sha s (snd (handleRejectIncoming now r s))" "client sha s (snd (handleCancelIncoming now r s))"
proof -
  have reply: "client sha s (snd (incoming_reply s res))"
    if "sv_ReceiveMgr s = Some m" "api_recv_op z" "rstep z m = ok_or m res" for m z res
    using client_intros(7) [OF that(1,2)] that(3)
    by (cases res) (auto simp: incoming_reply_def ok_or_def client_intros(1))
  show "client sha s (snd (handleAcceptIncoming now body r s))"
    by (cases body; cases "sv_ReceiveMgr s")
      (auto simp: handleAcceptIncoming_def client_intros(1) intro!: reply [where z = "OAccept now (rq_Id r) (the body)"])
  show "client sha s (snd (handleRejectIncoming now r s))"
    by (cases "sv_ReceiveMgr s")
      (auto simp: handleRejectIncoming_def client_intros(1) intro!: reply [where z = "OReject now (rq_Id r)"])
  show "client sha s (snd (handleCancelIncoming now r s))"
    by (cases "sv_ReceiveMgr s")
      (auto simp: handleCancelIncoming_def client_intros(1) intro!: reply [where z = "OCancel now (rq_Id r)"])
qed

lemma others_client: "client sha s (snd (handleDeleteTransfer err r s))" "client sha s (snd (handleUpdateSettings marshal io c r s))"
  by (auto simp: handleDeleteTransfer_def handleUpdateSettings_def client_intros(1-3)
    split: option.split prod.split Settings.outcome.split)

lemma handler_client: "client sha s (snd (api_handler sha a r s))"
  using cancel_transfer_client [of sha s _ r] create_transfer_client' [of sha s _ _ _ _ _ r]
  by (cases a) (auto simp: readers_change_nothing client_intros(1) create_share_client share_client
    incoming_client others_client case_prod_unfold Let_def)

lemma request_client: "client sha s (snd (api_request hostname sha a r s))"
  using handler_client [of sha s a r] client_intros(1)
  by (auto simp: api_request_def serve_def bearerAuth_def corsGuard_def)

section \<open>Properties\<close>

lemma astep_moved: "\<exists>xs ys zs. moved sha xs ys zs s (astep hostname sha it s) \<and> length xs + length ys + length zs \<le> 1 \<and>
  list_all (\<lambda>x. api_mgr_op x \<or> AMgr x = it) xs \<and> list_all (\<lambda>y. api_share_op y \<or> AShare y = it) ys \<and>
  list_all (\<lambda>z. api_recv_op z \<or> ARecv z = it) zs"
proof (cases it)
  case (AReq a r)
  from request_client [of sha s hostname a r] obtain xs ys zs where
    "moved sha xs ys zs s (snd (api_request hostname sha a r s))" "list_all api_mgr_op xs" "list_all api_share_op ys"
    "list_all api_recv_op zs" "length xs + length ys + length zs \<le> 1" unfolding client_def by blast
  with AReq show ?thesis by (intro exI [of _ xs] exI [of _ ys] exI [of _ zs]) (simp add: list_all_iff)
next
  case (AMgr x)
  then show ?thesis
    by (intro exI [of _ "[x]"] exI [of _ "[]"]) (simp add: moved_def run_defs option.map_id)
next
  case (AShare y)
  then show ?thesis
    by (intro exI [of _ "[]"] exI [of _ "[y]"] exI [of _ "[]"]) (simp add: moved_def run_defs option.map_id)
next
  case (ARecv z)
  then show ?thesis
    by (intro exI [of _ "[]"] exI [of _ "[]"] exI [of _ "[z]"]) (simp add: moved_def run_defs option.map_id)
qed


lemma only_Ping_path: "a \<noteq> Ping \<Longrightarrow> route_path a i \<noteq> ''/api/v1/ping''"
  by (cases a) simp_all

lemma refused_without_token:
  assumes "a \<noteq> Ping" "rq_Path r = route_path a (rq_Id r)" "rq_Authorization r \<noteq> ''Bearer '' @ sv_Token s"
  shows "\<exists>msg. api_request hostname sha a r s = (ACode 401 ''UNAUTHORIZED'' msg, s)"
proof -
  have "\<not> isExempt r" using only_Ping_path [OF assms(1)] assms(2) by (simp add: isExempt_def)
  moreover have "\<not> (HasPrefix (rq_Authorization r) ''Bearer '' \<and> TrimPrefix (rq_Authorization r) ''Bearer '' = sv_Token s)"
    using assms(3) by (auto simp: HasPrefix_iff TrimPrefix_def)
  ultimately show ?thesis by (auto simp: api_request_def serve_def bearerAuth_def)
qed

text \<open>Without the token only the ping is open: requests for any other request and response route, however many, in whatever
  order and with whatever ids, bodies and origins, are answered 401 and leave the server as it was; the ping of a
  program on this machine is answered.\<close>

theorem only_the_ping_is_open:
  assumes "\<And>a r. AReq a r \<in> set its \<Longrightarrow> rq_Path r = route_path a (rq_Id r) \<and> rq_Authorization r \<noteq> ''Bearer '' @ sv_Token s"
    and "\<And>it. it \<in> set its \<Longrightarrow> \<exists>a r. it = AReq a r"
  shows "arun hostname sha its s = s \<and>
    (\<forall>a r. AReq a r \<in> set its \<and> a \<noteq> Ping \<longrightarrow> (\<exists>msg. fst (api_request hostname sha a r s) = ACode 401 ''UNAUTHORIZED'' msg)) \<and>
    (\<forall>r. AReq Ping r \<in> set its \<and> rq_Origin r = [] \<longrightarrow> fst (api_request hostname sha Ping r s) = AOk)"
proof (intro conjI allI impI)
  have ping: "snd (api_request hostname sha Ping r s) = s" for r
    by (simp add: api_request_def serve_def bearerAuth_def corsGuard_def handlePing_def)
  show "arun hostname sha its s = s"
    using assms
  proof (induction its)
    case (Cons it its)
    obtain a r where it: "it = AReq a r" using Cons.prems(2) [of it] by auto
    have "rq_Path r = route_path a (rq_Id r)" "rq_Authorization r \<noteq> ''Bearer '' @ sv_Token s"
      using Cons.prems(1) [of a r] it by simp_all
    then have "snd (api_request hostname sha a r s) = s"
      using ping refused_without_token [of a r s hostname sha] by (cases "a = Ping") auto
    moreover have "arun hostname sha its s = s" using Cons.prems by (intro Cons.IH) auto
    ultimately show ?case by (simp add: arun_def it)
  qed (simp add: arun_def)
next
  fix a r
  assume "AReq a r \<in> set its \<and> a \<noteq> Ping"
  then show "\<exists>msg. fst (api_request hostname sha a r s) = ACode 401 ''UNAUTHORIZED'' msg"
    using refused_without_token [of a r s hostname sha] assms(1) [of a r] by fastforce
next
  fix r
  assume "AReq Ping r \<in> set its \<and> rq_Origin r = []"
  then have "rq_Path r = ''/api/v1/ping''" "rq_Origin r = []" using assms(1) [of Ping r] by simp_all
  then show "fst (api_request hostname sha Ping r s) = AOk"
    by (simp add: api_request_def serve_def bearerAuth_def corsGuard_def handlePing_def isExempt_def)
qed

text \<open>Nobody takes a transfer back to connecting, which is the one operation that skips the limit.\<close>

fun no_retries :: "(string \<Rightarrow> string option) \<Rightarrow> (bytes \<Rightarrow> bytes) \<Rightarrow> aitem list \<Rightarrow> Server \<Rightarrow> bool" where
  "no_retries hostname sha [] s = True"
| "no_retries hostname sha (it # its) s =
    ((case (it, sv_TransferMgr s) of (AMgr x, Some m) \<Rightarrow> \<not> resumes x m | _ \<Rightarrow> True) \<and>
     no_retries hostname sha its (astep hostname sha it s))"

lemma api_op_no_resume: "api_mgr_op x \<Longrightarrow> \<not> resumes x m"
  by (cases x) (simp_all add: resumes_def)

text \<open>C22: The limits hold behind the API: whatever requests arrive and whatever the other goroutines do beside them, as long as
  nobody retries a transfer behind the manager's back, at most the configured number of transfers is active and at most
  the configured number of shares exists.\<close>

theorem limits_hold_behind_the_api:
  assumes "sv_TransferMgr s = Some m" "mgr_wf m" "int (Manager_ActiveCount m) \<le> mg_maxActive m"
    and "sv_ShareManager s = Some sm" "int (length (sm_shares sm)) \<le> sm_maxShares sm"
    and "no_retries hostname sha its s"
  shows "\<exists>m' sm'. sv_TransferMgr (arun hostname sha its s) = Some m' \<and> sv_ShareManager (arun hostname sha its s) = Some sm' \<and>
    mgr_wf m' \<and> int (Manager_ActiveCount m') \<le> mg_maxActive m \<and> int (length (sm_shares sm')) \<le> sm_maxShares sm"
  using assms
proof (induction its arbitrary: s m sm)
  case Nil
  then show ?case by (simp add: arun_def)
next
  case (Cons it its)
  let ?t = "astep hostname sha it s"
  obtain xs ys zs where 1: "moved sha xs ys zs s ?t" "length xs + length ys + length zs \<le> 1"
    "list_all (\<lambda>x. api_mgr_op x \<or> AMgr x = it) xs" using astep_moved by blast
  have no: "\<not> resumes x m" if "x \<in> set xs" for x
    using that 1(3) api_op_no_resume [of x m] Cons.prems(1,6) by (auto simp: list_all_iff)
  then have "no_resumes xs m" using 1(2) by (cases xs) auto
  then have m: "mgr_wf (mgr_run xs m)" "int (Manager_ActiveCount (mgr_run xs m)) \<le> mg_maxActive (mgr_run xs m)"
    using Cons.prems(2,3) run_within [of m xs] by (simp_all add: transfers.within_def mgr_run_wf)
  have sm: "int (length (sm_shares (srun sha ys sm))) \<le> sm_maxShares (srun sha ys sm)" "sm_maxShares (srun sha ys sm) = sm_maxShares sm"
    using srun_within [of sm sha ys] Cons.prems(5) by (simp_all add: shares.within_def share_count_def)
  have t: "sv_TransferMgr ?t = Some (mgr_run xs m)" "sv_ShareManager ?t = Some (srun sha ys sm)"
    using 1(1) Cons.prems(1,4) by (simp_all add: moved_def)
  from Cons.IH [OF t(1) m t(2) sm(1)] Cons.prems(6) sm(2) show ?case by (simp add: arun_def)
qed

lemma only_the_ping_is_open_witness:
  "arun (\<lambda>u. None) (\<lambda>b. b) [AReq StopShareR (demo_request\<lparr>rq_Path := ''/api/v1/shares/x'', rq_Id := ''x'', rq_Authorization := []\<rparr>)]
     demo_server = demo_server"
proof -
  let ?its = "[AReq StopShareR (demo_request\<lparr>rq_Path := ''/api/v1/shares/x'', rq_Id := ''x'', rq_Authorization := []\<rparr>)]"
  have "\<And>a r. AReq a r \<in> set ?its \<Longrightarrow>
      rq_Path r = route_path a (rq_Id r) \<and> rq_Authorization r \<noteq> ''Bearer '' @ sv_Token demo_server"
    by (simp add: demo_request_def)
  moreover have "\<And>it. it \<in> set ?its \<Longrightarrow> \<exists>a r. it = AReq a r" by simp
  ultimately show ?thesis using only_the_ping_is_open [of ?its demo_server] by blast
qed

lemma limits_hold_behind_the_api_witness:
  "\<exists>m' sm'. sv_TransferMgr (arun (\<lambda>u. None) (\<lambda>b. b) [AReq StopShareR demo_request] demo_server) = Some m' \<and>
    sv_ShareManager (arun (\<lambda>u. None) (\<lambda>b. b) [AReq StopShareR demo_request] demo_server) = Some sm' \<and>
    mgr_wf m' \<and> int (Manager_ActiveCount m') \<le> mg_maxActive (NewManager 3) \<and>
    int (length (sm_shares sm')) \<le> sm_maxShares (NewSManager 64)"
proof (rule limits_hold_behind_the_api)
  show "sv_TransferMgr demo_server = Some (NewManager 3)" "sv_ShareManager demo_server = Some (NewSManager 64)"
    by (simp_all add: demo_server_def)
  show "mgr_wf (NewManager 3)" by (rule mgr_wf_New)
  show "int (Manager_ActiveCount (NewManager 3)) \<le> mg_maxActive (NewManager 3)"
    by (simp add: NewManager_def Manager_ActiveCount_def)
  show "int (length (sm_shares (NewSManager 64))) \<le> sm_maxShares (NewSManager 64)" by (simp add: NewSManager_def)
  show "no_retries (\<lambda>u. None) (\<lambda>b. b) [AReq StopShareR demo_request] demo_server" by simp
qed


end
