(* ===== verification/Shutdown.thy ===== *)
theory Shutdown
  imports Startup Inbound Sse
begin

text \<open>
  The daemon's end: \<open>Serve\<close> of \<open>core/api/server.go\<close> when a signal arrives, the deferred calls of \<open>run\<close> in
  \<open>core/cmd/gcd/main.go\<close>, and the exit status that \<open>main\<close> makes of them. Times are milliseconds since the signal.
\<close>

section \<open>Serving until the signal\<close>

text \<open>\<open>http.Server.Shutdown\<close> closes the listener and looks, at the times \<open>polls\<close>, whether every connection is idle; it
  interrupts none of them, and gives up when its context does. A connection is the time at which its last handler has
  returned, None if it never does.\<close>

fun idle_at :: "nat \<Rightarrow> nat option \<Rightarrow> bool" where
  "idle_at p None = False"
| "idle_at p (Some t) \<longleftrightarrow> t \<le> p"

fun http_Shutdown :: "nat \<Rightarrow> nat option list \<Rightarrow> nat list \<Rightarrow> string option" where
  "http_Shutdown limit conns [] = Some ''context deadline exceeded''"
| "http_Shutdown limit conns (p # ps) =
    (if limit \<le> p then Some ''context deadline exceeded''
     else if list_all (idle_at p) conns then None
     else http_Shutdown limit conns ps)"

definition shutdownTimeout :: nat where "shutdownTimeout = 5000"

text \<open>What the select of \<open>Serve\<close> sees first: the context is done, or serving has failed. The result is its error.\<close>

datatype ServeEvent = CtxDone | ServeFailed string

definition Api_Serve :: "ServeEvent \<Rightarrow> nat option list \<Rightarrow> nat list \<Rightarrow> string option" where
  "Api_Serve ev conns polls = (case ev of
      CtxDone \<Rightarrow> http_Shutdown shutdownTimeout conns polls
    | ServeFailed e \<Rightarrow> Some e)"

section \<open>The deferred calls and the exit status\<close>

text \<open>The deferred calls run one after the other; one that does not return keeps the rest from running. The result is
  the list of those that have returned, and whether that is all of them.\<close>

fun unwind :: "(Resource \<Rightarrow> bool) \<Rightarrow> Resource list \<Rightarrow> Resource list \<times> bool" where
  "unwind returns [] = ([], True)"
| "unwind returns (r # rs) = (if returns r then (let (d, ok) = unwind returns rs in (r # d, ok)) else ([], False))"

text \<open>\<open>main\<close>: the status of the process, None as long as a deferred call does not return. A panic ends the process with
  status 2 after the deferred calls.\<close>

definition main_exit :: "(Resource \<Rightarrow> bool) \<Rightarrow> string option \<Rightarrow> Exit \<times> Run \<Rightarrow> nat option" where
  "main_exit returns serve_err er =
    (if \<not> snd (unwind returns (rn_defers (snd er))) then None
     else Some (case fst er of
         Failed e \<Rightarrow> 1
       | Panicked \<Rightarrow> 2
       | Served srv \<Rightarrow> (case serve_err of None \<Rightarrow> 0 | Some e \<Rightarrow> 1)))"

section \<open>Properties\<close>

lemma unwind_all: "snd (unwind returns rs) \<longleftrightarrow> list_all returns rs"
  by (induction rs) (auto split: prod.splits)

lemma Shutdown_None: "http_Shutdown limit conns ps = None \<longleftrightarrow>
    (\<exists>p \<in> set (takeWhile (\<lambda>p. p < limit) ps). \<forall>c \<in> set conns. idle_at p c)"
  by (induction ps) (auto simp: list_all_iff)

text \<open>The deferred calls once the inbound listener is open.\<close>

lemma late_defers:
  assumes "rn_inbound (snd (run os)) \<noteq> None"
  shows "\<exists>p sp i. rn_defers (snd (run os)) =
    [RInbound i, RShareManager, RShareServer sp, RDiscovery, RListener p, RDatabase, RLock, RSignals]"
proof -
  let ?P = "\<lambda>r. rn_inbound (snd r) \<noteq> None \<longrightarrow> (\<exists>p sp i. rn_defers (snd r) =
    [RInbound i, RShareManager, RShareServer sp, RDiscovery, RListener p, RDatabase, RLock, RSignals])"
  have "?P (run os)" by (rule run_ways [where P = ?P]) (auto simp: run_simps)
  with assms show ?thesis by simp
qed

text \<open>The inbound server is quiet: no handshake is in progress and no handler is reading from a peer.\<close>

definition quiet :: "Inbound \<Rightarrow> bool" where
  "quiet s \<longleftrightarrow> ib_hs s = None \<and> list_all (\<lambda>(c, h). h = HWaiting) (ib_handlers s)"

lemma quiet_iff:
  assumes "gwf (ib_handlers s)"
  shows "quiet s \<longleftrightarrow> ib_hs s = None \<and> (\<forall>c h. map_of (ib_handlers s) c = Some h \<longrightarrow> h = HWaiting)"
  using assms by (auto simp: quiet_def list_all_iff gwf_def)

lemma close_quiet:
  assumes "ireach (\<lambda>_. True) Start s" "Close s = Some t"
  shows "(\<exists>u. ireach own t u \<and> Close_returns u) \<longleftrightarrow> quiet s"
proof -
  have t: "t = s\<lparr>ib_quit := True, ib_backlog := []\<rparr>" using assms(2) by (simp add: Close_def split: if_splits)
  have "ievent_run C s = Some t" using assms(2) by simp
  then have "ireach (\<lambda>_. True) Start t" by (rule ireach.step [OF assms(1) TrueI])
  from close_returns [OF this] ireach_inv [OF assms(1) iinv_Start] show ?thesis
    by (simp add: t quiet_iff iinv_def)
qed


text \<open>When the handler of an event stream returns: when its client goes away.\<close>

definition stream_end :: "(nat \<times> Turn) list \<Rightarrow> nat option" where
  "stream_end ts = map_option fst (List.find (\<lambda>p. snd p = ClientGone) ts)"

lemma stream_end_loop: "fst (events_loop i (map snd ts) s b) \<longleftrightarrow> stream_end ts \<noteq> None"
proof (induction ts arbitrary: s b)
  case (Cons x ts)
  then show ?case by (cases x; cases "snd x") (auto simp: stream_end_def split: option.split prod.split)
qed (simp add: stream_end_def)

lemma stream_end_in: "stream_end ts = Some t \<Longrightarrow> (t, ClientGone) \<in> set ts"
  by (induction ts) (auto simp: stream_end_def split: if_splits)

text \<open>C20: An open page spoils the shutdown: while a client is connected to the event stream, whatever else happens to it, its
  handler does not return, and if the client stays for five seconds \<open>Serve\<close> ends with the error of its deadline.\<close>

theorem open_stream_fails_shutdown:
  assumes "\<And>n. (n, ClientGone) \<in> set ts \<Longrightarrow> 5000 \<le> n"
  shows "Api_Serve CtxDone (conns @ stream_end ts # conns') polls = Some ''context deadline exceeded'' \<and>
    \<not> fst (events_loop i (map snd (filter (\<lambda>x. fst x < 5000) ts)) s b)"
proof
  have e: "\<not> idle_at p (stream_end ts)" if "p < 5000" for p
    using stream_end_in [of ts] assms that by (cases "stream_end ts") fastforce+
  have "http_Shutdown 5000 (conns @ stream_end ts # conns') polls = Some ''context deadline exceeded''"
    by (induction polls) (auto simp: e)
  then show "Api_Serve CtxDone (conns @ stream_end ts # conns') polls = Some ''context deadline exceeded''"
    by (simp add: Api_Serve_def shutdownTimeout_def)
  have "stream_end (filter (\<lambda>x. fst x < 5000) ts) = None"
    using assms by (force simp: stream_end_def find_None_iff)
  then show "\<not> fst (events_loop i (map snd (filter (\<lambda>x. fst x < 5000) ts)) s b)" by (simp add: stream_end_loop)
qed

section \<open>A concrete end\<close>

definition demo_returns :: "Inbound \<Rightarrow> Resource \<Rightarrow> bool" where
  "demo_returns t r = (case r of RInbound i \<Rightarrow> \<exists>u. ireach own t u \<and> Close_returns u | _ \<Rightarrow> True)"


lemma open_stream_fails_shutdown_witness:
  "Api_Serve CtxDone ([Some 0] @ stream_end [(100, Throttle []), (9000, ClientGone)] # []) [0, 500, 1000] = Some ''context deadline exceeded'' \<and>
    \<not> fst (events_loop 0 (map snd (filter (\<lambda>x. fst x < 5000) [(100 :: nat, Throttle []), (9000, ClientGone)])) newStream newEventBroker)"
  by (rule open_stream_fails_shutdown) simp


end
