(* ===== verification/StoreOpen.thy ===== *)
theory StoreOpen
  imports GoPath
begin

text \<open>
  Opening the transfer log (\<open>core/store/store.go\<close>): \<open>Open\<close> with its early returns, and the schema that
  \<open>migrate\<close> runs, as a value with the SQL meaning of \<open>CREATE TABLE IF NOT EXISTS\<close>; the columns that the inserts of
  \<open>core/store/crud.go\<close> name. The driver's answers are arguments.
\<close>

section \<open>The schema\<close>

text \<open>A column has a name, and may be required without a default value.\<close>

record Column =
  co_name :: string
  co_integer :: bool
  co_not_null :: bool
  co_default :: "int option"

definition text_col :: "string \<Rightarrow> Column" where
  "text_col n = \<lparr>co_name = n, co_integer = False, co_not_null = False, co_default = None\<rparr>"

definition int_col :: "string \<Rightarrow> Column" where
  "int_col n = \<lparr>co_name = n, co_integer = True, co_not_null = False, co_default = None\<rparr>"

definition not_null :: "Column \<Rightarrow> Column" where
  "not_null c = c\<lparr>co_not_null := True\<rparr>"

definition default_zero :: "Column \<Rightarrow> Column" where
  "default_zero c = c\<lparr>co_default := Some 0\<rparr>"

definition shares_table :: "Column list" where
  "shares_table = [text_col ''id'', not_null (text_col ''kind''), text_col ''target'', not_null (text_col ''file_path''),
     default_zero (not_null (int_col ''size'')), not_null (text_col ''status''), not_null (int_col ''created_at''),
     int_col ''expires_at'', default_zero (not_null (int_col ''downloads'')), int_col ''max_downloads'',
     text_col ''password_hash'', text_col ''password_salt'']"

definition transfers_table :: "Column list" where
  "transfers_table = [text_col ''id'', not_null (text_col ''direction''), not_null (text_col ''peer_device_id''),
     text_col ''peer_name'', not_null (text_col ''file_path''), default_zero (not_null (int_col ''size'')),
     not_null (text_col ''status''), not_null (int_col ''started_at''), int_col ''finished_at'', text_col ''error'']"

type_synonym Tables = "(string, Column list) gomap"

definition create_table :: "string \<Rightarrow> Column list \<Rightarrow> Tables \<Rightarrow> Tables" where
  "create_table t cols db = (if map_of db t = None then gput t cols db else db)"

definition migrate :: "Tables \<Rightarrow> Tables" where
  "migrate db = create_table ''transfers'' transfers_table (create_table ''shares'' shares_table db)"

section \<open>Opening\<close>

datatype OpenError = EnsureDataDir | OpenSqlite | PingSqlite | Migrate

definition dsn :: "string \<Rightarrow> string" where
  "dsn dir = ''file:'' @ PathJoin dir ''transfer_log.db'' @
     ''?_pragma=journal_mode(WAL)&_pragma=busy_timeout(5000)&_pragma=foreign_keys(1)''"

text \<open>The result, and the handles that \<open>Open\<close> has closed again.\<close>

definition Store_Open ::
  "bool \<Rightarrow> (string \<Rightarrow> 'h option) \<Rightarrow> ('h \<Rightarrow> bool) \<Rightarrow> ('h \<Rightarrow> bool) \<Rightarrow> string \<Rightarrow> (OpenError + 'h) \<times> 'h list" where
  "Store_Open mkdir sql_open ping exec dir =
    (if \<not> mkdir then (Inl EnsureDataDir, [])
     else (case sql_open (dsn dir) of
         None \<Rightarrow> (Inl OpenSqlite, [])
       | Some db \<Rightarrow>
           if \<not> ping db then (Inl PingSqlite, [db])
           else if \<not> exec db then (Inl Migrate, [db])
           else (Inr db, [])))"

section \<open>The inserts\<close>

definition CreateShare_columns :: "string list" where
  "CreateShare_columns = [''id'', ''kind'', ''target'', ''file_path'', ''size'', ''status'', ''created_at'', ''expires_at'',
     ''downloads'', ''max_downloads'']"

definition CreateTransfer_columns :: "string list" where
  "CreateTransfer_columns = [''id'', ''direction'', ''peer_device_id'', ''peer_name'', ''file_path'', ''size'', ''status'',
     ''started_at'', ''finished_at'', ''error'']"

text \<open>An insert is possible when each of its columns exists and each required one without a default is among them.\<close>

definition accepts_insert :: "string \<Rightarrow> string list \<Rightarrow> Tables \<Rightarrow> bool" where
  "accepts_insert t cols db = (case map_of db t of
      None \<Rightarrow> False
    | Some cs \<Rightarrow> set cols \<subseteq> co_name ` set cs \<and>
        list_all (\<lambda>c. co_not_null c \<and> co_default c = None \<longrightarrow> co_name c \<in> set cols) cs)"

section \<open>Properties\<close>

text \<open>\<open>Open\<close> succeeds exactly when every step does, and a failure leaves no handle open.\<close>

theorem open_leaks_nothing:
  "((\<exists>db. fst (Store_Open mkdir sql_open ping exec dir) = Inr db) \<longleftrightarrow>
     mkdir \<and> (\<exists>db. sql_open (dsn dir) = Some db \<and> ping db \<and> exec db)) \<and>
   set (snd (Store_Open mkdir sql_open ping exec dir)) =
     (if isl (fst (Store_Open mkdir sql_open ping exec dir)) \<and> mkdir then set_option (sql_open (dsn dir)) else {})"
  by (auto simp: Store_Open_def split: option.split)

lemma migrate_lookup: "map_of (migrate db) t =
    (case map_of db t of Some cs \<Rightarrow> Some cs
     | None \<Rightarrow> if t = ''shares'' then Some shares_table else if t = ''transfers'' then Some transfers_table else None)"
  by (auto simp: migrate_def create_table_def map_of_gput split: option.split)

lemma fresh_inserts:
  "accepts_insert ''shares'' CreateShare_columns [(''shares'', shares_table)]"
  "accepts_insert ''transfers'' CreateTransfer_columns [(''transfers'', transfers_table)]"
  by code_simp+

text \<open>What \<open>migrate\<close> does and does not do: on a database without the tables the inserts of \<open>crud.go\<close> fit afterwards;
  running it again changes nothing; and a table that is there stays as it is, so an insert that an older table rejects is
  rejected after every restart too.\<close>

theorem migrate_only_creates:
  "map_of (migrate (migrate db)) = map_of (migrate db) \<and>
   (map_of db ''shares'' = None \<longrightarrow> accepts_insert ''shares'' CreateShare_columns (migrate db)) \<and>
   (map_of db ''transfers'' = None \<longrightarrow> accepts_insert ''transfers'' CreateTransfer_columns (migrate db)) \<and>
   (map_of db t \<noteq> None \<longrightarrow> accepts_insert t cols (migrate db) = accepts_insert t cols db)"
  using fresh_inserts by (auto simp: accepts_insert_def migrate_lookup fun_eq_iff split: option.splits)

end
